(* ===== verification/NodeId.thy ===== *)
theory NodeId
  imports Prelude
begin

text \<open>
  Node identities, \<open>src/pkg/node/nodeid.go\<close>: an endpoint is an address and a port, a \<open>NodeID\<close> an
  endpoint with the boot time of the process. The theory models the text and binary forms, the
  comparison of boots and the validation. \<open>netip.Addr\<close> is modelled as far as the program can build
  one: the zero value, an IPv4 address, or an IPv6 address without a zone, which is what
  \<open>netip.AddrFromSlice\<close> and \<open>netip.ParseAddrPort\<close> return. Errors are values of
  \<^theory_text>\<open>node_error\<close>; the panics of \<open>Addr.As4\<close> are one of them.
\<close>

section \<open>Addresses\<close>

datatype Addr =
    AddrZero
  | IPv4 u8 u8 u8 u8
  | IPv6 "128 word"

fun IsValid :: "Addr \<Rightarrow> bool" where
  "IsValid AddrZero = False"
| "IsValid _ = True"

fun Is4 :: "Addr \<Rightarrow> bool" where
  "Is4 (IPv4 _ _ _ _) = True"
| "Is4 _ = False"

lemma Is4_iff: "Is4 a \<longleftrightarrow> (\<exists>x y z w. a = IPv4 x y z w)"
  by (cases a) auto

definition dotted :: "u8 \<Rightarrow> u8 \<Rightarrow> u8 \<Rightarrow> u8 \<Rightarrow> string" where
  "dotted a b c d =
     dec (unat a) @ CHR ''.'' # dec (unat b) @ CHR ''.'' # dec (unat c) @ CHR ''.'' # dec (unat d)"

text \<open>The eight 16-bit groups and the sixteen bytes of an IPv6 address.\<close>

definition v6_groups :: "128 word \<Rightarrow> nat list" where
  "v6_groups w = map (\<lambda>i. unat w div 2 ^ (112 - 16 * i) mod 2 ^ 16) [0..<8]"

definition v6_byte :: "128 word \<Rightarrow> nat \<Rightarrow> u8" where
  "v6_byte w i = of_nat (unat w div 2 ^ (120 - 8 * i))"

definition Is4In6 :: "128 word \<Rightarrow> bool" where
  "Is4In6 w \<longleftrightarrow> unat w div 2 ^ 32 = 65535"

fun hex :: "nat \<Rightarrow> string" where
  "hex n = (let d = n mod 16; c = (if d < 10 then digit_char d else char_of (87 + d))
            in if n < 16 then [c] else hex (n div 16) @ [c])"

declare hex.simps [simp del]

fun join_colon :: "string list \<Rightarrow> string" where
  "join_colon [] = []"
| "join_colon [s] = s"
| "join_colon (s # ss) = s @ CHR '':'' # join_colon ss"

text \<open>The longest run of at least two zero groups, the first one among equals.\<close>

definition longest_zero_run :: "nat list \<Rightarrow> nat \<times> nat" where
  "longest_zero_run gs =
     foldl (\<lambda>(s, e) i. let l = length (takeWhile (\<lambda>g. g = 0) (drop i gs))
                       in if 2 \<le> l \<and> e - s < l then (i, i + l) else (s, e))
       (255, 255) [0..<length gs]"

definition string6 :: "128 word \<Rightarrow> string" where
  "string6 w =
     (let gs = v6_groups w; (s, e) = longest_zero_run gs
      in if s = 255 then join_colon (map hex gs)
         else join_colon (map hex (take s gs)) @ ''::'' @ join_colon (map hex (drop e gs)))"

fun Addr_String :: "Addr \<Rightarrow> string" where
  "Addr_String AddrZero = ''invalid IP''"
| "Addr_String (IPv4 a b c d) = dotted a b c d"
| "Addr_String (IPv6 w) =
     (if Is4In6 w
      then ''::ffff:'' @ dotted (v6_byte w 12) (v6_byte w 13) (v6_byte w 14) (v6_byte w 15)
      else string6 w)"

text \<open>\<open>netip.AddrFromSlice\<close>: four bytes or sixteen; the latter stay an IPv6 address.\<close>

definition AddrFromSlice :: "u8 list \<Rightarrow> Addr option" where
  "AddrFromSlice b =
     (case b of
        [w, x, y, z] \<Rightarrow> Some (IPv4 w x y z)
      | _ \<Rightarrow> if length b = 16 then Some (IPv6 (of_nat (be_value b))) else None)"

section \<open>Endpoints and node identities\<close>

datatype node_error =
    ErrEndpoint        \<comment> \<open>the address does not parse, or is not IPv4\<close>
  | ErrParse
  | ErrZeroEndpoint
  | ErrShortBuffer
  | ErrInvalidIPv4Bytes
  | ErrPortZero
  | ErrOnlyIPv4
  | PanicAs4           \<comment> \<open>\<open>Addr.As4\<close> on the zero value or on an IPv6 address\<close>

record Endpoint =
  IP :: Addr
  Port :: u16

record NodeID =
  EP :: Endpoint
  TimeStamp :: u64

definition zeroEndpoint :: Endpoint where
  "zeroEndpoint = \<lparr>IP = AddrZero, Port = 0\<rparr>"

definition zeroNodeID :: NodeID where
  "zeroNodeID = \<lparr>EP = zeroEndpoint, TimeStamp = 0\<rparr>"

definition parse_octet :: "string \<Rightarrow> u8 option" where
  "parse_octet s =
     (if s \<noteq> [] \<and> all_digits s \<and> (length s = 1 \<or> hd s \<noteq> digit_char 0) \<and> val10 s \<le> 255
      then Some (of_nat (val10 s)) else None)"

definition parse_ipv4 :: "string \<Rightarrow> Addr option" where
  "parse_ipv4 s =
     (case split_on (CHR ''.'') s of
        [a, b, c, d] \<Rightarrow>
          (case (parse_octet a, parse_octet b, parse_octet c, parse_octet d) of
             (Some w, Some x, Some y, Some z) \<Rightarrow> Some (IPv4 w x y z)
           | _ \<Rightarrow> None)
      | _ \<Rightarrow> None)"

text \<open>
  \<open>netip.ParseAddrPort\<close> followed by the test for IPv4. A bracketed or bare IPv6 address is rejected
  either by the first or by the second, so one error stands for both.
\<close>

definition ParseStringToEndpoint :: "string \<Rightarrow> node_error + Endpoint" where
  "ParseStringToEndpoint s =
     (case rcut (CHR '':'') s of
        None \<Rightarrow> Inl ErrEndpoint
      | Some (ip, port) \<Rightarrow>
          (case (parse_uint 16 port, parse_ipv4 ip) of
             (Some p, Some a) \<Rightarrow> Inr \<lparr>IP = a, Port = of_nat p\<rparr>
           | _ \<Rightarrow> Inl ErrEndpoint))"

definition EndpointToString :: "Endpoint \<Rightarrow> string" where
  "EndpointToString e = Addr_String (IP e) @ CHR '':'' # dec (unat (Port e))"

definition IsZero :: "Endpoint \<Rightarrow> bool" where
  "IsZero e \<longleftrightarrow> \<not> IsValid (IP e)"

definition NewNodeID :: "u64 \<Rightarrow> Endpoint \<Rightarrow> NodeID" where
  "NewNodeID bootTimeNow ep = \<lparr>EP = ep, TimeStamp = bootTimeNow\<rparr>"

definition Compare :: "NodeID \<Rightarrow> NodeID \<Rightarrow> int" where
  "Compare a b =
     (if TimeStamp a < TimeStamp b then -1
      else if TimeStamp b < TimeStamp a then 1
      else 0)"

definition NodeIDToString :: "NodeID \<Rightarrow> string" where
  "NodeIDToString n = EndpointToString (EP n) @ CHR ''@'' # dec (unat (TimeStamp n))"

definition ParseStringToNodeID :: "string \<Rightarrow> node_error + NodeID" where
  "ParseStringToNodeID s =
     (case split_on (CHR ''@'') s of
        [p0, p1] \<Rightarrow>
          (case ParseStringToEndpoint p0 of
             Inl e \<Rightarrow> Inl e
           | Inr ep \<Rightarrow>
               (case parse_uint 64 p1 of
                  None \<Rightarrow> Inl ErrParse
                | Some boot \<Rightarrow> Inr \<lparr>EP = ep, TimeStamp = of_nat boot\<rparr>))
      | _ \<Rightarrow> Inl ErrParse)"

fun As4 :: "Addr \<Rightarrow> node_error + u8 list" where
  "As4 AddrZero = Inl PanicAs4"
| "As4 (IPv4 a b c d) = Inr [a, b, c, d]"
| "As4 (IPv6 w) =
     (if Is4In6 w then Inr [v6_byte w 12, v6_byte w 13, v6_byte w 14, v6_byte w 15]
      else Inl PanicAs4)"

definition MarshalBinary :: "NodeID \<Rightarrow> node_error + u8 list" where
  "MarshalBinary n =
     (if IsZero (EP n) then Inl ErrZeroEndpoint
      else (case As4 (IP (EP n)) of
              Inl e \<Rightarrow> Inl e
            | Inr ip4 \<Rightarrow> Inr (ip4 @ be_bytes 2 (unat (Port (EP n))) @ be_bytes 8 (unat (TimeStamp n)))))"

definition UnmarshalBinary :: "u8 list \<Rightarrow> node_error + NodeID" where
  "UnmarshalBinary b =
     (if length b < 14 then Inl ErrShortBuffer
      else (case AddrFromSlice (take 4 b) of
              None \<Rightarrow> Inl ErrInvalidIPv4Bytes
            | Some ip \<Rightarrow>
                if \<not> Is4 ip then Inl ErrInvalidIPv4Bytes
                else Inr \<lparr>EP = \<lparr>IP = ip, Port = of_nat (be_value (take 2 (drop 4 b)))\<rparr>,
                          TimeStamp = of_nat (be_value (take 8 (drop 6 b)))\<rparr>))"

definition MarshalText :: "NodeID \<Rightarrow> string" where
  "MarshalText n = NodeIDToString n"

definition UnmarshalText :: "string \<Rightarrow> node_error + NodeID" where
  "UnmarshalText b = ParseStringToNodeID b"

text \<open>\<open>Validate\<close> returns the error, or nothing.\<close>

definition Validate :: "NodeID \<Rightarrow> node_error option" where
  "Validate n =
     (if IsZero (EP n) then Some ErrZeroEndpoint
      else if Port (EP n) = 0 then Some ErrPortZero
      else if \<not> Is4 (IP (EP n)) then Some ErrOnlyIPv4
      else None)"

fun compare_bytes :: "u8 list \<Rightarrow> u8 list \<Rightarrow> int" where
  "compare_bytes (a # as) (b # bs) =
     (if a < b then -1 else if b < a then 1 else compare_bytes as bs)"
| "compare_bytes _ _ = 0"

definition compareAddr :: "Addr \<Rightarrow> Addr \<Rightarrow> node_error + int" where
  "compareAddr a b =
     (case As4 a of Inl e \<Rightarrow> Inl e
      | Inr ab \<Rightarrow> (case As4 b of Inl e \<Rightarrow> Inl e | Inr bb \<Rightarrow> Inr (compare_bytes ab bb)))"

named_theorems parse_defs \<open>evaluation of the parser on concrete texts\<close>
named_theorems print_defs \<open>evaluation of the printer on concrete identities\<close>

lemmas parser_definitions [parse_defs] =
  UnmarshalText_def ParseStringToNodeID_def ParseStringToEndpoint_def parse_ipv4_def parse_octet_def
  parse_uint_def rcut_def val10_def digit_val_def digit_chars is_digit_def all_digits_def

lemmas printer_definitions [print_defs] =
  MarshalText_def NodeIDToString_def EndpointToString_def dotted_def dec.simps digit_chars

section \<open>The text form\<close>

lemma dec_no_sep [simp]:
  "CHR ''.'' \<notin> set (dec n)" "CHR '':'' \<notin> set (dec n)" "CHR ''@'' \<notin> set (dec n)"
  by (rule not_digit_not_in_dec, simp add: is_digit_def)+

lemma unat_u8_bound [simp]: "unat (x :: u8) \<le> 255"
  using u8_unat_less [of x] by linarith

lemma parse_octet_dec [simp]: "parse_octet (dec (unat x)) = Some x"
  using length_dec_Suc_0 [of "unat x"] by (auto simp: parse_octet_def hd_dec_eq_0)

lemma parse_octet_digits: "parse_octet s = Some x \<Longrightarrow> all_digits s"
  by (simp add: parse_octet_def split: if_splits)

lemma parse_ipv4_dotted [simp]: "parse_ipv4 (dotted a b c d) = Some (IPv4 a b c d)"
  by (simp add: parse_ipv4_def dotted_def)

lemma parse_ipv4_Is4: "parse_ipv4 s = Some a \<Longrightarrow> Is4 a"
  by (auto simp: parse_ipv4_def split: list.splits option.splits)

lemma unat_u16_bound [simp]: "unat (x :: u16) < 65536"
  using unat_less_pow [of x] by simp

lemma unat_u64_bound [simp]: "unat (x :: u64) < 18446744073709551616"
  using unat_less_pow [of x] by simp

lemma ParseStringToEndpoint_print:
  "Is4 (IP e) \<Longrightarrow> ParseStringToEndpoint (EndpointToString e) = Inr e"
  by (auto simp: Is4_iff ParseStringToEndpoint_def EndpointToString_def)

lemma ParseStringToEndpoint_Is4: "ParseStringToEndpoint s = Inr e \<Longrightarrow> Is4 (IP e)"
  by (auto simp: ParseStringToEndpoint_def split: option.splits) (erule parse_ipv4_Is4)

lemma ParseStringToNodeID_Is4: "ParseStringToNodeID s = Inr n \<Longrightarrow> Is4 (IP (EP n))"
  by (auto simp: ParseStringToNodeID_def dest: ParseStringToEndpoint_Is4
      split: list.splits sum.splits option.splits)

lemma EndpointToString_inj:
  assumes "Is4 (IP a)" and "Is4 (IP b)"
  shows "EndpointToString a = EndpointToString b \<longleftrightarrow> a = b"
  using ParseStringToEndpoint_print [OF assms(1)] ParseStringToEndpoint_print [OF assms(2)]
  by (metis sum.inject(2))

text \<open>No printed address contains the separator of the boot time.\<close>

definition hex_char :: "char \<Rightarrow> bool" where
  "hex_char c \<longleftrightarrow> is_digit c \<or> 97 \<le> (of_char c :: nat) \<and> (of_char c :: nat) \<le> 102"

lemma hex_chars: "c \<in> set (hex n) \<Longrightarrow> hex_char c"
proof (induction n rule: hex.induct)
  case (1 n)
  have "n mod 16 < 16" by simp
  then have "hex_char (if n mod 16 < 10 then digit_char (n mod 16) else char_of (87 + n mod 16))"
    by (auto simp: hex_char_def)
  with 1 show ?case
    by (subst (asm) (2) hex.simps) (auto simp: Let_def split: if_splits)
qed

lemma join_colon_chars: "c \<in> set (join_colon ss) \<Longrightarrow> c = CHR '':'' \<or> (\<exists>s \<in> set ss. c \<in> set s)"
  by (induction ss rule: join_colon.induct) auto

lemma string6_chars: "c \<in> set (string6 w) \<Longrightarrow> c = CHR '':'' \<or> hex_char c"
  by (auto simp: string6_def Let_def split: prod.splits if_splits
      dest!: join_colon_chars hex_chars in_set_takeD in_set_dropD)

lemma string6_no_sep [simp]: "CHR ''.'' \<notin> set (string6 w)" "CHR ''@'' \<notin> set (string6 w)"
  using string6_chars [of "CHR ''.''" w] string6_chars [of "CHR ''@''" w]
  by (auto simp: hex_char_def is_digit_def)

lemma Addr_String_no_at [simp]: "CHR ''@'' \<notin> set (Addr_String a)"
  by (cases a) (auto simp: dotted_def)

lemma EndpointToString_no_at [simp]: "CHR ''@'' \<notin> set (EndpointToString e)"
  by (simp add: EndpointToString_def)

lemma ParseStringToNodeID_print:
  "ParseStringToNodeID (NodeIDToString n) =
     (case ParseStringToEndpoint (EndpointToString (EP n)) of
        Inl e \<Rightarrow> Inl e | Inr ep \<Rightarrow> Inr \<lparr>EP = ep, TimeStamp = TimeStamp n\<rparr>)"
  by (simp add: ParseStringToNodeID_def NodeIDToString_def split: sum.split)

text \<open>An address that is not IPv4 prints to a text that \<open>netip.ParseAddrPort\<close> does not read back as IPv4.\<close>

lemma parse_ipv4_not_Is4: "\<not> Is4 a \<Longrightarrow> parse_ipv4 (Addr_String a) = None"
proof (cases a)
  case AddrZero
  then show ?thesis by (simp add: parse_ipv4_def)
next
  case (IPv6 w)
  have "parse_octet (CHR '':'' # s) = None" for s
    by (simp add: parse_octet_def is_digit_def)
  then show ?thesis
    using IPv6 split_on_sep [of "CHR ''.''" "''::ffff:'' @ dec (unat (v6_byte w 12))"]
    by (simp add: parse_ipv4_def dotted_def split: list.split option.split)
qed simp

lemma ParseStringToEndpoint_not_Is4:
  "\<not> Is4 (IP e) \<Longrightarrow> ParseStringToEndpoint (EndpointToString e) = Inl ErrEndpoint"
  by (simp add: ParseStringToEndpoint_def EndpointToString_def parse_ipv4_not_Is4 split: option.split)

text \<open>
  C28. The text form of a node identity, which is what JSON carries and what keys the membership
  list, is lossless exactly for the IPv4 identities: \<open>UnmarshalText\<close> reads back an IPv4 identity
  unchanged, whatever its port and boot time, and rejects the text of any other identity.
\<close>

theorem nodeid_text_roundtrip:
  "UnmarshalText (MarshalText n) = (if Is4 (IP (EP n)) then Inr n else Inl ErrEndpoint)"
  by (simp add: UnmarshalText_def MarshalText_def ParseStringToNodeID_print
      ParseStringToEndpoint_print ParseStringToEndpoint_not_Is4)

text \<open>
  Everything \<open>UnmarshalText\<close> accepts is an IPv4 identity, and printing the accepted identity
  and reading it again gives the same identity: parsing is idempotent on what it accepts, although
  several texts (leading zeros in the port) denote one identity.
\<close>

theorem nodeid_text_canonical:
  assumes "UnmarshalText s = Inr n"
  shows "Is4 (IP (EP n)) \<and> UnmarshalText (MarshalText n) = Inr n"
  using assms ParseStringToNodeID_Is4 [of s n] by (simp add: UnmarshalText_def MarshalText_def ParseStringToNodeID_print ParseStringToEndpoint_print)

section \<open>The binary form\<close>

lemma take_four: "4 \<le> length b \<Longrightarrow> \<exists>w x y z. take 4 b = [w, x, y, z]"
  by (auto simp: numeral_eq_Suc Suc_le_length_iff)

text \<open>The fourteen bytes, read back piece by piece.\<close>

lemma take_14_pieces: "take 4 b @ take 2 (drop 4 b) @ take 8 (drop 6 b) = take 14 b"
  using take_add [of 4 10 b] take_add [of 2 8 "drop 4 b"] by simp

lemma be_bytes_word:
  assumes "length bs = k" and "8 * k = LENGTH('a)"
  shows "be_bytes k (unat (of_nat (be_value bs) :: 'a :: len word)) = bs"
proof -
  have "(256 :: nat) ^ k = (2 ^ 8) ^ k" by simp
  also have "\<dots> = 2 ^ LENGTH('a)" unfolding assms(2) [symmetric] by (simp only: power_mult)
  finally have "be_value bs < 2 ^ LENGTH('a)"
    using be_value_less [of bs] assms(1) by simp
  then have "unat (of_nat (be_value bs) :: 'a word) = be_value bs"
    by (simp add: unat_of_nat)
  then show ?thesis using be_bytes_be_value [of bs] assms(1) by simp
qed

theorem nodeid_text_canonical_witness:
  "\<exists>n. UnmarshalText ''10.0.0.1:05000@7'' = Inr n \<and> Is4 (IP (EP n)) \<and>
       MarshalText n = ''10.0.0.1:5000@7'' \<and> UnmarshalText (MarshalText n) = Inr n"
proof -
  let ?n = "\<lparr>EP = \<lparr>IP = IPv4 10 0 0 1, Port = 5000\<rparr>, TimeStamp = 7\<rparr>"
  have p: "UnmarshalText ''10.0.0.1:05000@7'' = Inr ?n"
    by (simp add: parse_defs)
  have t: "MarshalText ?n = ''10.0.0.1:5000@7''"
    by (simp add: print_defs)
  from nodeid_text_canonical [OF p] p t show ?thesis by blast
qed

text \<open>
  \<open>MarshalBinary\<close> writes an IPv4 identity as 14 bytes, and \<open>UnmarshalBinary\<close> recovers it from any
  buffer that starts with them.
\<close>

theorem nodeid_binary_roundtrip:
  assumes "Is4 (IP (EP n))"
  shows "\<exists>bs. MarshalBinary n = Inr bs \<and> length bs = 14 \<and> UnmarshalBinary (bs @ rest) = Inr n"
proof -
  obtain a b c d where ip: "IP (EP n) = IPv4 a b c d" using assms by (auto simp: Is4_iff)
  show ?thesis
    by (cases n; cases "EP n")
       (use ip in \<open>auto simp: MarshalBinary_def UnmarshalBinary_def IsZero_def AddrFromSlice_def\<close>)
qed

text \<open>
  Conversely, what \<open>UnmarshalBinary\<close> accepts is determined by the first 14 bytes, and marshalling
  the result gives exactly those bytes back; shorter buffers are rejected.
\<close>

theorem nodeid_binary_parse:
  "if length b < 14 then UnmarshalBinary b = Inl ErrShortBuffer
   else (\<exists>n. UnmarshalBinary b = Inr n \<and> Is4 (IP (EP n)) \<and> MarshalBinary n = Inr (take 14 b))"
proof (cases "length b < 14")
  case True
  then show ?thesis by (simp add: UnmarshalBinary_def)
next
  case len: False
  then obtain w x y z where t4: "take 4 b = [w, x, y, z]" using take_four [of b] by auto
  have p: "be_bytes 2 (unat (of_nat (be_value (take 2 (drop 4 b))) :: u16)) = take 2 (drop 4 b)"
    and t: "be_bytes 8 (unat (of_nat (be_value (take 8 (drop 6 b))) :: u64)) = take 8 (drop 6 b)"
    using len by (simp_all add: be_bytes_word)
  show ?thesis
    using len p t take_14_pieces [of b]
    by (simp add: UnmarshalBinary_def AddrFromSlice_def MarshalBinary_def IsZero_def t4)
qed

theorem nodeid_binary_roundtrip_witness:
  "\<exists>bs. MarshalBinary \<lparr>EP = \<lparr>IP = IPv4 10 0 0 1, Port = 5000\<rparr>, TimeStamp = 7\<rparr> = Inr bs \<and>
     length bs = 14 \<and>
     UnmarshalBinary (bs @ [1, 2]) = Inr \<lparr>EP = \<lparr>IP = IPv4 10 0 0 1, Port = 5000\<rparr>, TimeStamp = 7\<rparr>"
  by (rule nodeid_binary_roundtrip) simp

section \<open>Order and validation\<close>

text \<open>
  \<open>Compare\<close> looks at the boot time only: it is antisymmetric in sign and answers 0 for two
  identities exactly when their boot times agree, although the comment on it announces a tie-break
  on address and port.
\<close>

theorem Compare_boot_time_only:
  "(Compare a b = 0 \<longleftrightarrow> TimeStamp a = TimeStamp b) \<and> Compare b a = - Compare a b \<and>
   (Compare a b = -1 \<longleftrightarrow> TimeStamp a < TimeStamp b)"
  by (auto simp: Compare_def)

lemma compare_bytes_refl_iff:
  "length as = length bs \<Longrightarrow> compare_bytes as bs = 0 \<longleftrightarrow> as = bs"
  by (induction as bs rule: compare_bytes.induct) auto

lemma compare_bytes_swap: "compare_bytes bs as = - compare_bytes as bs"
  by (induction as bs rule: compare_bytes.induct) auto

text \<open>
  On IPv4 addresses \<open>compareAddr\<close> never panics, is 0 only on equal addresses and changes sign
  when its arguments are swapped; \<open>Validate\<close> accepts exactly the IPv4 identities with a port.
\<close>

theorem address_order_and_validation:
  "(Is4 a \<and> Is4 b \<longrightarrow>
      (\<exists>c. compareAddr a b = Inr c \<and> compareAddr b a = Inr (- c) \<and> (c = 0 \<longleftrightarrow> a = b))) \<and>
   (Validate n = None \<longleftrightarrow> Is4 (IP (EP n)) \<and> Port (EP n) \<noteq> 0)"
proof -
  have "\<exists>c. compareAddr a b = Inr c \<and> compareAddr b a = Inr (- c) \<and> (c = 0 \<longleftrightarrow> a = b)"
    if ab: "Is4 a" "Is4 b"
  proof -
    obtain w x y z w' x' y' z' where e: "a = IPv4 w x y z" "b = IPv4 w' x' y' z'"
      using ab by (auto simp: Is4_iff)
    show ?thesis
      using compare_bytes_swap [of "[w', x', y', z']" "[w, x, y, z]"]
        compare_bytes_refl_iff [of "[w, x, y, z]" "[w', x', y', z']"]
      by (simp add: compareAddr_def e del: compare_bytes.simps)
  qed
  moreover have "Validate n = None \<longleftrightarrow> Is4 (IP (EP n)) \<and> Port (EP n) \<noteq> 0"
    by (cases "IP (EP n)") (auto simp: Validate_def IsZero_def)
  ultimately show ?thesis by blast
qed

theorem address_order_and_validation_witness:
  "\<exists>c. compareAddr (IPv4 10 0 0 1) (IPv4 10 0 0 2) = Inr c \<and>
       compareAddr (IPv4 10 0 0 2) (IPv4 10 0 0 1) = Inr (- c) \<and>
       (c = 0 \<longleftrightarrow> IPv4 10 0 0 1 = IPv4 10 0 0 2)"
  using address_order_and_validation [of "IPv4 10 0 0 1" "IPv4 10 0 0 2"] by simp

end
