(* ===== verification/Durations.thy ===== *)
theory Durations
  imports GoTime
begin

text \<open>
  \<open>Duration.String\<close> and \<open>time.ParseDuration\<close>: the text form in which the program puts its timing
  parameters into a \<open>ConfigDTO\<close>. The two are translated with Go's case order, its treatment of
  overflow and the floating-point step that scales a fraction. \<open>ParseDuration_String\<close> is the round trip.
\<close>

section \<open>Printing\<close>

definition microsecond :: nat where "microsecond = 1000"
definition millisecond :: nat where "millisecond = 1000000"
definition second :: nat where "second = 1000000000"
definition minute :: nat where "minute = 60 * 1000000000"
definition hour :: nat where "hour = 3600 * 1000000000"

named_theorems unit_defs \<open>the lengths of the time units in nanoseconds\<close>

lemmas time_units [unit_defs] =
  microsecond_def millisecond_def second_def minute_def hour_def

text \<open>
  \<open>fmtFrac\<close> writes the fraction of \<open>v / 10^prec\<close> in front of the text already written, without
  trailing zeros, and returns the integer part.
\<close>

fun fmtFrac :: "nat \<Rightarrow> nat \<Rightarrow> bool \<Rightarrow> string \<Rightarrow> nat \<times> string" where
  "fmtFrac 0 v started buf = (v, if started then CHR ''.'' # buf else buf)"
| "fmtFrac (Suc i) v started buf =
     (let digit = v mod 10; started' = (started \<or> digit \<noteq> 0)
      in fmtFrac i (v div 10) started' (if started' then digit_char digit # buf else buf))"

definition micro_unit :: string where "micro_unit = [CHR 0xC2, CHR 0xB5, CHR ''s'']"

definition format_clock :: "nat \<Rightarrow> string \<Rightarrow> string" where
  "format_clock u buf =
     (let b1 = dec (u mod 60) @ buf; m = u div 60
      in if m = 0 then b1
         else (let b2 = dec (m mod 60) @ CHR ''m'' # b1; h = m div 60
               in if h = 0 then b2 else dec h @ CHR ''h'' # b2))"

definition format_duration :: "nat \<Rightarrow> string" where
  "format_duration u =
     (if u < second then
        (if u = 0 then ''0s''
         else if u < microsecond then (let (v, b) = fmtFrac 0 u False ''ns'' in dec v @ b)
         else if u < millisecond then (let (v, b) = fmtFrac 3 u False micro_unit in dec v @ b)
         else (let (v, b) = fmtFrac 6 u False ''ms'' in dec v @ b))
      else (let (v, b) = fmtFrac 9 u False ''s'' in format_clock v b))"

definition Duration_String :: "Duration \<Rightarrow> string" where
  "Duration_String d =
     (if d < 0 then CHR ''-'' # format_duration (nat (- d)) else format_duration (nat d))"

section \<open>Parsing\<close>

fun leadingInt :: "nat \<Rightarrow> string \<Rightarrow> (nat \<times> string) option" where
  "leadingInt x [] = Some (x, [])"
| "leadingInt x (c # s) =
     (if \<not> is_digit c then Some (x, c # s)
      else if 2 ^ 63 div 10 < x then None
      else (let y = x * 10 + digit_val c in if 2 ^ 63 < y then None else leadingInt y s))"

fun leadingFraction :: "bool \<Rightarrow> nat \<Rightarrow> rat \<Rightarrow> string \<Rightarrow> nat \<times> rat \<times> string" where
  "leadingFraction overflow x scale [] = (x, scale, [])"
| "leadingFraction overflow x scale (c # s) =
     (if \<not> is_digit c then (x, scale, c # s)
      else if overflow then leadingFraction True x scale s
      else if (2 ^ 63 - 1) div 10 < x then leadingFraction True x scale s
      else (let y = x * 10 + digit_val c
            in if 2 ^ 63 < y then leadingFraction True x scale s
               else leadingFraction False y (f64_round (scale * 10)) s))"

definition unitMap :: "string \<Rightarrow> nat option" where
  "unitMap u =
     (if u = ''ns'' then Some 1
      else if u = ''us'' \<or> u = micro_unit \<or> u = [CHR 0xCE, CHR 0xBC, CHR ''s''] then Some microsecond
      else if u = ''ms'' then Some millisecond
      else if u = ''s'' then Some second
      else if u = ''m'' then Some minute
      else if u = ''h'' then Some hour
      else None)"

definition unit_char :: "char \<Rightarrow> bool" where
  "unit_char c \<longleftrightarrow> c \<noteq> CHR ''.'' \<and> \<not> is_digit c"

text \<open>The conversion \<open>uint64(float64(f) * (float64(unit) / scale))\<close>.\<close>

definition frac_nanos :: "nat \<Rightarrow> nat \<Rightarrow> rat \<Rightarrow> nat" where
  "frac_nanos f u scale =
     nat \<lfloor>f64_round (f64_round (of_nat f) * f64_round (f64_round (of_nat u) / scale))\<rfloor>"

text \<open>One turn of the loop of \<open>ParseDuration\<close>: a number, its fraction and its unit.\<close>

definition parse_fraction :: "string \<Rightarrow> nat \<times> rat \<times> bool \<times> string" where
  "parse_fraction s =
     (case s of [] \<Rightarrow> (0, 1, False, s)
      | c # t \<Rightarrow>
          if c = CHR ''.''
          then (let (f, scale, r) = leadingFraction False 0 1 t in (f, scale, length t \<noteq> length r, r))
          else (0, 1, False, s))"

definition parse_component :: "string \<Rightarrow> (nat \<times> string) option" where
  "parse_component s =
     (if \<not> (hd s = CHR ''.'' \<or> is_digit (hd s)) then None
      else (case leadingInt 0 s of None \<Rightarrow> None
      | Some (v, s1) \<Rightarrow>
          (let (f, scale, post, s2) = parse_fraction s1
           in if \<not> (length s \<noteq> length s1) \<and> \<not> post then None
              else (let u = takeWhile unit_char s2; s3 = dropWhile unit_char s2
                    in if u = [] then None
                       else (case unitMap u of None \<Rightarrow> None
                       | Some un \<Rightarrow>
                           if 2 ^ 63 div un < v then None
                           else if f = 0 then Some (v * un, s3)
                           else (let v' = v * un + frac_nanos f un scale
                                 in if 2 ^ 63 < v' then None else Some (v', s3)))))))"

lemma leadingInt_length: "leadingInt x s = Some (v, r) \<Longrightarrow> length r \<le> length s"
  by (induction x s rule: leadingInt.induct) (auto simp: Let_def split: if_splits)

lemma leadingFraction_length: "leadingFraction b x sc s = (v, sc', r) \<Longrightarrow> length r \<le> length s"
  by (induction b x sc s rule: leadingFraction.induct)
     (auto simp: Let_def le_SucI split: if_splits)

lemma parse_fraction_length: "parse_fraction s = (f, sc, b, r) \<Longrightarrow> length r \<le> length s"
  by (auto simp: parse_fraction_def le_SucI dest: leadingFraction_length
      split: list.splits if_splits prod.splits)

lemma dropWhile_shorter: "takeWhile P s \<noteq> [] \<Longrightarrow> length (dropWhile P s) < length s"
  by (cases s) (auto simp: length_dropWhile_le less_Suc_eq_le split: if_splits)

lemma parse_component_shorter:
  assumes "parse_component s = Some (v, r)"
  shows "length r < length s"
proof -
  obtain w s1 where 1: "leadingInt 0 s = Some (w, s1)"
    using assms by (auto simp: parse_component_def split: if_splits option.splits)
  obtain f sc post s2 where 2: "parse_fraction s1 = (f, sc, post, s2)"
    by (metis prod.exhaust)
  have "takeWhile unit_char s2 \<noteq> []" and r: "r = dropWhile unit_char s2"
    using assms 1 2
    by (auto simp: parse_component_def Let_def split: if_splits option.splits)
  then have "length r < length s2"
    by (simp add: dropWhile_shorter)
  with leadingInt_length [OF 1] parse_fraction_length [OF 2] show ?thesis
    by simp
qed

function parse_components :: "nat \<Rightarrow> string \<Rightarrow> nat option" where
  "parse_components d s =
     (if s = [] then Some d
      else (case parse_component s of None \<Rightarrow> None
      | Some (v, r) \<Rightarrow>
          (let d' = (d + v) mod 2 ^ 64 in if 2 ^ 63 < d' then None else parse_components d' r)))"
  by pat_completeness auto
termination
  by (relation "measure (\<lambda>(d, s). length s)") (auto dest: parse_component_shorter)

declare parse_components.simps [simp del]

definition ParseDuration :: "string \<Rightarrow> Duration option" where
  "ParseDuration s =
     (let neg = (s \<noteq> [] \<and> hd s = CHR ''-'');
          t = (if s \<noteq> [] \<and> (hd s = CHR ''-'' \<or> hd s = CHR ''+'') then tl s else s)
      in if t = ''0'' then Some 0
         else if t = [] then None
         else (case parse_components 0 t of None \<Rightarrow> None
               | Some d \<Rightarrow>
                   if neg then Some (wrap64 (- wrap64 (int d)))
                   else if 2 ^ 63 - 1 < d then None else Some (int d)))"

section \<open>The round trip\<close>

lemma val10_append: "val10 (a @ b) = val10 a * 10 ^ length b + val10 b"
proof (induction b rule: rev_induct)
  case Nil
  then show ?case by simp
next
  case (snoc c b)
  then show ?case
    using val10_snoc [of "a @ b" c] by (simp add: algebra_simps)
qed

lemma val10_Cons: "val10 (c # b) = digit_val c * 10 ^ length b + val10 b"
  using val10_append [of "[c]" b] val10_snoc [of "[]" c] by simp

lemma val10_bound: "all_digits s \<Longrightarrow> val10 s < 10 ^ length s"
proof (induction s)
  case Nil
  then show ?case by simp
next
  case (Cons c s)
  then have "digit_val c \<le> 9" and "val10 s < 10 ^ length s"
    using digit_val_less [of c] by auto
  moreover have "digit_val c * 10 ^ length s \<le> 9 * 10 ^ length s"
    using \<open>digit_val c \<le> 9\<close> by (rule mult_le_mono1)
  moreover have "10 ^ length (c # s) = 10 * (10 :: nat) ^ length s" by simp
  ultimately show ?case
    unfolding val10_Cons by linarith
qed

text \<open>What \<open>fmtFrac\<close> writes: nothing for a whole number, else a dot and the digits of the remainder.\<close>

definition frac_text :: "nat \<Rightarrow> nat \<Rightarrow> string \<Rightarrow> bool" where
  "frac_text i r ds \<longleftrightarrow> all_digits ds \<and> length ds \<le> i \<and> ds \<noteq> [] \<and> val10 ds * 10 ^ (i - length ds) = r"

lemma fmtFrac_started:
  "\<exists>es. fmtFrac i v True buf = (v div 10 ^ i, CHR ''.'' # es @ buf) \<and>
        all_digits es \<and> length es = i \<and> val10 es = v mod 10 ^ i"
proof (induction i arbitrary: v buf)
  case 0
  then show ?case by simp
next
  case (Suc i)
  obtain es where es: "fmtFrac i (v div 10) True (digit_char (v mod 10) # buf) =
      (v div 10 div 10 ^ i, CHR ''.'' # es @ digit_char (v mod 10) # buf)"
    "all_digits es" "length es = i" "val10 es = v div 10 mod 10 ^ i"
    using Suc by blast
  have "val10 (es @ [digit_char (v mod 10)]) = v mod 10 ^ Suc i"
    using es(4) by (simp add: mod_mult2_eq)
  with es show ?case
    by (intro exI [of _ "es @ [digit_char (v mod 10)]"]) (simp add: Let_def div_mult2_eq)
qed

lemma fmtFrac_fresh:
  "\<exists>t. fmtFrac i v False buf = (v div 10 ^ i, t @ buf) \<and>
       (if v mod 10 ^ i = 0 then t = []
        else (\<exists>ds. t = CHR ''.'' # ds \<and> frac_text i (v mod 10 ^ i) ds))"
proof (induction i arbitrary: v)
  case 0
  then show ?case by simp
next
  case (Suc i)
  have m: "v mod 10 ^ Suc i = 10 * (v div 10 mod 10 ^ i) + v mod 10"
    by (simp add: mod_mult2_eq)
  show ?case
  proof (cases "v mod 10 = 0")
    case True
    obtain t where t: "fmtFrac i (v div 10) False buf = (v div 10 div 10 ^ i, t @ buf)"
      "if v div 10 mod 10 ^ i = 0 then t = []
       else (\<exists>ds. t = CHR ''.'' # ds \<and> frac_text i (v div 10 mod 10 ^ i) ds)"
      using Suc by blast
    have "frac_text (Suc i) (v mod 10 ^ Suc i) ds" if "frac_text i (v div 10 mod 10 ^ i) ds" for ds
      using that True m by (auto simp: frac_text_def Suc_diff_le)
    with t True m show ?thesis
      by (intro exI [of _ t]) (auto simp: Let_def div_mult2_eq split: if_splits)
  next
    case False
    obtain es where es: "fmtFrac i (v div 10) True (digit_char (v mod 10) # buf) =
        (v div 10 div 10 ^ i, CHR ''.'' # es @ digit_char (v mod 10) # buf)"
      "all_digits es" "length es = i" "val10 es = v div 10 mod 10 ^ i"
      using fmtFrac_started by blast
    have "frac_text (Suc i) (v mod 10 ^ Suc i) (es @ [digit_char (v mod 10)])"
      using es m by (simp add: frac_text_def)
    with False es m show ?thesis
      by (intro exI [of _ "CHR ''.'' # es @ [digit_char (v mod 10)]"])
         (auto simp: Let_def div_mult2_eq)
  qed
qed

lemma leadingInt_digits:
  assumes "all_digits ds" and "r = [] \<or> \<not> is_digit (hd r)"
    and "x * 10 ^ length ds + val10 ds \<le> 2 ^ 63"
  shows "leadingInt x (ds @ r) = Some (x * 10 ^ length ds + val10 ds, r)"
  using assms
proof (induction ds arbitrary: x)
  case Nil
  then show ?case by (cases r) auto
next
  case (Cons c ds)
  let ?y = "x * 10 + digit_val c"
  have e: "x * 10 ^ length (c # ds) + val10 (c # ds) = ?y * 10 ^ length ds + val10 ds"
    by (simp add: val10_Cons algebra_simps)
  have "?y \<le> ?y * 10 ^ length ds" by simp
  then have "?y \<le> x * 10 ^ length (c # ds) + val10 (c # ds)"
    unfolding e by (rule trans_le_add1)
  then have "?y \<le> 2 ^ 63"
    using Cons.prems(3) by (rule order_trans)
  with Cons e show ?case by (simp add: Let_def)
qed

lemma leadingFraction_digits:
  assumes "all_digits ds" and "r = [] \<or> \<not> is_digit (hd r)"
    and "k + length ds \<le> 15" and "x < 10 ^ k"
  shows "leadingFraction False x (10 ^ k) (ds @ r) =
     (x * 10 ^ length ds + val10 ds, 10 ^ (k + length ds), r)"
  using assms
proof (induction ds arbitrary: x k)
  case Nil
  then show ?case by (cases r) auto
next
  case (Cons c ds)
  let ?y = "x * 10 + digit_val c"
  have "digit_val c < 10" using Cons.prems(1) by (simp add: digit_val_less)
  then have y: "?y < 10 ^ Suc k" using Cons.prems(4) by simp
  have k: "Suc k \<le> 15" using Cons.prems(3) by simp
  have "(10 :: nat) ^ Suc k \<le> 10 ^ 15"
    using k by (rule power_increasing) simp
  moreover have "(10 :: nat) ^ 15 \<le> 2 ^ 53" "(10 :: nat) ^ 15 \<le> (2 ^ 63 - 1) div 10"
    "(10 :: nat) ^ 15 \<le> 2 ^ 63"
    by simp_all
  ultimately have s: "(10 :: nat) ^ Suc k \<le> 2 ^ 53"
    and x: "\<not> (2 ^ 63 - 1) div 10 < x" and b: "\<not> 2 ^ 63 < ?y"
    using y by linarith+
  have "f64_round (10 ^ k * 10) = 10 ^ Suc k"
    using f64_round_nat [OF s] by (simp add: mult.commute)
  moreover have "leadingFraction False ?y (10 ^ Suc k) (ds @ r) =
      (?y * 10 ^ length ds + val10 ds, 10 ^ (Suc k + length ds), r)"
    by (rule Cons.IH) (use Cons.prems y in auto)
  moreover have "?y * 10 ^ length ds + val10 ds = x * 10 ^ length (c # ds) + val10 (c # ds)"
    by (simp add: val10_Cons algebra_simps)
  ultimately show ?case
    using Cons.prems(1) x b by (simp only: append_Cons leadingFraction.simps all_digits_simps Let_def
        if_True if_False not_True_eq_False not_False_eq_True list.size add_Suc add_Suc_right add_0_right)
qed

lemma frac_nanos_exact:
  assumes "all_digits ds" and "length ds \<le> p" and "p \<le> 9"
  shows "frac_nanos (val10 ds) (10 ^ p) (10 ^ length ds) = val10 ds * 10 ^ (p - length ds)"
proof -
  let ?k = "length ds"
  have p: "(10 :: nat) ^ p = 10 ^ (p - ?k) * 10 ^ ?k"
    using assms(2) by (simp flip: power_add)
  have ub: "(10 :: nat) ^ p \<le> 10 ^ 9"
    using assms(3) by (rule power_increasing) simp
  have v: "val10 ds < 10 ^ ?k" using assms(1) by (rule val10_bound)
  have prod: "val10 ds * 10 ^ (p - ?k) < 10 ^ p"
    using v p by simp
  have "(10 :: nat) ^ (p - ?k) \<le> 10 ^ p"
    by (rule power_increasing) simp_all
  moreover have "(10 :: nat) ^ ?k \<le> 10 ^ p"
    using assms(2) by (rule power_increasing) simp
  moreover have "(10 :: nat) ^ 9 \<le> 2 ^ 53" by simp
  ultimately have small: "val10 ds \<le> 2 ^ 53" "(10 :: nat) ^ (p - ?k) \<le> 2 ^ 53"
    "val10 ds * 10 ^ (p - ?k) \<le> 2 ^ 53" "(10 :: nat) ^ p \<le> 2 ^ 53"
    using v ub prod by linarith+
  have q: "(of_nat (10 ^ p) :: rat) / 10 ^ ?k = of_nat (10 ^ (p - ?k))"
    by (simp only: p of_nat_mult of_nat_power of_nat_numeral) simp
  have "f64_round (of_nat (val10 ds)) * f64_round (f64_round (of_nat (10 ^ p)) / 10 ^ ?k)
      = (of_nat (val10 ds * 10 ^ (p - ?k)) :: rat)"
    by (simp only: f64_round_nat [OF small(1)] f64_round_nat [OF small(4)] q
        f64_round_nat [OF small(2)] of_nat_mult)
  then show ?thesis
    by (simp only: frac_nanos_def f64_round_nat [OF small(3)] floor_of_nat nat_int)
qed

text \<open>
  One component of the text: the digits of \<open>v\<close>, perhaps a fraction, then a unit. \<open>frac_part p r t\<close>
  says that \<open>t\<close> is the fraction text of \<open>r / 10 ^ p\<close>.
\<close>

definition frac_part :: "nat \<Rightarrow> nat \<Rightarrow> string \<Rightarrow> bool" where
  "frac_part p r t \<longleftrightarrow>
     (if r = 0 then t = [] else (\<exists>ds. t = CHR ''.'' # ds \<and> frac_text p r ds))"

definition unit_text :: "string \<Rightarrow> bool" where
  "unit_text u \<longleftrightarrow> u \<noteq> [] \<and> list_all unit_char u"

lemma unit_text_hd: "unit_text u \<Longrightarrow> \<not> is_digit (hd (u @ r)) \<and> hd (u @ r) \<noteq> CHR ''.''"
  by (cases u) (auto simp: unit_text_def unit_char_def)

lemma takeWhile_unit:
  assumes "unit_text u" and "r = [] \<or> is_digit (hd r)"
  shows "takeWhile unit_char (u @ r) = u" and "dropWhile unit_char (u @ r) = r"
proof -
  have "\<forall>c \<in> set u. unit_char c"
    using assms(1) by (simp add: unit_text_def list_all_iff)
  moreover have "takeWhile unit_char r = []" and "dropWhile unit_char r = r"
    using assms(2) by (cases r; simp add: unit_char_def)+
  ultimately show "takeWhile unit_char (u @ r) = u" and "dropWhile unit_char (u @ r) = r"
    by (simp_all add: takeWhile_append dropWhile_append)
qed

lemma parse_fraction_part:
  assumes "frac_part p rm t" and "p \<le> 9" and "\<not> is_digit (hd r) \<and> hd r \<noteq> CHR ''.''" and "r \<noteq> []"
  shows "\<exists>f sc post. parse_fraction (t @ r) = (f, sc, post, r) \<and> (f = 0 \<longrightarrow> rm = 0) \<and>
           (f \<noteq> 0 \<longrightarrow> frac_nanos f (10 ^ p) sc = rm)"
proof (cases "rm = 0")
  case True
  with assms show ?thesis
    by (cases r) (auto simp: frac_part_def parse_fraction_def)
next
  case False
  with assms(1) obtain ds where t: "t = CHR ''.'' # ds" and ds: "frac_text p rm ds"
    by (auto simp: frac_part_def)
  then have d: "all_digits ds" "length ds \<le> p" and v: "val10 ds * 10 ^ (p - length ds) = rm"
    by (auto simp: frac_text_def)
  have "leadingFraction False 0 (10 ^ 0) (ds @ r) = (0 * 10 ^ length ds + val10 ds, 10 ^ (0 + length ds), r)"
    by (rule leadingFraction_digits) (use d assms in auto)
  then have "parse_fraction (t @ r) = (val10 ds, 10 ^ length ds, length (ds @ r) \<noteq> length r, r)"
    by (simp add: parse_fraction_def t)
  moreover have "frac_nanos (val10 ds) (10 ^ p) (10 ^ length ds) = rm"
    using frac_nanos_exact [OF d assms(2)] v by simp
  moreover have "val10 ds \<noteq> 0" using v False by auto
  ultimately show ?thesis by auto
qed

lemma parse_component_text:
  assumes "frac_part p rm t" and "p \<le> 9" and "unit_text u" and "unitMap u = Some un"
    and "rm = 0 \<or> un = 10 ^ p" and "v \<le> 2 ^ 63 div un" and "v * un + rm \<le> 2 ^ 63" and "v \<le> 2 ^ 63"
    and "r = [] \<or> is_digit (hd r)"
  shows "parse_component (dec v @ t @ u @ r) = Some (v * un + rm, r)"
proof -
  have u: "\<not> is_digit (hd (u @ r)) \<and> hd (u @ r) \<noteq> CHR ''.''"
    using assms(3) by (rule unit_text_hd)
  have ne: "u @ r \<noteq> []"
    using assms(3) by (simp add: unit_text_def)
  have "\<not> is_digit (hd (t @ u @ r))"
    using assms(1) u by (auto simp: frac_part_def is_digit_def split: if_splits)
  then have "leadingInt 0 (dec v @ t @ u @ r) = Some (0 * 10 ^ length (dec v) + val10 (dec v), t @ u @ r)"
    by (intro leadingInt_digits) (use assms(8) in auto)
  then have 1: "leadingInt 0 (dec v @ t @ u @ r) = Some (v, t @ u @ r)" by simp
  obtain f sc post where 2: "parse_fraction (t @ u @ r) = (f, sc, post, u @ r)"
    and f0: "f = 0 \<longrightarrow> rm = 0" and fn: "f \<noteq> 0 \<longrightarrow> frac_nanos f (10 ^ p) sc = rm"
    using parse_fraction_part [OF assms(1,2) u ne] by blast
  have fun0: "f \<noteq> 0 \<Longrightarrow> rm = 0 \<Longrightarrow> False"
    using assms(1) 2 u ne by (cases "u @ r") (auto simp: frac_part_def parse_fraction_def)
  have hd: "is_digit (hd (dec v @ t @ u @ r))" by simp
  show ?thesis
    using 1 2 f0 fn fun0 hd assms takeWhile_unit [OF assms(3,9)]
    by (auto simp: parse_component_def Let_def unit_text_def)
qed

lemma unit_texts [simp]:
  "unit_text ''ns''" "unit_text micro_unit" "unit_text ''ms''" "unit_text ''s''"
  "unit_text ''m''" "unit_text ''h''"
  by code_simp+

lemma unitMap_values [simp]:
  "unitMap ''ns'' = Some 1" "unitMap micro_unit = Some microsecond"
  "unitMap ''ms'' = Some millisecond" "unitMap ''s'' = Some second"
  "unitMap ''m'' = Some minute" "unitMap ''h'' = Some hour"
  by (simp_all add: unitMap_def micro_unit_def)

lemma fmtFrac_part:
  "\<exists>t. fmtFrac p v False buf = (v div 10 ^ p, t @ buf) \<and> frac_part p (v mod 10 ^ p) t"
  using fmtFrac_fresh [of p v buf] by (auto simp: frac_part_def split: if_splits)

lemma parse_components_last:
  assumes "parse_component s = Some (v, [])" and "s \<noteq> []" and "d + v \<le> 2 ^ 63"
  shows "parse_components d s = Some (d + v)"
proof -
  have "(d + v) mod 2 ^ 64 = d + v" using assms(3) by simp
  with assms show ?thesis
    by (simp add: parse_components.simps [of d s] parse_components.simps [of _ "[]"])
qed

lemma parse_components_more:
  assumes "parse_component s = Some (v, r)" and "s \<noteq> []" and "d + v \<le> 2 ^ 63"
  shows "parse_components d s = parse_components (d + v) r"
proof -
  have "(d + v) mod 2 ^ 64 = d + v" using assms(3) by simp
  with assms show ?thesis by (simp add: parse_components.simps [of d s])
qed

lemma parse_component_whole:
  assumes "unit_text u" and "unitMap u = Some un" and "v \<le> 2 ^ 63 div un"
    and "v * un \<le> 2 ^ 63" and "v \<le> 2 ^ 63" and "r = [] \<or> is_digit (hd r)"
  shows "parse_component (dec v @ u @ r) = Some (v * un, r)"
  using parse_component_text [of 0 0 "[]" u un v r] assms by (simp add: frac_part_def)

lemma format_duration_short:
  assumes "fmtFrac p u False unit = (v, b)" and "unit_text unit" and "unitMap unit = Some (10 ^ p)"
    and "p \<le> 9" and "u \<le> 2 ^ 63"
  shows "parse_components 0 (dec v @ b) = Some u"
proof -
  obtain t where b: "v = u div 10 ^ p" "b = t @ unit" and t: "frac_part p (u mod 10 ^ p) t"
    using fmtFrac_part [of p u unit] assms(1) by auto
  have v: "v \<le> 2 ^ 63 div 10 ^ p"
    unfolding b by (rule div_le_mono [OF assms(5)])
  have uu: "v * 10 ^ p + u mod 10 ^ p = u"
    unfolding b by (rule div_mult_mod_eq)
  have "v \<le> u" using b by simp
  then have "parse_component (dec v @ t @ unit @ []) = Some (v * 10 ^ p + u mod 10 ^ p, [])"
    by (intro parse_component_text [OF t assms(4,2,3)]) (use v uu assms(5) in auto)
  with uu have "parse_component (dec v @ b) = Some (u, [])" by (simp add: b)
  then show ?thesis
    using assms(5) parse_components_last [of "dec v @ b" u 0] by simp
qed

lemma format_clock_parse:
  assumes t: "frac_part 9 f t" and f: "f < second" and le: "w * second + f \<le> 2 ^ 63"
  shows "parse_components 0 (format_clock w (t @ ''s'')) = Some (w * second + f)"
proof -
  define x m h where "x = w mod 60" and "m = w div 60 mod 60" and "h = w div 60 div 60"
  have w: "w = h * 3600 + m * 60 + x" 
    using div_mult_mod_eq [of w 60] div_mult_mod_eq [of "w div 60" 60]
    unfolding x_def m_def h_def by linarith
  have lt: "x < 60" "m < 60" by (simp_all add: x_def m_def)
  have total: "h * hour + (m * minute + (x * second + f)) = w * second + f"
    by (simp add: w unit_defs algebra_simps)
  have bs: "h * hour \<le> 2 ^ 63" "m * minute \<le> 2 ^ 63" "x * second + f \<le> 2 ^ 63"
    using total le by linarith+
  have s: "parse_component (dec x @ t @ ''s'' @ []) = Some (x * second + f, [])"
    by (rule parse_component_text [OF t]) (use lt bs in \<open>auto simp: unit_defs\<close>)
  have mm: "parse_component (dec m @ ''m'' @ r) = Some (m * minute, r)" if "is_digit (hd r)" for r
    by (rule parse_component_whole) (use that lt bs in \<open>auto simp: unit_defs\<close>)
  have hh: "parse_component (dec h @ ''h'' @ r) = Some (h * hour, r)" if "is_digit (hd r)" for r
  proof (rule parse_component_whole)
    show "h \<le> 2 ^ 63 div hour"
      using bs(1) by (simp add: less_eq_div_iff_mult_less_eq unit_defs)
    then show "h \<le> 2 ^ 63" by (simp add: unit_defs)
  qed (use that bs in auto)
  have last: "parse_components d (dec x @ t @ ''s'') = Some (d + (x * second + f))"
    if "d + (x * second + f) \<le> 2 ^ 63" for d
    using parse_components_last [OF s [simplified]] that by simp
  have mid: "parse_components d (dec m @ CHR ''m'' # dec x @ t @ ''s'') =
      Some (d + (m * minute + (x * second + f)))"
    if "d + (m * minute + (x * second + f)) \<le> 2 ^ 63" for d
    using parse_components_more [OF mm, of "dec x @ t @ ''s''" d] last [of "d + m * minute"] that
    by (simp add: add.assoc)
  have whole: "parse_components 0 (dec h @ CHR ''h'' # dec m @ CHR ''m'' # dec x @ t @ ''s'') =
      Some (h * hour + (m * minute + (x * second + f)))"
    using parse_components_more [OF hh, of "dec m @ CHR ''m'' # dec x @ t @ ''s''" 0]
      mid [of "h * hour"] total le bs by simp
  consider "w div 60 = 0" | "w div 60 \<noteq> 0" "h = 0" | "w div 60 \<noteq> 0" "h \<noteq> 0" by blast
  then show ?thesis
  proof cases
    case 1
    then have "m = 0" "h = 0" by (simp_all add: m_def h_def)
    with 1 last [of 0] bs total show ?thesis
      by (simp add: format_clock_def x_def)
  next
    case 2
    with mid [of 0] total le show ?thesis
      by (simp add: format_clock_def Let_def x_def m_def h_def)
  next
    case 3
    with whole total show ?thesis
      by (simp add: format_clock_def Let_def x_def m_def h_def)
  qed
qed

lemma parse_format_duration:
  assumes "u \<le> 2 ^ 63"
  shows "parse_components 0 (format_duration u) = Some u"
proof -
  consider "u = 0" | "u \<noteq> 0" "u < microsecond" | "\<not> u < microsecond" "u < millisecond"
    | "\<not> u < millisecond" "u < second" | "\<not> u < second"
    by linarith
  then show ?thesis
  proof cases
    case 1
    have "parse_component (dec 0 @ ''s'' @ []) = Some (0 * second, [])"
      by (rule parse_component_whole) simp_all
    then show ?thesis
      using 1 parse_components_last [of "''0s''" 0 0] by (simp add: format_duration_def unit_defs)
  next
    case 2
    then have "format_duration u = (let (v, b) = fmtFrac 0 u False ''ns'' in dec v @ b)"
      by (simp add: format_duration_def unit_defs)
    then show ?thesis
      using format_duration_short [of 0 u "''ns''"] assms by (simp split: prod.splits)
  next
    case 3
    then have "format_duration u = (let (v, b) = fmtFrac 3 u False micro_unit in dec v @ b)"
      by (simp add: format_duration_def unit_defs)
    then show ?thesis
      using format_duration_short [of 3 u micro_unit] assms
      by (simp add: microsecond_def split: prod.splits)
  next
    case 4
    then have "format_duration u = (let (v, b) = fmtFrac 6 u False ''ms'' in dec v @ b)"
      by (simp add: format_duration_def unit_defs)
    then show ?thesis
      using format_duration_short [of 6 u "''ms''"] assms
      by (simp add: millisecond_def split: prod.splits)
  next
    case 5
    obtain t where t: "fmtFrac 9 u False ''s'' = (u div 10 ^ 9, t @ ''s'')"
      "frac_part 9 (u mod 10 ^ 9) t"
      using fmtFrac_part by blast
    with 5 have "format_duration u = format_clock (u div 10 ^ 9) (t @ ''s'')"
      by (simp add: format_duration_def)
    then show ?thesis
      using format_clock_parse [OF t(2), of "u div 10 ^ 9"] assms by (simp add: second_def)
  qed
qed

lemma format_duration_hd: "is_digit (hd (format_duration u))"
proof -
  have hd_app: "is_digit (hd (dec v @ b))" for v b by simp
  have "is_digit (hd (format_clock v b))" for v b
    by (simp add: format_clock_def Let_def)
  then show ?thesis
    using hd_app by (auto simp: format_duration_def Let_def is_digit_def split: prod.split)
qed

lemma format_duration_long: "length (format_duration u) \<noteq> 1"
proof -
  have d: "0 < length (dec v)" for v by simp
  have f: "length buf \<le> length (snd (fmtFrac p v b buf))" for p v b buf
  proof (induction p arbitrary: v b buf)
    case (Suc p)
    show ?case
      using Suc [of "digit_char (v mod 10) # buf" "v div 10" True] Suc [of buf "v div 10" False]
      by (auto simp: Let_def)
  qed simp
  have c: "length b < length (format_clock v b)" for v b
    using d [of "v mod 60"] d [of "v div 60 mod 60"] by (simp add: format_clock_def Let_def)
  have s: "1 < length (dec v @ b)" if "fmtFrac p u False unit = (v, b)" "unit \<noteq> []" for p v b unit
    using f [of unit p u False] that by (cases unit; cases "dec v") auto
  have k: "1 < length (format_clock v b)" if "fmtFrac 9 u False ''s'' = (v, b)" for v b
    using f [of "''s''" 9 u False] c [of b v] that by simp
  show ?thesis
    using s [of 0 "''ns''"] s [of 3 micro_unit] s [of 6 "''ms''"] k
    by (auto simp: format_duration_def micro_unit_def simp del: fmtFrac.simps split: prod.splits)
qed

lemma format_duration_not_Nil [simp]: "format_duration u \<noteq> []"
proof -
  have "format_clock v b \<noteq> []" for v b
    by (simp add: format_clock_def Let_def)
  then show ?thesis
    by (simp add: format_duration_def Let_def del: fmtFrac.simps split: prod.split)
qed

theorem ParseDuration_String: "in64 d \<Longrightarrow> ParseDuration (Duration_String d) = Some d"
proof -
  assume d: "in64 d"
  have n0: "format_duration u \<noteq> ''0''" for u
    using format_duration_long [of u] by auto
  have sign: "hd (format_duration u) \<noteq> CHR ''-'' \<and> hd (format_duration u) \<noteq> CHR ''+''" for u
    using format_duration_hd [of u] by (auto simp: is_digit_def)
  show ?thesis
  proof (cases "d < 0")
    case True
    then have "nat (- d) \<le> 2 ^ 63" using d by (simp add: int64_defs)
    from parse_format_duration [OF this] True n0
    have "ParseDuration (Duration_String d) = Some (wrap64 (- wrap64 (- d)))"
      by (simp add: ParseDuration_def Duration_String_def)
    also have "wrap64 (- wrap64 (- d)) = d"
    proof (cases "d = min64")
      case True
      then show ?thesis by (simp add: wrap64_def min64_def)
    next
      case False
      then show ?thesis using d \<open>d < 0\<close> by (simp add: int64_defs)
    qed
    finally show ?thesis .
  next
    case False
    then have "nat d \<le> 2 ^ 63" and "\<not> 2 ^ 63 - 1 < nat d"
      using d by (simp_all add: int64_defs)
    then show ?thesis
      using parse_format_duration [of "nat d"] False n0 [of "nat d"] sign [of "nat d"]
      by (simp add: ParseDuration_def Duration_String_def)
  qed
qed

text \<open>The text of a duration is never empty, which \<open>ApplyDTO\<close> uses as its test for a missing field.\<close>

lemma Duration_String_not_Nil [simp]: "Duration_String d \<noteq> []"
  by (simp add: Duration_String_def)

end
