(* ===== verification/Configs.thy ===== *)
theory Configs
  imports Durations
begin

text \<open>
  Configuration, \<open>src/pkg/config/config.go\<close>: the node-local \<open>Config\<close>, the \<open>ConfigDTO\<close> that travels
  between nodes, the two validations, the loading from flags, and the versioned merge
  (\<open>ApplyDTO\<close>, \<open>ApplyRemote\<close>, \<open>BumpAndApplyLocal\<close>). Go's \<open>int\<close> is a 64-bit integer. Name resolution
  (\<open>net.ResolveUDPAddr\<close>, \<open>net.ResolveTCPAddr\<close>) asks the system, so whether an address resolves is a
  parameter.
\<close>

section \<open>Data\<close>

definition ModePingAck :: string where "ModePingAck = ''pingack''"
definition ModeGossip :: string where "ModeGossip = ''gossip''"

lemma modes_distinct [simp]:
  "ModePingAck \<noteq> ModeGossip" "ModeGossip \<noteq> ModePingAck" "ModePingAck \<noteq> []" "ModeGossip \<noteq> []"
  by (simp_all add: ModePingAck_def ModeGossip_def)

record Config =
  cVersion :: int
  cMode :: string
  cPingEvery :: Duration
  cPingFanout :: int
  cGossipPeriod :: Duration
  cGossipFanout :: int
  cTSuspect :: Duration
  cTFail :: Duration
  cTCleanup :: Duration
  cDropRateRecv :: f64
  cSelfAddr :: string
  cBindAddr :: string
  cIntroducerBindAddr :: string
  cIntroducer :: string
  cIsIntroducer :: bool
  cAdminHTTP :: string

record ConfigDTO =
  dVersion :: int
  dMode :: string
  dPingEvery :: string
  dPingFanout :: int
  dGossipPeriod :: string
  dGossipFanout :: int
  dTSuspect :: string
  dTFail :: string
  dTCleanup :: string
  dDropRateRecv :: f64

text \<open>The zero value \<open>ConfigDTO{}\<close>.\<close>

definition emptyDTO :: ConfigDTO where
  "emptyDTO = \<lparr>dVersion = 0, dMode = [], dPingEvery = [], dPingFanout = 0, dGossipPeriod = [],
     dGossipFanout = 0, dTSuspect = [], dTFail = [], dTCleanup = [], dDropRateRecv = Fin 0\<rparr>"

definition ms :: "int \<Rightarrow> Duration" where "ms n = n * 1000000"

definition Defaults :: "string \<Rightarrow> Config" where
  "Defaults hostname =
     \<lparr>cVersion = 1, cMode = ModePingAck, cPingEvery = ms 200, cPingFanout = 1,
      cGossipPeriod = ms 300, cGossipFanout = 3, cTSuspect = ms 0, cTFail = ms 2000,
      cTCleanup = ms 3000, cDropRateRecv = Fin 0,
      cSelfAddr = hostname @ '':5000'', cBindAddr = ''0.0.0.0:5000'',
      cIntroducerBindAddr = ''0.0.0.0:6000'', cIntroducer = [], cIsIntroducer = False,
      cAdminHTTP = '':8080''\<rparr>"

section \<open>Validation\<close>

datatype config_error =
    ModeMissing | InvalidMode
  | PingEveryMissing | InvalidPingEvery | PingEveryNotPositive
  | GossipPeriodMissing | InvalidGossipPeriod | GossipPeriodNotPositive
  | TSuspectMissing | InvalidTSuspect | TSuspectNegative
  | TFailMissing | InvalidTFail | TFailNotPositive
  | TCleanupMissing | InvalidTCleanup | TCleanupNotPositive
  | PingFanoutNotPositive | GossipFanoutNotPositive | DropRateOutOfRange

datatype addr_error = EmptyAddr | ResolveFailed | BadPort

datatype bootstrap_error =
    SelfAddrError addr_error
  | BindAddrError addr_error
  | IntroducerXor
  | IntroducerError addr_error
  | AdminError addr_error

definition drop_rate_bad :: "f64 \<Rightarrow> bool" where
  "drop_rate_bad r \<longleftrightarrow> f64_less r (Fin 0) \<or> f64_less (Fin 1) r"

definition ValidateClusterParams :: "Config \<Rightarrow> config_error option" where
  "ValidateClusterParams c =
     (if cMode c \<noteq> ModePingAck \<and> cMode c \<noteq> ModeGossip then Some InvalidMode
      else if cPingEvery c \<le> 0 then Some PingEveryNotPositive
      else if cPingFanout c \<le> 0 then Some PingFanoutNotPositive
      else if cGossipPeriod c \<le> 0 then Some GossipPeriodNotPositive
      else if cGossipFanout c \<le> 0 then Some GossipFanoutNotPositive
      else if cTSuspect c < 0 then Some TSuspectNegative
      else if cTFail c \<le> 0 then Some TFailNotPositive
      else if cTCleanup c \<le> 0 then Some TCleanupNotPositive
      else if drop_rate_bad (cDropRateRecv c) then Some DropRateOutOfRange
      else None)"

definition validateUDPAddr :: "(string \<Rightarrow> bool) \<Rightarrow> string \<Rightarrow> addr_error option" where
  "validateUDPAddr resolvesUDP addr =
     (if addr = [] then Some EmptyAddr
      else if \<not> resolvesUDP addr then Some ResolveFailed
      else None)"

text \<open>\<open>strconv.Atoi\<close>: an optional sign and digits, in the range of an \<open>int\<close>.\<close>

definition Atoi :: "string \<Rightarrow> int option" where
  "Atoi s =
     (let neg = (s \<noteq> [] \<and> hd s = CHR ''-'');
          t = (if s \<noteq> [] \<and> (hd s = CHR ''-'' \<or> hd s = CHR ''+'') then tl s else s);
          v = (if neg then - int (val10 t) else int (val10 t))
      in if t \<noteq> [] \<and> all_digits t \<and> in64 v then Some v else None)"

definition validateAdminAddr :: "(string \<Rightarrow> bool) \<Rightarrow> string \<Rightarrow> addr_error option" where
  "validateAdminAddr resolvesTCP addr =
     (case addr of
        [] \<Rightarrow> Some EmptyAddr
      | c # p \<Rightarrow>
          if c = CHR '':''
          then (if Atoi p = None \<or> p = [] then Some BadPort else None)
          else (if resolvesTCP addr then None else Some ResolveFailed))"

definition ValidateLocalBootstrap ::
  "(string \<Rightarrow> bool) \<Rightarrow> (string \<Rightarrow> bool) \<Rightarrow> Config \<Rightarrow> bootstrap_error option" where
  "ValidateLocalBootstrap resolvesUDP resolvesTCP c =
     (case validateUDPAddr resolvesUDP (cSelfAddr c) of
        Some e \<Rightarrow> Some (SelfAddrError e)
      | None \<Rightarrow>
     (case validateUDPAddr resolvesUDP (cBindAddr c) of
        Some e \<Rightarrow> Some (BindAddrError e)
      | None \<Rightarrow>
     (if (cIntroducer c = [] \<and> \<not> cIsIntroducer c) \<or> (cIntroducer c \<noteq> [] \<and> cIsIntroducer c)
      then Some IntroducerXor
      else
     (case (if cIntroducer c \<noteq> [] then validateUDPAddr resolvesUDP (cIntroducer c) else None) of
        Some e \<Rightarrow> Some (IntroducerError e)
      | None \<Rightarrow>
     (case validateAdminAddr resolvesTCP (cAdminHTTP c) of
        Some e \<Rightarrow> Some (AdminError e)
      | None \<Rightarrow> None)))))"

section \<open>Loading from flags\<close>

text \<open>
  The flags given on the command line, after \<open>flag.Parse\<close> (which exits the process on a malformed
  value). A flag that is not given leaves the default.
\<close>

record Flags =
  fBind :: "string option"
  fSelf :: "string option"
  fIntroducer :: "string option"
  fIsIntroducer :: "bool option"
  fAdmin :: "string option"
  fMode :: "string option"
  fPingEvery :: "Duration option"
  fPingFanout :: "int option"
  fGossipPeriod :: "Duration option"
  fGossipFanout :: "int option"
  fTSuspect :: "Duration option"
  fTFail :: "Duration option"
  fTCleanup :: "Duration option"
  fDropRecv :: "f64 option"

definition given :: "'a option \<Rightarrow> 'a \<Rightarrow> 'a" where
  "given f d = (case f of None \<Rightarrow> d | Some v \<Rightarrow> v)"

datatype load_error =
    FlagMode
  | BootstrapFailed bootstrap_error
  | ClusterFailed config_error

definition LoadFromFlags ::
  "(string \<Rightarrow> bool) \<Rightarrow> (string \<Rightarrow> bool) \<Rightarrow> string \<Rightarrow> Flags \<Rightarrow> load_error + Config" where
  "LoadFromFlags resolvesUDP resolvesTCP hostname f =
     (let def = Defaults hostname;
          mode = given (fMode f) (cMode def);
          def1 = def\<lparr>
            cBindAddr := given (fBind f) (cBindAddr def),
            cSelfAddr := given (fSelf f) (cSelfAddr def),
            cIntroducer := given (fIntroducer f) (cIntroducer def),
            cIsIntroducer := given (fIsIntroducer f) (cIsIntroducer def),
            cAdminHTTP := given (fAdmin f) (cAdminHTTP def),
            cPingEvery := given (fPingEvery f) (cPingEvery def),
            cPingFanout := given (fPingFanout f) (cPingFanout def),
            cGossipPeriod := given (fGossipPeriod f) (cGossipPeriod def),
            cGossipFanout := given (fGossipFanout f) (cGossipFanout def),
            cTSuspect := given (fTSuspect f) (cTSuspect def),
            cTFail := given (fTFail f) (cTFail def),
            cTCleanup := given (fTCleanup f) (cTCleanup def),
            cDropRateRecv := given (fDropRecv f) (cDropRateRecv def)\<rparr>
      in if mode \<noteq> ModePingAck \<and> mode \<noteq> ModeGossip then Inl FlagMode
         else (let def2 = def1\<lparr>cMode := mode\<rparr>
               in case ValidateLocalBootstrap resolvesUDP resolvesTCP def2 of
                    Some e \<Rightarrow> Inl (BootstrapFailed e)
                  | None \<Rightarrow>
                      (case ValidateClusterParams def2 of
                         Some e \<Rightarrow> Inl (ClusterFailed e)
                       | None \<Rightarrow> Inr def2)))"

section \<open>The exchange of configurations\<close>

definition ToDTO :: "Config \<Rightarrow> ConfigDTO" where
  "ToDTO c =
     \<lparr>dVersion = cVersion c, dMode = cMode c,
      dPingEvery = Duration_String (cPingEvery c), dPingFanout = cPingFanout c,
      dGossipPeriod = Duration_String (cGossipPeriod c), dGossipFanout = cGossipFanout c,
      dTSuspect = Duration_String (cTSuspect c), dTFail = Duration_String (cTFail c),
      dTCleanup = Duration_String (cTCleanup c), dDropRateRecv = cDropRateRecv c\<rparr>"

text \<open>A required duration field: present, well formed and within its bound.\<close>

definition duration_field ::
  "config_error \<Rightarrow> config_error \<Rightarrow> (Duration \<Rightarrow> bool) \<Rightarrow> string \<Rightarrow> config_error + Duration" where
  "duration_field missing invalid ok s =
     (if s = [] then Inl missing
      else (case ParseDuration s of
              None \<Rightarrow> Inl invalid
            | Some d \<Rightarrow> if ok d then Inr d else Inl invalid))"

text \<open>
  \<open>ApplyDTO\<close> updates the configuration in place and returns \<open>(changed, err)\<close>: the model returns the
  configuration after the call and either the error or the flag.
\<close>

definition ApplyDTO :: "Config \<Rightarrow> ConfigDTO \<Rightarrow> Config \<times> (config_error + bool)" where
  "ApplyDTO c dto =
     (if dVersion dto \<le> cVersion c then (c, Inr False)
      else if dMode dto = [] then (c, Inl ModeMissing)
      else if dMode dto \<noteq> ModePingAck \<and> dMode dto \<noteq> ModeGossip then (c, Inl InvalidMode)
      else (case duration_field PingEveryMissing InvalidPingEvery (\<lambda>d. 0 < d) (dPingEvery dto) of
        Inl e \<Rightarrow> (c, Inl e)
      | Inr pe \<Rightarrow>
     (case duration_field GossipPeriodMissing InvalidGossipPeriod (\<lambda>d. 0 < d) (dGossipPeriod dto) of
        Inl e \<Rightarrow> (c, Inl e)
      | Inr gp \<Rightarrow>
     (case duration_field TSuspectMissing InvalidTSuspect (\<lambda>d. 0 \<le> d) (dTSuspect dto) of
        Inl e \<Rightarrow> (c, Inl e)
      | Inr ts \<Rightarrow>
     (case duration_field TFailMissing InvalidTFail (\<lambda>d. 0 < d) (dTFail dto) of
        Inl e \<Rightarrow> (c, Inl e)
      | Inr tf \<Rightarrow>
     (case duration_field TCleanupMissing InvalidTCleanup (\<lambda>d. 0 < d) (dTCleanup dto) of
        Inl e \<Rightarrow> (c, Inl e)
      | Inr tc \<Rightarrow>
      if dPingFanout dto \<le> 0 then (c, Inl PingFanoutNotPositive)
      else if dGossipFanout dto \<le> 0 then (c, Inl GossipFanoutNotPositive)
      else if drop_rate_bad (dDropRateRecv dto) then (c, Inl DropRateOutOfRange)
      else (let next = c\<lparr>cVersion := dVersion dto, cMode := dMode dto, cPingEvery := pe,
                  cGossipPeriod := gp, cTSuspect := ts, cTFail := tf, cTCleanup := tc,
                  cPingFanout := dPingFanout dto, cGossipFanout := dGossipFanout dto,
                  cDropRateRecv := dDropRateRecv dto\<rparr>
            in (case ValidateClusterParams next of
                  Some e \<Rightarrow> (c, Inl e)
                | None \<Rightarrow> (next, Inr True)))))))))"

definition ApplyRemote :: "Config \<Rightarrow> ConfigDTO \<Rightarrow> Config \<times> (config_error + bool)" where
  "ApplyRemote c dto = ApplyDTO c dto"

definition BumpAndApplyLocal :: "Config \<Rightarrow> ConfigDTO \<Rightarrow> Config \<times> (config_error + bool)" where
  "BumpAndApplyLocal c dto =
     ApplyDTO c (if dVersion dto \<le> cVersion c then dto\<lparr>dVersion := wrap64 (cVersion c + 1)\<rparr> else dto)"

section \<open>Lemmas\<close>

named_theorems config_frame \<open>what the operations on a configuration leave alone\<close>

lemma ParseDuration_in64: "ParseDuration s = Some d \<Longrightarrow> in64 d"
  by (auto simp: ParseDuration_def Let_def split: if_splits option.splits)
     (auto simp: int64_defs)

text \<open>
  The specification of \<open>ApplyDTO\<close>. \<open>knobs dto\<close> is what the DTO says about the cluster, if all its
  durations parse; \<open>adopt c k\<close> is \<open>c\<close> with the cluster part of \<open>k\<close>.
\<close>

definition knobs :: "ConfigDTO \<Rightarrow> Config option" where
  "knobs dto =
     (case (ParseDuration (dPingEvery dto), ParseDuration (dGossipPeriod dto),
            ParseDuration (dTSuspect dto), ParseDuration (dTFail dto), ParseDuration (dTCleanup dto)) of
        (Some pe, Some gp, Some ts, Some tf, Some tc) \<Rightarrow>
          Some \<lparr>cVersion = dVersion dto, cMode = dMode dto, cPingEvery = pe,
            cPingFanout = dPingFanout dto, cGossipPeriod = gp, cGossipFanout = dGossipFanout dto,
            cTSuspect = ts, cTFail = tf, cTCleanup = tc, cDropRateRecv = dDropRateRecv dto,
            cSelfAddr = [], cBindAddr = [], cIntroducerBindAddr = [], cIntroducer = [],
            cIsIntroducer = False, cAdminHTTP = []\<rparr>
      | _ \<Rightarrow> None)"

definition adopt :: "Config \<Rightarrow> Config \<Rightarrow> Config" where
  "adopt c k = k\<lparr>cSelfAddr := cSelfAddr c, cBindAddr := cBindAddr c,
     cIntroducerBindAddr := cIntroducerBindAddr c, cIntroducer := cIntroducer c,
     cIsIntroducer := cIsIntroducer c, cAdminHTTP := cAdminHTTP c\<rparr>"

definition complete_dto :: "ConfigDTO \<Rightarrow> bool" where
  "complete_dto dto \<longleftrightarrow> (\<exists>k. knobs dto = Some k \<and> ValidateClusterParams k = None)"

lemma ParseDuration_Nil [simp]: "ParseDuration [] = None"
  by (simp add: ParseDuration_def)

lemma duration_field_Inr:
  "duration_field m i ok s = Inr d \<longleftrightarrow> ParseDuration s = Some d \<and> ok d"
  by (auto simp: duration_field_def split: option.splits)

lemma ValidateClusterParams_None:
  "ValidateClusterParams c = None \<longleftrightarrow>
     (cMode c = ModePingAck \<or> cMode c = ModeGossip) \<and> 0 < cPingEvery c \<and> 0 < cPingFanout c \<and>
     0 < cGossipPeriod c \<and> 0 < cGossipFanout c \<and> 0 \<le> cTSuspect c \<and> 0 < cTFail c \<and>
     0 < cTCleanup c \<and> \<not> drop_rate_bad (cDropRateRecv c)"
  by (auto simp: ValidateClusterParams_def)

text \<open>The three ways out of \<open>ApplyDTO\<close>, as introduction rules for the cases of the specification.\<close>

lemma ApplyDTO_stale [simp]: "dVersion dto \<le> cVersion c \<Longrightarrow> ApplyDTO c dto = (c, Inr False)"
  by (simp add: ApplyDTO_def)

lemma ApplyDTO_complete:
  assumes "cVersion c < dVersion dto" and "knobs dto = Some k" and "ValidateClusterParams k = None"
  shows "ApplyDTO c dto = (adopt c k, Inr True)"
proof -
  obtain pe gp ts tf tc where p: "ParseDuration (dPingEvery dto) = Some pe"
    "ParseDuration (dGossipPeriod dto) = Some gp" "ParseDuration (dTSuspect dto) = Some ts"
    "ParseDuration (dTFail dto) = Some tf" "ParseDuration (dTCleanup dto) = Some tc"
    using assms(2) by (auto simp: knobs_def split: option.splits)
  have f: "duration_field m i ok s = Inr d" if "ParseDuration s = Some d" "ok d" for m i ok s d
    using that by (simp add: duration_field_Inr)
  have "adopt c k = c\<lparr>cVersion := dVersion dto, cMode := dMode dto, cPingEvery := pe,
      cGossipPeriod := gp, cTSuspect := ts, cTFail := tf, cTCleanup := tc,
      cPingFanout := dPingFanout dto, cGossipFanout := dGossipFanout dto,
      cDropRateRecv := dDropRateRecv dto\<rparr>" (is "_ = ?next")
    using assms(2) p by (cases c) (auto simp: knobs_def adopt_def)
  moreover have "ValidateClusterParams ?next = None" and v: "(dMode dto = ModePingAck \<or> dMode dto = ModeGossip)"
    "0 < pe" "0 < gp" "0 \<le> ts" "0 < tf" "0 < tc" "0 < dPingFanout dto" "0 < dGossipFanout dto"
    "\<not> drop_rate_bad (dDropRateRecv dto)"
    using assms(2,3) p by (auto simp: knobs_def ValidateClusterParams_None)
  moreover have "dMode dto \<noteq> []" using v(1) by auto
  ultimately show ?thesis
    using assms(1) by (auto simp: ApplyDTO_def f [OF p(1)] f [OF p(2)] f [OF p(3)] f [OF p(4)] f [OF p(5)])
qed

lemma ApplyDTO_incomplete:
  assumes "cVersion c < dVersion dto" and "\<not> complete_dto dto"
  shows "\<exists>e. ApplyDTO c dto = (c, Inl e)"
proof (rule ccontr)
  assume *: "\<nexists>e. ApplyDTO c dto = (c, Inl e)"
  then obtain pe gp ts tf tc where
    "ParseDuration (dPingEvery dto) = Some pe \<and> 0 < pe"
    "ParseDuration (dGossipPeriod dto) = Some gp \<and> 0 < gp"
    "ParseDuration (dTSuspect dto) = Some ts \<and> 0 \<le> ts"
    "ParseDuration (dTFail dto) = Some tf \<and> 0 < tf"
    "ParseDuration (dTCleanup dto) = Some tc \<and> 0 < tc"
    using assms(1)
    by (auto simp: ApplyDTO_def duration_field_Inr split: if_splits sum.splits)
  moreover have "(dMode dto = ModePingAck \<or> dMode dto = ModeGossip) \<and> 0 < dPingFanout dto \<and>
    0 < dGossipFanout dto \<and> \<not> drop_rate_bad (dDropRateRecv dto)"
    using * assms(1)
    by (auto simp: ApplyDTO_def split: if_splits sum.splits)
  ultimately have "complete_dto dto"
    by (auto simp: complete_dto_def knobs_def ValidateClusterParams_None)
  with assms(2) show False ..
qed

text \<open>
  A well-formed configuration: accepted by the validation, with every integer in its Go type.
\<close>

definition cfg_ints :: "Config \<Rightarrow> bool" where
  "cfg_ints c \<longleftrightarrow> list_all in64 [cVersion c, cPingEvery c, cPingFanout c, cGossipPeriod c,
     cGossipFanout c, cTSuspect c, cTFail c, cTCleanup c]"

definition dto_ints :: "ConfigDTO \<Rightarrow> bool" where
  "dto_ints d \<longleftrightarrow> list_all in64 [dVersion d, dPingFanout d, dGossipFanout d]"

definition cfg_ok :: "Config \<Rightarrow> bool" where
  "cfg_ok c \<longleftrightarrow> ValidateClusterParams c = None \<and> cfg_ints c"

lemma knobs_ToDTO:
  "cfg_ints c \<Longrightarrow> \<exists>k. knobs (ToDTO c) = Some k \<and> adopt p k = adopt p c \<and>
     ValidateClusterParams k = ValidateClusterParams c"
  by (auto simp: knobs_def ToDTO_def cfg_ints_def ParseDuration_String adopt_def
      ValidateClusterParams_def)

lemma ApplyDTO_ToDTO:
  assumes "cfg_ok c" and "cVersion p < cVersion c"
  shows "ApplyDTO p (ToDTO c) = (adopt p c, Inr True)"
proof -
  obtain k where k: "knobs (ToDTO c) = Some k" "adopt p k = adopt p c" "ValidateClusterParams k = None"
    using assms(1) knobs_ToDTO [of c p] by (auto simp: cfg_ok_def)
  moreover have "cVersion p < dVersion (ToDTO c)"
    using assms(2) by (simp add: ToDTO_def)
  ultimately show ?thesis
    using ApplyDTO_complete [of p "ToDTO c" k] by simp
qed

lemma cfg_ok_adopt [simp]: "cfg_ok (adopt p c) = cfg_ok c"
  by (simp add: cfg_ok_def adopt_def cfg_ints_def ValidateClusterParams_def)

lemma adopt_simps [simp]:
  "cVersion (adopt p c) = cVersion c" "cMode (adopt p c) = cMode c"
  "cTSuspect (adopt p c) = cTSuspect c" "adopt p (adopt q c) = adopt p c" "adopt c c = c"
  "adopt (adopt p c) k = adopt p k"
  by (simp_all add: adopt_def)

lemma ToDTO_simps [simp]: "dVersion (ToDTO c) = cVersion c" "dMode (ToDTO c) = cMode c"
  by (simp_all add: ToDTO_def)

lemma ToDTO_adopt [simp]: "ToDTO (adopt p c) = ToDTO c"
  by (simp add: ToDTO_def adopt_def)

lemma complete_dto_version [simp]: "complete_dto (d\<lparr>dVersion := v\<rparr>) = complete_dto d"
  by (auto simp: complete_dto_def knobs_def ValidateClusterParams_None split: option.splits)

text \<open>What every call of \<open>ApplyDTO\<close> does, in the form the daemon's invariants use.\<close>

lemma ApplyDTO_cases:
  obtains (stale) "dVersion dto \<le> cVersion c" "ApplyDTO c dto = (c, Inr False)"
    | (refused) e where "cVersion c < dVersion dto" "\<not> complete_dto dto" "ApplyDTO c dto = (c, Inl e)"
    | (applied) k where "cVersion c < dVersion dto" "knobs dto = Some k"
        "ValidateClusterParams k = None" "ApplyDTO c dto = (adopt c k, Inr True)"
proof (cases "dVersion dto \<le> cVersion c")
  case True
  then show ?thesis using stale by simp
next
  case False
  then show ?thesis
    using refused applied ApplyDTO_complete [of c dto] ApplyDTO_incomplete [of c dto]
    unfolding complete_dto_def by (metis not_le)
qed

lemma knobs_fields:
  assumes "knobs dto = Some k"
  shows "cVersion k = dVersion dto" and "cMode k = dMode dto" and "dto_ints dto \<Longrightarrow> cfg_ints k"
  using assms
  by (auto simp: knobs_def cfg_ints_def dto_ints_def intro: ParseDuration_in64 split: option.splits)

lemma ApplyDTO_cfg_ok:
  assumes "cfg_ok c" and "dto_ints dto"
  shows "cfg_ok (fst (ApplyDTO c dto))"
proof (rule ApplyDTO_cases [of dto c])
  fix k
  assume "knobs dto = Some k" "ValidateClusterParams k = None"
  then have "cfg_ok k" using assms(2) knobs_fields(3) by (simp add: cfg_ok_def)
  moreover assume "ApplyDTO c dto = (adopt c k, Inr True)"
  ultimately show ?thesis by simp
qed (use assms in auto)

lemma ApplyDTO_version:
  "cVersion c \<le> cVersion (fst (ApplyDTO c dto)) \<and>
   (snd (ApplyDTO c dto) = Inr True \<longleftrightarrow> cVersion c < cVersion (fst (ApplyDTO c dto))) \<and>
   (snd (ApplyDTO c dto) \<noteq> Inr True \<longrightarrow> fst (ApplyDTO c dto) = c)"
  by (rule ApplyDTO_cases [of dto c]) (use knobs_fields [of dto] in auto)

section \<open>Properties\<close>

text \<open>
  C12. \<open>ApplyDTO\<close> implements its specification: a DTO that is not strictly newer changes nothing and is
  no error; a newer one whose durations parse and whose values pass the central validation replaces
  the cluster part of the configuration and nothing of its bootstrap part; any other is refused with
  an error and changes nothing. In particular the field checks and the central validation agree.
\<close>

theorem ApplyDTO_specification:
  "if dVersion dto \<le> cVersion c then ApplyDTO c dto = (c, Inr False)
   else if complete_dto dto then ApplyDTO c dto = (adopt c (the (knobs dto)), Inr True)
   else (\<exists>e. ApplyDTO c dto = (c, Inl e))"
  by (rule ApplyDTO_cases [of dto c]) (auto simp: complete_dto_def)

text \<open>
  A valid configuration survives the trip to a peer: the DTO that \<open>ToDTO\<close> builds is accepted by
  every peer with an older version, which then has exactly the sender's cluster parameters (all
  durations to the nanosecond) and its own bootstrap settings.
\<close>

theorem config_exchange_roundtrip:
  assumes "cfg_ok c" and "cVersion p < cVersion c"
  shows "ApplyRemote p (ToDTO c) = (adopt p c, Inr True)"
  using assms by (simp add: ApplyRemote_def ApplyDTO_ToDTO)

lemma cfg_ok_Defaults [simp]: "cfg_ok (Defaults h)"
  by (simp add: cfg_ok_def Defaults_def ValidateClusterParams_def cfg_ints_def int64_defs ms_def
      drop_rate_bad_def)

theorem config_exchange_roundtrip_witness:
  "ApplyRemote (Defaults ''b'') (ToDTO ((Defaults ''a'')\<lparr>cVersion := 2, cMode := ModeGossip\<rparr>)) =
     (adopt (Defaults ''b'') ((Defaults ''a'')\<lparr>cVersion := 2, cMode := ModeGossip\<rparr>), Inr True)"
  by (rule config_exchange_roundtrip)
     (simp_all add: cfg_ok_def Defaults_def ValidateClusterParams_def cfg_ints_def int64_defs ms_def
       drop_rate_bad_def)

text \<open>
  C22. Two nodes that exchange configurations in both directions agree afterwards on the cluster
  parameters, namely those of the higher version, when their versions differ; when two different
  configurations carry the same version, each node keeps its own, so concurrent local changes are
  never reconciled.
\<close>

theorem config_exchange_converges:
  assumes "cfg_ok p" and "cfg_ok q"
  defines "q' \<equiv> fst (ApplyRemote q (ToDTO p))"
  defines "p' \<equiv> fst (ApplyRemote p (ToDTO q'))"
  shows "if cVersion p = cVersion q then p' = p \<and> q' = q
         else if cVersion p < cVersion q then p' = adopt p q \<and> q' = q
         else p' = p \<and> q' = adopt q p"
  using assms ApplyDTO_ToDTO [of p q] ApplyDTO_ToDTO [of q p]
  by (auto simp: ApplyRemote_def)

theorem config_exchange_converges_witness:
  "let q = (Defaults ''a'')\<lparr>cVersion := 2, cMode := ModeGossip\<rparr>; p = Defaults ''b''
   in fst (ApplyRemote p (ToDTO (fst (ApplyRemote q (ToDTO p))))) = adopt p q"
proof -
  let ?q = "(Defaults ''a'')\<lparr>cVersion := 2, cMode := ModeGossip\<rparr>" and ?p = "Defaults ''b''"
  have q: "cfg_ok ?q"
    by (simp add: cfg_ok_def Defaults_def ValidateClusterParams_def cfg_ints_def int64_defs ms_def
        drop_rate_bad_def)
  have "cVersion ?q = 2" and "cVersion ?p = 1" by (simp_all add: Defaults_def)
  then show ?thesis
    using config_exchange_converges [OF cfg_ok_Defaults q, of "''b''"] by auto
qed

text \<open>
  C30. A local change is always adopted with a version that no older configuration can override:
  \<open>BumpAndApplyLocal\<close> on a complete DTO yields the maximum of the DTO's version and the current version
  plus one. The exception is the largest \<open>int\<close>: there the bump wraps around, and every local change
  whatever its content is dropped without an error.
\<close>

theorem BumpAndApplyLocal_version:
  assumes "complete_dto dto" and "in64 (dVersion dto)" and "in64 (cVersion c)"
  shows "if cVersion c = max64 then BumpAndApplyLocal c dto = (c, Inr False)
         else snd (BumpAndApplyLocal c dto) = Inr True \<and>
              cVersion (fst (BumpAndApplyLocal c dto)) = max (dVersion dto) (cVersion c + 1)"
proof -
  define d where "d = (if dVersion dto \<le> cVersion c then dto\<lparr>dVersion := wrap64 (cVersion c + 1)\<rparr> else dto)"
  have b: "BumpAndApplyLocal c dto = ApplyDTO c d" by (simp add: BumpAndApplyLocal_def d_def)
  have "complete_dto d" using assms(1) by (simp add: d_def)
  then obtain k where k: "knobs d = Some k" "ValidateClusterParams k = None"
    by (auto simp: complete_dto_def)
  show ?thesis
  proof (cases "cVersion c = max64")
    case True
    then have "dVersion d \<le> cVersion c"
      using assms(2) by (auto simp: d_def wrap64_def int64_defs)
    with True show ?thesis by (simp add: b)
  next
    case False
    then have "dVersion dto \<le> cVersion c \<Longrightarrow> in64 (cVersion c + 1)"
      using assms(3) by (auto simp: int64_defs)
    then have v: "dVersion d = max (dVersion dto) (cVersion c + 1)" and "cVersion c < dVersion d"
      by (auto simp: d_def)
    then show ?thesis
      using False k ApplyDTO_complete [of c d k] knobs_fields(1) [of d k]
      by (auto simp: b)
  qed
qed

theorem BumpAndApplyLocal_version_witness:
  "snd (BumpAndApplyLocal (Defaults ''a'') (ToDTO (Defaults ''a''))) = Inr True \<and>
   cVersion (fst (BumpAndApplyLocal (Defaults ''a'') (ToDTO (Defaults ''a'')))) = 2"
proof -
  have c: "complete_dto (ToDTO (Defaults ''a''))"
    using knobs_ToDTO [of "Defaults ''a''" "Defaults ''a''"] cfg_ok_Defaults [of "''a''"]
    by (auto simp: complete_dto_def cfg_ok_def)
  have v: "cVersion (Defaults ''a'') = 1" by (simp add: Defaults_def)
  then have i: "in64 (cVersion (Defaults ''a''))" by (simp add: int64_defs)
  then have d: "in64 (dVersion (ToDTO (Defaults ''a'')))" by simp
  show ?thesis
    using BumpAndApplyLocal_version [OF c d i] v by (simp add: int64_defs)
qed

end
