(* ===== verification/Membership.thy ===== *)
theory Membership
  imports NodeId Configs
begin

text \<open>
  The membership store, \<open>src/pkg/store/membership.go\<close>. The Go map from endpoint text to entry pointer
  is a partial map from text to entry: the store never shares an entry (each insertion stores the
  address of a fresh copy, each query copies the entry out), so values are enough. Every operation is
  one atomic step, as under the store's mutex, and takes the readings of \<open>time.Now()\<close> it makes as
  arguments. The iteration order of a Go map is chosen by the runtime, so \<open>Snapshot\<close> takes the order
  as an argument and the properties hold for every order.
\<close>

section \<open>Data\<close>

type_synonym State = u8

definition StateUnknown :: State where "StateUnknown = 0"
definition StateAlive :: State where "StateAlive = 1"
definition StateSuspect :: State where "StateSuspect = 2"
definition StateFailed :: State where "StateFailed = 3"
definition StateLeft :: State where "StateLeft = 4"

named_theorems state_defs \<open>the numeric values of the states\<close>

lemmas state_values [state_defs] =
  StateUnknown_def StateAlive_def StateSuspect_def StateFailed_def StateLeft_def

lemma states_distinct [simp]:
  "StateAlive \<noteq> StateSuspect" "StateAlive \<noteq> StateFailed" "StateAlive \<noteq> StateLeft"
  "StateSuspect \<noteq> StateAlive" "StateSuspect \<noteq> StateFailed" "StateSuspect \<noteq> StateLeft"
  "StateFailed \<noteq> StateAlive" "StateFailed \<noteq> StateSuspect" "StateFailed \<noteq> StateLeft"
  "StateLeft \<noteq> StateAlive" "StateLeft \<noteq> StateSuspect" "StateLeft \<noteq> StateFailed"
  by (simp_all add: state_defs)

definition StateToString :: "State \<Rightarrow> string" where
  "StateToString s =
     (if s = StateAlive then ''Alive''
      else if s = StateSuspect then ''Suspect''
      else if s = StateFailed then ''Failed''
      else if s = StateLeft then ''Left''
      else ''Unknown'')"

record MemberEntry =
  ID :: NodeID
  Incarnation :: u64
  EState :: State
  LastUpdate :: gotime

record Store =
  entries :: "string \<Rightarrow> MemberEntry option"
  version :: u64
  selfID :: NodeID
  config :: Config

abbreviation key_of :: "NodeID \<Rightarrow> string" where
  "key_of n \<equiv> EndpointToString (EP n)"

definition NewStore :: "gotime \<Rightarrow> NodeID \<Rightarrow> Config \<Rightarrow> Store" where
  "NewStore now self cfg =
     \<lparr>entries = [key_of self \<mapsto>
        \<lparr>ID = self, Incarnation = 100, EState = StateAlive, LastUpdate = now\<rparr>],
      version = 1, selfID = self, config = cfg\<rparr>"

section \<open>Queries\<close>

text \<open>An order in which the runtime may iterate over a map.\<close>

definition iteration :: "'k list \<Rightarrow> ('k \<Rightarrow> 'v option) \<Rightarrow> bool" where
  "iteration ord m \<longleftrightarrow> distinct ord \<and> set ord = dom m"

fun snapshot_loop ::
  "gotime \<Rightarrow> NodeID \<Rightarrow> string list \<Rightarrow> (string \<Rightarrow> MemberEntry option) \<Rightarrow>
   MemberEntry list \<times> (string \<Rightarrow> MemberEntry option)" where
  "snapshot_loop now self [] m = ([], m)"
| "snapshot_loop now self (k # ks) m =
     (case m k of
        None \<Rightarrow> snapshot_loop now self ks m
      | Some entry \<Rightarrow>
          (let entry' = (if ID entry = self \<and> EState entry \<noteq> StateLeft
                         then entry\<lparr>LastUpdate := now\<rparr> else entry);
               (list, m') = snapshot_loop now self ks (m(k \<mapsto> entry'))
           in (entry' # list, m')))"

definition Snapshot :: "gotime \<Rightarrow> string list \<Rightarrow> Store \<Rightarrow> MemberEntry list \<times> NodeID \<times> Store" where
  "Snapshot now ord s =
     (let (list, m) = snapshot_loop now (selfID s) ord (entries s)
      in (list, selfID s, s\<lparr>entries := m\<rparr>))"

definition SelfID :: "Store \<Rightarrow> NodeID" where
  "SelfID s = selfID s"

definition Size :: "Store \<Rightarrow> nat" where
  "Size s = card (dom (entries s))"

definition Version :: "Store \<Rightarrow> u64" where
  "Version s = version s"

definition Get :: "Store \<Rightarrow> NodeID \<Rightarrow> MemberEntry option" where
  "Get s n = entries s (key_of n)"

section \<open>Updates\<close>

definition apply_entry :: "gotime \<Rightarrow> Store \<Rightarrow> NodeID \<Rightarrow> u64 \<Rightarrow> State \<Rightarrow> bool \<Rightarrow> Store" where
  "apply_entry now s n inc state updateVersion =
     (case entries s (key_of n) of
        None \<Rightarrow> s
      | Some entry \<Rightarrow>
          (let entry1 = (if state = StateAlive \<or> state = StateLeft
                         then entry\<lparr>LastUpdate := now\<rparr> else entry);
               entry2 = entry1\<lparr>EState := state, Incarnation := inc\<rparr>
           in s\<lparr>entries := (entries s)(key_of n \<mapsto> entry2),
                version := (if updateVersion then version s + 1 else version s)\<rparr>))"

definition ApplyLocked :: "gotime \<Rightarrow> Store \<Rightarrow> NodeID \<Rightarrow> u64 \<Rightarrow> State \<Rightarrow> Store" where
  "ApplyLocked now s n inc state = apply_entry now s n inc state True"

definition RemoveEntry :: "Store \<Rightarrow> NodeID \<Rightarrow> Store" where
  "RemoveEntry s n =
     (case entries s (key_of n) of
        None \<Rightarrow> s
      | Some _ \<Rightarrow> s\<lparr>entries := (entries s)(key_of n := None), version := version s + 1\<rparr>)"

definition normalizeBoot :: "gotime \<Rightarrow> Store \<Rightarrow> MemberEntry \<Rightarrow> Store" where
  "normalizeBoot now s e =
     s\<lparr>entries := (entries s)(key_of (ID e) \<mapsto> e\<lparr>LastUpdate := now\<rparr>), version := version s + 1\<rparr>"

definition selfBumpIncarnation :: "gotime \<Rightarrow> Store \<Rightarrow> Store" where
  "selfBumpIncarnation now s =
     (case entries s (key_of (selfID s)) of
        None \<Rightarrow> s
      | Some entry \<Rightarrow>
          s\<lparr>entries := (entries s)(key_of (selfID s) \<mapsto>
              entry\<lparr>Incarnation := Incarnation entry + 1, LastUpdate := now, EState := StateAlive\<rparr>),
            version := version s + 1\<rparr>)"

definition SetSelfState :: "gotime \<Rightarrow> Store \<Rightarrow> State \<Rightarrow> Store" where
  "SetSelfState now s st =
     (case entries s (key_of (selfID s)) of
        None \<Rightarrow> s
      | Some entry \<Rightarrow>
          s\<lparr>entries := (entries s)(key_of (selfID s) \<mapsto> entry\<lparr>EState := st, LastUpdate := now\<rparr>),
            version := version s + 1\<rparr>)"

text \<open>Storing the incoming entry in place of the existing one.\<close>

definition put_entry :: "Store \<Rightarrow> MemberEntry \<Rightarrow> Store" where
  "put_entry s e = s\<lparr>entries := (entries s)(key_of (ID e) \<mapsto> e), version := version s + 1\<rparr>"

definition updateMemberEntry :: "gotime \<Rightarrow> Store \<Rightarrow> MemberEntry \<Rightarrow> Store" where
  "updateMemberEntry now s incoming =
     (case entries s (key_of (ID incoming)) of
        Some existing \<Rightarrow>
          if TimeStamp (ID existing) < TimeStamp (ID incoming) then normalizeBoot now s incoming
          else if TimeStamp (ID incoming) < TimeStamp (ID existing) then s
          else if cTSuspect (config s) \<noteq> 0 then
            (if Incarnation existing < Incarnation incoming then put_entry s incoming
             else if Incarnation incoming = Incarnation existing then
               (if ID incoming = selfID s \<and>
                   (EState incoming = StateSuspect \<or> EState incoming = StateFailed)
                then selfBumpIncarnation now s
                else if time_After (LastUpdate incoming) (LastUpdate existing) then put_entry s incoming
                else if time_Equal (LastUpdate incoming) (LastUpdate existing) then s
                else s)
             else s)
          else
            (if time_After (LastUpdate incoming) (LastUpdate existing) then put_entry s incoming
             else if time_Equal (LastUpdate incoming) (LastUpdate existing) then s
             else s)
      | None \<Rightarrow> put_entry s incoming)"

text \<open>
  The loop of \<open>MergeFullList\<close>. An entry makes at most one reading of the clock; \<open>clk i\<close> is the reading
  made for the \<open>i\<close>-th entry.
\<close>

fun MergeFullList :: "(nat \<Rightarrow> gotime) \<Rightarrow> Store \<Rightarrow> MemberEntry list \<Rightarrow> Store" where
  "MergeFullList clk s [] = s"
| "MergeFullList clk s (e # es) =
     MergeFullList (\<lambda>i. clk (Suc i)) (updateMemberEntry (clk 0) s e) es"

definition StoreReconfigure :: "Store \<Rightarrow> Config \<Rightarrow> Store" where
  "StoreReconfigure s newConfig = s\<lparr>config := newConfig\<rparr>"

section \<open>The store invariant\<close>

text \<open>
  Every entry is filed under the text of its own endpoint, and the map is finite.
\<close>

definition store_inv :: "Store \<Rightarrow> bool" where
  "store_inv s \<longleftrightarrow> finite (dom (entries s)) \<and> (\<forall>k e. entries s k = Some e \<longrightarrow> k = key_of (ID e))"

lemma store_invD: "store_inv s \<Longrightarrow> entries s k = Some e \<Longrightarrow> key_of (ID e) = k"
  by (simp add: store_inv_def)

named_theorems store_inv_intros \<open>the operations preserve the store invariant\<close>

lemma store_inv_New [store_inv_intros]: "store_inv (NewStore now self cfg)"
  by (simp add: store_inv_def NewStore_def)

lemma store_inv_upd:
  "store_inv s \<Longrightarrow> key_of (ID e) = k \<Longrightarrow> store_inv (s\<lparr>entries := (entries s)(k \<mapsto> e), version := v\<rparr>)"
  and store_inv_upd_entry:
  "store_inv s \<Longrightarrow> key_of (ID e) = k \<Longrightarrow> store_inv (s\<lparr>entries := (entries s)(k \<mapsto> e)\<rparr>)"
  by (auto simp: store_inv_def)

lemma store_inv_apply [store_inv_intros]: "store_inv s \<Longrightarrow> store_inv (apply_entry now s n inc st b)"
  by (auto simp: apply_entry_def Let_def dest: store_invD
      intro!: store_inv_upd store_inv_upd_entry split: option.split)

lemma store_inv_ApplyLocked [store_inv_intros]: "store_inv s \<Longrightarrow> store_inv (ApplyLocked now s n inc st)"
  by (simp add: ApplyLocked_def store_inv_intros)

lemma store_inv_Remove [store_inv_intros]: "store_inv s \<Longrightarrow> store_inv (RemoveEntry s n)"
  by (auto simp: RemoveEntry_def store_inv_def split: option.split)

lemma store_inv_put [store_inv_intros]: "store_inv s \<Longrightarrow> store_inv (put_entry s e)"
  by (simp add: put_entry_def store_inv_upd)

lemma store_inv_boot [store_inv_intros]: "store_inv s \<Longrightarrow> store_inv (normalizeBoot now s e)"
  by (simp add: normalizeBoot_def store_inv_upd)

lemma store_inv_bump [store_inv_intros]: "store_inv s \<Longrightarrow> store_inv (selfBumpIncarnation now s)"
  by (auto simp: selfBumpIncarnation_def dest: store_invD intro!: store_inv_upd split: option.split)

lemma store_inv_SetSelfState [store_inv_intros]: "store_inv s \<Longrightarrow> store_inv (SetSelfState now s st)"
  by (auto simp: SetSelfState_def dest: store_invD intro!: store_inv_upd split: option.split)

lemma store_inv_Reconfigure [store_inv_intros]: "store_inv s \<Longrightarrow> store_inv (StoreReconfigure s c)"
  by (simp add: StoreReconfigure_def store_inv_def)

lemma store_inv_update [store_inv_intros]: "store_inv s \<Longrightarrow> store_inv (updateMemberEntry now s e)"
  by (simp add: updateMemberEntry_def store_inv_intros split: option.split)

lemma store_inv_Merge [store_inv_intros]: "store_inv s \<Longrightarrow> store_inv (MergeFullList clk s es)"
  by (induction clk s es rule: MergeFullList.induct) (simp_all add: store_inv_intros)

section \<open>Snapshots\<close>

text \<open>The effect of a snapshot on the map: the self entry, unless it has left, is touched.\<close>

definition touch :: "gotime \<Rightarrow> NodeID \<Rightarrow> MemberEntry \<Rightarrow> MemberEntry" where
  "touch now self e =
     (if ID e = self \<and> EState e \<noteq> StateLeft then e\<lparr>LastUpdate := now\<rparr> else e)"

lemma touch_simps [simp]:
  "ID (touch now self e) = ID e" "Incarnation (touch now self e) = Incarnation e"
  "EState (touch now self e) = EState e"
  by (simp_all add: touch_def)

lemma touch_other [simp]: "ID e \<noteq> self \<Longrightarrow> touch now self e = e"
  by (simp add: touch_def)

lemma snapshot_loop_eq:
  "distinct ord \<Longrightarrow> set ord \<subseteq> dom m \<Longrightarrow>
   snapshot_loop now self ord m =
     (map (\<lambda>k. touch now self (the (m k))) ord,
      (\<lambda>k. if k \<in> set ord then map_option (touch now self) (m k) else m k))"
proof (induction ord arbitrary: m)
  case Nil
  then show ?case by simp
next
  case (Cons k ord)
  then obtain e where e: "m k = Some e" by auto
  let ?m = "m(k \<mapsto> touch now self e)"
  have IH: "snapshot_loop now self ord ?m =
     (map (\<lambda>k. touch now self (the (?m k))) ord,
      (\<lambda>k. if k \<in> set ord then map_option (touch now self) (?m k) else ?m k))"
    by (rule Cons.IH) (use Cons.prems in auto)
  have "map (\<lambda>j. touch now self (the (?m j))) ord = map (\<lambda>j. touch now self (the (m j))) ord"
    using Cons.prems by (intro map_cong) auto
  then show ?case
    using Cons.prems e IH by (auto simp: touch_def [symmetric] Let_def fun_eq_iff)
qed

lemma Snapshot_eq:
  assumes "iteration ord (entries s)"
  shows "Snapshot now ord s =
     (map (\<lambda>k. touch now (selfID s) (the (entries s k))) ord, selfID s,
      s\<lparr>entries := map_option (touch now (selfID s)) \<circ> entries s\<rparr>)"
proof -
  have "(\<lambda>k. if k \<in> set ord then map_option (touch now (selfID s)) (entries s k) else entries s k) =
      map_option (touch now (selfID s)) \<circ> entries s"
    using assms by (auto simp: iteration_def fun_eq_iff)
  with assms show ?thesis
    by (simp add: Snapshot_def snapshot_loop_eq iteration_def)
qed

text \<open>The store after a snapshot; it does not depend on the iteration order.\<close>

definition touched :: "gotime \<Rightarrow> Store \<Rightarrow> Store" where
  "touched now s = s\<lparr>entries := map_option (touch now (selfID s)) \<circ> entries s\<rparr>"

lemma touched_simps [simp]:
  "selfID (touched now s) = selfID s" "config (touched now s) = config s"
  "version (touched now s) = version s" "dom (entries (touched now s)) = dom (entries s)"
  "entries (touched now s) k = map_option (touch now (selfID s)) (entries s k)"
  by (auto simp: touched_def dom_def)

lemma store_inv_touched [store_inv_intros]: "store_inv s \<Longrightarrow> store_inv (touched now s)"
  by (auto simp: store_inv_def)

lemma Snapshot_store [simp]:
  "iteration ord (entries s) \<Longrightarrow> snd (snd (Snapshot now ord s)) = touched now s"
  "fst (snd (Snapshot now ord s)) = selfID s"
  by (simp add: Snapshot_eq touched_def) (simp add: Snapshot_def split: prod.split)

text \<open>The invariant and the frame hold after a snapshot in any order, even an impossible one.\<close>

lemma snapshot_loop_inv:
  "finite (dom m) \<Longrightarrow> \<forall>k e. m k = Some e \<longrightarrow> k = key_of (ID e) \<Longrightarrow> snapshot_loop now self ord m = (list, m') \<Longrightarrow>
   finite (dom m') \<and> (\<forall>k e. m' k = Some e \<longrightarrow> k = key_of (ID e))"
proof (induction now self ord m arbitrary: list m' rule: snapshot_loop.induct)
  case (1 now self m)
  then show ?case by simp
next
  case (2 now self k ks m)
  show ?case
  proof (cases "m k")
    case None
    with 2 show ?thesis by simp
  next
    case (Some e)
    let ?e = "if ID e = self \<and> EState e \<noteq> StateLeft then e\<lparr>LastUpdate := now\<rparr> else e"
    obtain l where l: "snapshot_loop now self ks (m(k \<mapsto> ?e)) = (l, m')"
      using 2(5) Some by (auto simp: Let_def split: prod.splits)
    show ?thesis
    proof (rule 2(2) [OF Some refl _ _ l])
      show "finite (dom (m(k \<mapsto> ?e)))" using 2(3) by (simp only: dom_fun_upd) simp
      show "\<forall>j d. (m(k \<mapsto> ?e)) j = Some d \<longrightarrow> j = key_of (ID d)" using 2(4) Some by auto
    qed
  qed
qed

lemma store_inv_Snapshot [store_inv_intros]: "store_inv s \<Longrightarrow> store_inv (snd (snd (Snapshot now ord s)))"
  using snapshot_loop_inv [of "entries s" now "selfID s" ord]
  by (cases "snapshot_loop now (selfID s) ord (entries s)") (auto simp: Snapshot_def store_inv_def)

lemma Snapshot_frame [simp]:
  "selfID (snd (snd (Snapshot now ord s))) = selfID s" "config (snd (snd (Snapshot now ord s))) = config s"
  by (simp_all add: Snapshot_def split: prod.split)

lemma Snapshot_list_set:
  "iteration ord (entries s) \<Longrightarrow>
   e \<in> set (fst (Snapshot now ord s)) \<longleftrightarrow> (\<exists>k. entries (touched now s) k = Some e)"
  by (force simp: Snapshot_eq iteration_def)

lemma Snapshot_list_length:
  "iteration ord (entries s) \<Longrightarrow> length (fst (Snapshot now ord s)) = Size s"
  by (simp add: Snapshot_eq iteration_def Size_def distinct_card [symmetric])

section \<open>Frames and versions\<close>

named_theorems store_frame \<open>fields of the store an operation does not write\<close>

lemma frames [store_frame, simp]:
  "selfID (ApplyLocked now s n inc st) = selfID s" "config (ApplyLocked now s n inc st) = config s"
  "selfID (RemoveEntry s n) = selfID s" "config (RemoveEntry s n) = config s"
  "selfID (put_entry s e) = selfID s" "config (put_entry s e) = config s"
  "selfID (normalizeBoot now s e) = selfID s" "config (normalizeBoot now s e) = config s"
  "selfID (selfBumpIncarnation now s) = selfID s" "config (selfBumpIncarnation now s) = config s"
  "selfID (StoreReconfigure s c) = selfID s" "config (StoreReconfigure s c) = c"
  "entries (StoreReconfigure s c) = entries s" "version (StoreReconfigure s c) = version s"
  by (simp_all add: ApplyLocked_def apply_entry_def RemoveEntry_def put_entry_def normalizeBoot_def
      selfBumpIncarnation_def StoreReconfigure_def Let_def split: option.split)

lemma update_frame [store_frame, simp]:
  "selfID (updateMemberEntry now s e) = selfID s" "config (updateMemberEntry now s e) = config s"
  by (simp_all add: updateMemberEntry_def split: option.split)

lemma merge_frame [store_frame, simp]:
  "selfID (MergeFullList clk s es) = selfID s" "config (MergeFullList clk s es) = config s"
  by (induction clk s es rule: MergeFullList.induct) simp_all

lemma MergeFullList_append:
  "MergeFullList clk s (es @ fs) = MergeFullList (\<lambda>i. clk (length es + i)) (MergeFullList clk s es) fs"
  by (induction es arbitrary: clk s) simp_all

end
