(* ===== verification/Merging.thy ===== *)
theory Merging
  imports Membership
begin

text \<open>
  What the merge of membership lists achieves. An entry has a \<^theory_text>\<open>rank\<close> (boot time, incarnation,
  heartbeat); \<open>updateMemberEntry\<close> is shown to keep the entry of the higher rank, up to the two cases in
  which the store writes an entry of its own: a newer boot (stamped with the local clock) and the
  refutation of an allegation against the local node. The locale \<^theory_text>\<open>ranked_merge\<close> states the
  contract of such a store and derives the facts about whole lists from it: independence of the
  order, idempotence, monotonicity. It is interpreted on \<open>updateMemberEntry\<close>.
\<close>

section \<open>Ranks\<close>

datatype rank = Rank (rank_boot: u64) (rank_inc: u64) (rank_beat: int)

instantiation rank :: linorder
begin

definition less_eq_rank :: "rank \<Rightarrow> rank \<Rightarrow> bool" where
  "less_eq_rank a b \<longleftrightarrow>
     rank_boot a < rank_boot b \<or> rank_boot a = rank_boot b \<and>
     (rank_inc a < rank_inc b \<or> rank_inc a = rank_inc b \<and> rank_beat a \<le> rank_beat b)"

definition less_rank :: "rank \<Rightarrow> rank \<Rightarrow> bool" where
  "less_rank a b \<longleftrightarrow>
     rank_boot a < rank_boot b \<or> rank_boot a = rank_boot b \<and>
     (rank_inc a < rank_inc b \<or> rank_inc a = rank_inc b \<and> rank_beat a < rank_beat b)"

instance
  by standard (auto simp: less_eq_rank_def less_rank_def rank.expand)

end

text \<open>
  With suspicion disabled (\<open>TSuspect = 0\<close>) the store ignores incarnations, so they do not count.
\<close>

definition rank_of :: "Duration \<Rightarrow> MemberEntry \<Rightarrow> rank" where
  "rank_of tSuspect e =
     Rank (TimeStamp (ID e)) (if tSuspect \<noteq> 0 then Incarnation e else 0) (wall (LastUpdate e))"

lemma rank_of_less:
  "rank_of t d < rank_of t e \<longleftrightarrow>
     TimeStamp (ID d) < TimeStamp (ID e) \<or> TimeStamp (ID d) = TimeStamp (ID e) \<and>
     (if t \<noteq> 0 then Incarnation d < Incarnation e \<or>
        Incarnation d = Incarnation e \<and> wall (LastUpdate d) < wall (LastUpdate e)
      else wall (LastUpdate d) < wall (LastUpdate e))"
  by (simp add: rank_of_def less_rank_def)

section \<open>One entry\<close>

text \<open>An entry as it arrives from the wire: without a monotonic clock reading.\<close>

definition wire_entry :: "MemberEntry \<Rightarrow> bool" where
  "wire_entry e \<longleftrightarrow> wall_only (LastUpdate e)"

text \<open>The incoming entry accuses the local node at its current incarnation.\<close>

definition accuses :: "Store \<Rightarrow> MemberEntry \<Rightarrow> MemberEntry \<Rightarrow> bool" where
  "accuses s d e \<longleftrightarrow>
     cTSuspect (config s) \<noteq> 0 \<and> ID e = selfID s \<and> (EState e = StateSuspect \<or> EState e = StateFailed) \<and>
     TimeStamp (ID e) = TimeStamp (ID d) \<and> Incarnation e = Incarnation d"

definition merged :: "gotime \<Rightarrow> Store \<Rightarrow> MemberEntry \<Rightarrow> MemberEntry" where
  "merged now s e =
     (case entries s (key_of (ID e)) of
        None \<Rightarrow> e
      | Some d \<Rightarrow>
          if TimeStamp (ID d) < TimeStamp (ID e) then e\<lparr>LastUpdate := now\<rparr>
          else if accuses s d e
            then d\<lparr>Incarnation := Incarnation d + 1, LastUpdate := now, EState := StateAlive\<rparr>
          else if rank_of (cTSuspect (config s)) d < rank_of (cTSuspect (config s)) e then e
          else d)"

lemma updateMemberEntry_unchanged_or_next:
  "updateMemberEntry now s e = s \<or> version (updateMemberEntry now s e) = version s + 1"
  by (simp add: updateMemberEntry_def normalizeBoot_def put_entry_def selfBumpIncarnation_def
      split: option.split)

text \<open>An entry of the same boot that is no accusation is stored when it ranks higher, else ignored.\<close>

lemma updateMemberEntry_same_boot:
  assumes "wire_entry e" and "entries s (key_of (ID e)) = Some d"
    and "TimeStamp (ID e) = TimeStamp (ID d)" and "\<not> accuses s d e"
  shows "updateMemberEntry now s e =
     (if rank_of (cTSuspect (config s)) d < rank_of (cTSuspect (config s)) e then put_entry s e else s)"
proof -
  have after: "time_After (LastUpdate e) (LastUpdate d) \<longleftrightarrow> wall (LastUpdate d) < wall (LastUpdate e)"
    using assms(1) by (simp add: wire_entry_def time_After_wall)
  have acc: "cTSuspect (config s) \<noteq> 0 \<Longrightarrow> Incarnation e = Incarnation d \<Longrightarrow>
      \<not> (ID e = selfID s \<and> (EState e = StateSuspect \<or> EState e = StateFailed))"
    using assms(3,4) by (auto simp: accuses_def)
  show ?thesis
    using assms(2,3) after acc
    by (cases "Incarnation e" "Incarnation d" rule: linorder_cases; cases "cTSuspect (config s) = 0")
       (auto simp: updateMemberEntry_def rank_of_less)
qed

lemma updateMemberEntry_accusation:
  assumes "entries s (key_of (ID e)) = Some d" and "accuses s d e"
  shows "updateMemberEntry now s e = selfBumpIncarnation now s"
proof -
  have "cTSuspect (config s) \<noteq> 0" "selfID s = ID e" "Incarnation e = Incarnation d"
    "EState e = StateSuspect \<or> EState e = StateFailed" "TimeStamp (ID d) = TimeStamp (ID e)"
    using assms(2) by (auto simp: accuses_def)
  with assms(1) show ?thesis by (simp add: updateMemberEntry_def)
qed

lemma updateMemberEntry_entries:
  assumes "wire_entry e"
  shows "entries (updateMemberEntry now s e) = (entries s)(key_of (ID e) \<mapsto> merged now s e)"
proof (cases "entries s (key_of (ID e))")
  case None
  then show ?thesis by (simp add: updateMemberEntry_def merged_def put_entry_def)
next
  case (Some d)
  have idle: "(entries s)(key_of (ID e) \<mapsto> d) = entries s"
    using Some by (rule map_upd_same)
  consider "TimeStamp (ID d) < TimeStamp (ID e)" | "TimeStamp (ID e) < TimeStamp (ID d)"
    | "TimeStamp (ID e) = TimeStamp (ID d)" by (rule linorder_cases) auto
  then show ?thesis
  proof cases
    case 1
    with Some show ?thesis by (simp add: updateMemberEntry_def merged_def normalizeBoot_def)
  next
    case 2
    then have "\<not> TimeStamp (ID d) < TimeStamp (ID e)" "TimeStamp (ID e) \<noteq> TimeStamp (ID d)" by auto
    with 2 Some idle show ?thesis
      by (simp add: updateMemberEntry_def merged_def accuses_def rank_of_less)
  next
    case 3
    show ?thesis
    proof (cases "accuses s d e")
      case True
      then have "selfID s = ID e" by (simp add: accuses_def)
      with True show ?thesis
        using 3 Some updateMemberEntry_accusation [OF Some True]
        by (simp add: merged_def selfBumpIncarnation_def)
    next
      case False
      then show ?thesis
        using 3 Some updateMemberEntry_same_boot [OF assms Some 3 False] idle
        by (simp add: merged_def put_entry_def)
    qed
  qed
qed

text \<open>Entries other than the incoming one's are never touched, wherever it comes from.\<close>

lemma other_keys:
  "k \<noteq> key_of (ID e) \<Longrightarrow> entries (put_entry s e) k = entries s k"
  "k \<noteq> key_of (ID e) \<Longrightarrow> entries (normalizeBoot now s e) k = entries s k"
  "k \<noteq> key_of (selfID s) \<Longrightarrow> entries (selfBumpIncarnation now s) k = entries s k"
  by (simp_all add: put_entry_def normalizeBoot_def selfBumpIncarnation_def split: option.split)

lemma updateMemberEntry_other:
  assumes "k \<noteq> key_of (ID e)"
  shows "entries (updateMemberEntry now s e) k = entries s k"
proof (cases "ID e = selfID s")
  case True
  with assms have "k \<noteq> key_of (selfID s)" by simp
  then show ?thesis
    using assms by (simp add: updateMemberEntry_def other_keys split: option.split)
next
  case False
  with assms show ?thesis
    by (simp add: updateMemberEntry_def other_keys split: option.split)
qed

text \<open>An entry as a peer reads it from the wire: the monotonic reading is gone.\<close>

definition on_wire :: "MemberEntry \<Rightarrow> MemberEntry" where
  "on_wire e = e\<lparr>LastUpdate := strip_mono (LastUpdate e)\<rparr>"

lemma on_wire_simps [simp]:
  "ID (on_wire e) = ID e" "Incarnation (on_wire e) = Incarnation e" "EState (on_wire e) = EState e"
  "wall (LastUpdate (on_wire e)) = wall (LastUpdate e)" "wire_entry (on_wire e)"
  "rank_of t (on_wire e) = rank_of t e"
  by (simp_all add: on_wire_def wire_entry_def rank_of_def)

section \<open>Lists: the contract of a ranked store\<close>

locale ranked_merge =
  fixes put :: "'s \<Rightarrow> 'e \<Rightarrow> 's"
    and look :: "'s \<Rightarrow> 'k \<Rightarrow> 'e option"
    and key :: "'e \<Rightarrow> 'k"
    and rank :: "'e \<Rightarrow> 'r :: linorder"
    and ok :: "'s \<Rightarrow> bool"
    and good :: "'e \<Rightarrow> bool"
  assumes look_put: "ok s \<Longrightarrow> good e \<Longrightarrow>
      look (put s e) = (look s)(key e \<mapsto>
        (case look s (key e) of None \<Rightarrow> e | Some d \<Rightarrow> if rank d < rank e then e else d))"
    and put_idle: "ok s \<Longrightarrow> good e \<Longrightarrow> look s (key e) = Some d \<Longrightarrow> rank e \<le> rank d \<Longrightarrow> put s e = s"
    and ok_put: "ok s \<Longrightarrow> good e \<Longrightarrow> ok (put s e)"
begin

lemma ok_foldl: "ok s \<Longrightarrow> list_all good es \<Longrightarrow> ok (foldl put s es)"
  by (induction es arbitrary: s) (auto intro: ok_put)

text \<open>The entry kept for a key comes from the store or the list, and none of them ranks higher.\<close>

definition candidates :: "'s \<Rightarrow> 'e list \<Rightarrow> 'k \<Rightarrow> 'e set" where
  "candidates s es k = {d. look s k = Some d} \<union> {e \<in> set es. key e = k}"

lemma foldl_look:
  assumes "ok s" and "list_all good es"
  shows "case look (foldl put s es) k of
           None \<Rightarrow> candidates s es k = {}
         | Some d \<Rightarrow> d \<in> candidates s es k \<and> (\<forall>c \<in> candidates s es k. rank c \<le> rank d)"
  using assms
proof (induction es arbitrary: s)
  case Nil
  then show ?case by (auto simp: candidates_def split: option.split)
next
  case (Cons e es)
  then have e: "ok s" "good e" and ok': "ok (put s e)" by (auto intro: ok_put)
  have IH: "case look (foldl put (put s e) es) k of
      None \<Rightarrow> candidates (put s e) es k = {}
    | Some d \<Rightarrow> d \<in> candidates (put s e) es k \<and> (\<forall>c \<in> candidates (put s e) es k. rank c \<le> rank d)"
    using Cons ok' by simp
  show ?case
  proof (cases "key e = k")
    case False
    then have "candidates (put s e) es k = candidates s (e # es) k"
      by (auto simp: candidates_def look_put [OF e])
    with IH show ?thesis by (simp split: option.splits)
  next
    case True
    have p: "look (put s e) k = Some (case look s k of None \<Rightarrow> e | Some d \<Rightarrow> if rank d < rank e then e else d)"
      using True by (simp add: look_put [OF e])
    have "c \<in> candidates s (e # es) k \<longleftrightarrow>
        c \<in> {d. look s k = Some d} \<or> c = e \<or> c \<in> {e \<in> set es. key e = k}" for c
      using True by (auto simp: candidates_def)
    with IH p show ?thesis
      by (fastforce simp: candidates_def split: option.splits if_splits)
  qed
qed

lemma foldl_monotone:
  assumes "ok s" and "list_all good es" and "look s k = Some d"
  shows "\<exists>d'. look (foldl put s es) k = Some d' \<and> rank d \<le> rank d'"
  using foldl_look [OF assms(1,2), of k] assms(3)
  by (auto simp: candidates_def split: option.splits)

lemma foldl_look_Some:
  assumes "ok s" and "list_all good es" and "look (foldl put s es) k = Some d"
  shows "d \<in> candidates s es k" and "c \<in> candidates s es k \<Longrightarrow> rank c \<le> rank d"
  using foldl_look [OF assms(1,2), of k] assms(3) by auto

lemma foldl_look_None:
  assumes "ok s" and "list_all good es"
  shows "look (foldl put s es) k = None \<longleftrightarrow> candidates s es k = {}"
  using foldl_look [OF assms, of k] by (auto split: option.splits)

text \<open>
  When entries of one key and one rank are the same entry, the result does not depend on the order or
  the multiplicity of the list, only on what it contains.
\<close>

definition separated :: "'s \<Rightarrow> 'e list \<Rightarrow> bool" where
  "separated s es \<longleftrightarrow>
     (\<forall>k. \<forall>c \<in> candidates s es k. \<forall>d \<in> candidates s es k. rank c = rank d \<longrightarrow> c = d)"

lemma foldl_order_irrelevant:
  assumes "ok s" and "list_all good es" and "separated s es" and "set fs = set es"
  shows "look (foldl put s fs) = look (foldl put s es)"
proof
  fix k
  have gf: "list_all good fs" using assms(2,4) by (simp add: list_all_iff)
  have c: "candidates s fs k = candidates s es k"
    using assms(4) by (simp add: candidates_def)
  show "look (foldl put s fs) k = look (foldl put s es) k"
  proof (cases "candidates s es k = {}")
    case True
    then show ?thesis
      using foldl_look_None [OF assms(1) gf, of k] foldl_look_None [OF assms(1,2), of k] c by simp
  next
    case False
    then obtain x y where x: "look (foldl put s fs) k = Some x" and y: "look (foldl put s es) k = Some y"
      using foldl_look_None [OF assms(1) gf, of k] foldl_look_None [OF assms(1,2), of k] c by auto
    have "rank x = rank y"
      using foldl_look_Some [OF assms(1) gf x] foldl_look_Some [OF assms(1,2) y] c
      by (auto intro: order.antisym)
    then have "x = y"
      using assms(3) foldl_look_Some(1) [OF assms(1) gf x] foldl_look_Some(1) [OF assms(1,2) y] c
      by (auto simp: separated_def)
    with x y show ?thesis by simp
  qed
qed

text \<open>A list whose entries are all outranked changes nothing, so merging a list again is the identity.\<close>

lemma foldl_idle:
  assumes "ok s" and "list_all good es"
    and "\<forall>e \<in> set es. \<exists>d. look s (key e) = Some d \<and> rank e \<le> rank d"
  shows "foldl put s es = s"
  using assms
proof (induction es)
  case Nil
  then show ?case by simp
next
  case (Cons e es)
  then have "put s e = s" by (auto intro: put_idle)
  with Cons show ?case by simp
qed

lemma foldl_idempotent:
  assumes "ok s" and "list_all good es" and "set fs \<subseteq> set es"
  shows "foldl put (foldl put s es) fs = foldl put s es"
proof (rule foldl_idle)
  show "ok (foldl put s es)" using assms(1,2) by (rule ok_foldl)
  show "list_all good fs" using assms(2,3) by (auto simp: list_all_iff)
  show "\<forall>e \<in> set fs. \<exists>d. look (foldl put s es) (key e) = Some d \<and> rank e \<le> rank d"
  proof
    fix e
    assume "e \<in> set fs"
    then have "e \<in> candidates s es (key e)" using assms(3) by (auto simp: candidates_def)
    then show "\<exists>d. look (foldl put s es) (key e) = Some d \<and> rank e \<le> rank d"
      using foldl_look [OF assms(1,2), of "key e"] by (auto split: option.splits)
  qed
qed

end

section \<open>The store keeps the contract\<close>

text \<open>
  Within one boot of every member: \<open>B\<close> gives the boot time of each endpoint, \<open>me\<close> is the local node and
  \<open>tSuspect\<close> its setting. A peer entry comes from the wire, is of the current boot and does not accuse
  the local node.
\<close>

definition peer_entry :: "NodeID \<Rightarrow> (string \<Rightarrow> u64) \<Rightarrow> MemberEntry \<Rightarrow> bool" where
  "peer_entry me B e \<longleftrightarrow>
     wire_entry e \<and> TimeStamp (ID e) = B (key_of (ID e)) \<and>
     \<not> (ID e = me \<and> (EState e = StateSuspect \<or> EState e = StateFailed))"

definition peer_store :: "NodeID \<Rightarrow> Duration \<Rightarrow> (string \<Rightarrow> u64) \<Rightarrow> Store \<Rightarrow> bool" where
  "peer_store me tSuspect B s \<longleftrightarrow>
     selfID s = me \<and> cTSuspect (config s) = tSuspect \<and>
     (\<forall>k d. entries s k = Some d \<longrightarrow> TimeStamp (ID d) = B k)"

lemma peer_update:
  assumes "peer_store me t B s" and "peer_entry me B e" and "entries s (key_of (ID e)) = Some d"
  shows "updateMemberEntry now s e = (if rank_of t d < rank_of t e then put_entry s e else s)"
proof -
  have "TimeStamp (ID e) = TimeStamp (ID d)" and "\<not> accuses s d e" and "cTSuspect (config s) = t"
    using assms by (auto simp: peer_store_def peer_entry_def accuses_def)
  with assms(2,3) show ?thesis
    using updateMemberEntry_same_boot [of e s d now] by (simp add: peer_entry_def)
qed

lemma peer_update_look:
  assumes "peer_store me t B s" and "peer_entry me B e"
  shows "entries (updateMemberEntry now s e) = (entries s)(key_of (ID e) \<mapsto>
     (case entries s (key_of (ID e)) of None \<Rightarrow> e | Some d \<Rightarrow> if rank_of t d < rank_of t e then e else d))"
proof (cases "entries s (key_of (ID e))")
  case None
  then show ?thesis by (simp add: updateMemberEntry_def put_entry_def)
next
  case (Some d)
  then show ?thesis
    using peer_update [OF assms Some, of now] by (simp add: put_entry_def)
qed

interpretation mrg: ranked_merge "updateMemberEntry now" entries "\<lambda>e. key_of (ID e)" "rank_of t"
  "peer_store me t B" "peer_entry me B"
  for now :: gotime and t :: Duration and me :: NodeID and B :: "string \<Rightarrow> u64"
proof unfold_locales
  fix s e
  assume p: "peer_store me t B s" "peer_entry me B e"
  show "entries (updateMemberEntry now s e) = (entries s)(key_of (ID e) \<mapsto>
     (case entries s (key_of (ID e)) of None \<Rightarrow> e | Some d \<Rightarrow> if rank_of t d < rank_of t e then e else d))"
    using p by (rule peer_update_look)
  then show "peer_store me t B (updateMemberEntry now s e)"
    using p by (auto simp: peer_store_def peer_entry_def split: if_splits option.splits)
  fix d
  assume "entries s (key_of (ID e)) = Some d" and "rank_of t e \<le> rank_of t d"
  then show "updateMemberEntry now s e = s"
    using peer_update [OF p, of d now] by simp
qed

text \<open>A peer entry never makes the store read its clock, so \<open>MergeFullList\<close> is the fold of the contract.\<close>

lemma MergeFullList_foldl:
  assumes "peer_store me t B s" and "list_all (peer_entry me B) es"
  shows "MergeFullList clk s es = foldl (updateMemberEntry now) s es"
  using assms
proof (induction es arbitrary: clk s)
  case Nil
  then show ?case by simp
next
  case (Cons e es)
  have "updateMemberEntry (clk 0) s e = updateMemberEntry now s e"
  proof (cases "entries s (key_of (ID e))")
    case None
    then show ?thesis by (simp add: updateMemberEntry_def)
  next
    case (Some d)
    then show ?thesis using Cons.prems peer_update [of me t B s e d] by simp
  qed
  moreover have "peer_store me t B (updateMemberEntry now s e)"
    using Cons.prems mrg.ok_put by simp
  ultimately show ?case using Cons by simp
qed

end
