(* ===== verification/Samples.thy ===== *)
theory Samples
  imports Merging
begin

text \<open>
  Sample nodes, instants and entries, on which the witnesses of the properties evaluate the model.
\<close>

definition node :: "u8 \<Rightarrow> u64 \<Rightarrow> NodeID" where
  "node h boot = \<lparr>EP = \<lparr>IP = IPv4 10 0 0 h, Port = 5000\<rparr>, TimeStamp = boot\<rparr>"

definition at_wall :: "int \<Rightarrow> gotime" where
  "at_wall t = \<lparr>wall = t, mono = None\<rparr>"

definition sample :: "u8 \<Rightarrow> u64 \<Rightarrow> State \<Rightarrow> int \<Rightarrow> MemberEntry" where
  "sample h inc st t = \<lparr>ID = node h 7, Incarnation = inc, EState = st, LastUpdate = at_wall t\<rparr>"

named_theorems sample_defs \<open>evaluation of the sample entries of the witnesses\<close>

lemmas sample_definitions [sample_defs] = node_def at_wall_def sample_def

lemma sample_simps [simp]:
  "Is4 (IP (EP (node h b)))" "node g b = node h c \<longleftrightarrow> g = h \<and> b = c" "TimeStamp (node h b) = b"
  "ID (sample h i st t) = node h 7" "Incarnation (sample h i st t) = i"
  "EState (sample h i st t) = st" "LastUpdate (sample h i st t) = at_wall t"
  "wall_only (at_wall t)" "wire_entry (sample h i st t)" "wall (at_wall t) = t"
  by (simp_all add: sample_defs wall_only_def wire_entry_def)

lemma sample_upd [simp]: "(sample h i st t)\<lparr>EState := st'\<rparr> = sample h i st' t"
  by (simp add: sample_def)

lemma key_of_node [simp]: "key_of (node g b) = key_of (node h c) \<longleftrightarrow> g = h"
  by (subst EndpointToString_inj) (simp_all add: node_def)

text \<open>A store of node 1 that knows node 2 in state \<open>st\<close>, last heard of at time \<open>t\<close>.\<close>

definition two_nodes :: "Config \<Rightarrow> State \<Rightarrow> int \<Rightarrow> Store" where
  "two_nodes c st t = put_entry (NewStore (at_wall 5) (node 1 7) c) (sample 2 100 st t)"

definition two_keys :: "string list" where
  "two_keys = [key_of (node 1 7), key_of (node 2 7)]"

lemma two_nodes_entries:
  "entries (two_nodes c st t) =
     [key_of (node 1 7) \<mapsto> \<lparr>ID = node 1 7, Incarnation = 100, EState = StateAlive, LastUpdate = at_wall 5\<rparr>,
      key_of (node 2 7) \<mapsto> sample 2 100 st t]"
  by (simp add: two_nodes_def put_entry_def NewStore_def)

lemma two_nodes_simps [simp]:
  "store_inv (two_nodes c st t)" "selfID (two_nodes c st t) = node 1 7" "config (two_nodes c st t) = c"
  "entries (two_nodes c st t) (key_of (node 2 7)) = Some (sample 2 100 st t)"
  "iteration two_keys (entries (two_nodes c st t))"
proof -
  show "store_inv (two_nodes c st t)" by (simp add: two_nodes_def store_inv_intros)
  show "iteration two_keys (entries (two_nodes c st t))"
    by (auto simp: two_nodes_entries iteration_def two_keys_def)
qed (simp_all add: two_nodes_def NewStore_def put_entry_def)

end
