(* ===== verification/MergeProps.thy ===== *)
theory MergeProps
  imports Samples
begin

text \<open>
  The properties of the membership store: what one incoming entry does, what merging whole lists
  guarantees, how a node defends itself against accusations, and where the code departs from its own
  description (\<open>src/pkg/store/membership.go\<close>).
\<close>

section \<open>One entry and one list\<close>

text \<open>
  C1. \<open>updateMemberEntry\<close> implements "the higher rank wins". For an entry from the wire it changes at
  most the entry of the same endpoint, and leaves there: the incoming entry if the endpoint was
  unknown; the incoming entry stamped with the local clock if it is of a newer boot; the local entry
  with its incarnation increased and state Alive if the incoming one accuses the local node at its
  current incarnation (suspicion enabled); otherwise whichever has the higher rank (boot, incarnation
  if suspicion is enabled, heartbeat), the existing one on a tie. The version grows by one if
  anything is stored.
\<close>

theorem updateMemberEntry_refines:
  assumes "wire_entry e"
  shows "entries (updateMemberEntry now s e) = (entries s)(key_of (ID e) \<mapsto> merged now s e) \<and>
         (updateMemberEntry now s e = s \<or> version (updateMemberEntry now s e) = version s + 1)"
  using assms updateMemberEntry_entries updateMemberEntry_unchanged_or_next by simp

theorem updateMemberEntry_refines_witness:
  "let s = NewStore (at_wall 5) (node 1 7) (Defaults ''h'')
   in entries (updateMemberEntry (at_wall 9) s (sample 2 100 StateAlive 6)) =
        (entries s)(key_of (node 2 7) \<mapsto> sample 2 100 StateAlive 6)"
  using updateMemberEntry_refines [of "sample 2 100 StateAlive 6" "at_wall 9"
      "NewStore (at_wall 5) (node 1 7) (Defaults ''h'')"]
  by (simp add: merged_def NewStore_def)

lemma update_boot_monotone:
  assumes "entries s k = Some d" and "store_inv s"
  shows "\<exists>d'. entries (updateMemberEntry now s e) k = Some d' \<and> TimeStamp (ID d) \<le> TimeStamp (ID d')"
proof (cases "k = key_of (ID e)")
  case False
  then show ?thesis using assms by (simp add: updateMemberEntry_other)
next
  case True
  then show ?thesis
    using assms(1)
    by (auto simp: updateMemberEntry_def normalizeBoot_def put_entry_def selfBumpIncarnation_def
        split: option.split)
qed

text \<open>
  Membership information is never lost by a merge: every endpoint that was known stays known,
  and its boot time never goes back, whatever list arrives and whatever the clock reads.
\<close>

theorem merge_never_forgets:
  assumes "store_inv s" and "entries s k = Some d"
  shows "\<exists>d'. entries (MergeFullList clk s es) k = Some d' \<and> TimeStamp (ID d) \<le> TimeStamp (ID d')"
  using assms
proof (induction clk s es arbitrary: d rule: MergeFullList.induct)
  case (1 clk s)
  then show ?case by simp
next
  case (2 clk s e es)
  obtain d1 where d1: "entries (updateMemberEntry (clk 0) s e) k = Some d1"
    "TimeStamp (ID d) \<le> TimeStamp (ID d1)"
    using update_boot_monotone 2(2,3) by blast
  obtain d2 where "entries (MergeFullList clk s (e # es)) k = Some d2" "TimeStamp (ID d1) \<le> TimeStamp (ID d2)"
    using 2(1) [OF store_inv_update [OF 2(2)] d1(1)] by auto
  with d1(2) show ?case by (auto intro: order_trans)
qed

theorem merge_never_forgets_witness:
  "\<exists>d'. entries (MergeFullList (\<lambda>_. at_wall 9) (NewStore (at_wall 5) (node 1 7) (Defaults ''h''))
           [sample 1 100 StateFailed 8, sample 2 3 StateLeft 1]) (key_of (node 1 7)) = Some d' \<and>
        7 \<le> TimeStamp (ID d')"
proof -
  have k: "entries (NewStore (at_wall 5) (node 1 7) (Defaults ''h'')) (key_of (node 1 7)) =
      Some \<lparr>ID = node 1 7, Incarnation = 100, EState = StateAlive, LastUpdate = at_wall 5\<rparr>"
    by (simp add: NewStore_def)
  show ?thesis
    using merge_never_forgets [OF store_inv_New k, of "\<lambda>_. at_wall 9"
        "[sample 1 100 StateFailed 8, sample 2 3 StateLeft 1]"]
    by (simp only: MemberEntry.select_convs sample_simps)
qed

text \<open>
  The version counts the effective changes of a merge: it grows (modulo \<open>2^64\<close>) by at most the
  length of the list, and by nothing only if the whole store is unchanged.
\<close>

theorem merge_version_counts:
  "\<exists>n \<le> length es. version (MergeFullList clk s es) = version s + of_nat n \<and>
     (n = 0 \<longrightarrow> MergeFullList clk s es = s)"
proof (induction clk s es rule: MergeFullList.induct)
  case (1 clk s)
  then show ?case by simp
next
  case (2 clk s e es)
  let ?s = "updateMemberEntry (clk 0) s e"
  obtain n where n: "n \<le> length es" "version (MergeFullList (\<lambda>i. clk (Suc i)) ?s es) = version ?s + of_nat n"
    "n = 0 \<longrightarrow> MergeFullList (\<lambda>i. clk (Suc i)) ?s es = ?s"
    using 2 by blast
  show ?case
  proof (cases "?s = s")
    case True
    with n show ?thesis by (intro exI [of _ n]) simp
  next
    case False
    then have "version ?s = version s + 1" using updateMemberEntry_unchanged_or_next by blast
    with n show ?thesis by (intro exI [of _ "Suc n"]) simp
  qed
qed

theorem merge_version_counts_witness:
  "\<exists>n \<le> 1. version (MergeFullList (\<lambda>_. at_wall 9) (NewStore (at_wall 5) (node 1 7) (Defaults ''h''))
       [sample 2 3 StateLeft 1]) = 1 + of_nat n"
  using merge_version_counts [of "[sample 2 3 StateLeft 1]" "\<lambda>_. at_wall 9"
      "NewStore (at_wall 5) (node 1 7) (Defaults ''h'')"]
  by (auto simp: NewStore_def)

section \<open>Whole lists within one boot\<close>

text \<open>
  C2. Within one boot the order in which entries arrive, and how often, does not matter: two lists with
  the same entries leave the same membership map, provided that the store and the lists know one boot
  of every endpoint, that no entry accuses the local node, that the entries come from the wire, and that
  any two entries of one endpoint which agree in boot, incarnation (if suspicion is enabled) and
  heartbeat agree in everything. (The order does matter when a newer boot replaces an older one, when the node
  refutes an accusation, and between entries that differ in their state only.)
\<close>

theorem merge_order_irrelevant:
  assumes "peer_store me t B s" and "store_inv s" and "list_all (peer_entry me B) es"
    and "set fs = set es"
    and "\<forall>a \<in> set es \<union> ran (entries s). \<forall>b \<in> set es \<union> ran (entries s).
           key_of (ID a) = key_of (ID b) \<longrightarrow> rank_of t a = rank_of t b \<longrightarrow> a = b"
  shows "entries (MergeFullList clk s fs) = entries (MergeFullList clk' s es)"
proof -
  let ?now = "clk 0"
  have sep: "mrg.separated t s es"
    unfolding mrg.separated_def
  proof (intro allI ballI impI)
    fix k a b
    assume "a \<in> mrg.candidates s es k" and "b \<in> mrg.candidates s es k" and r: "rank_of t a = rank_of t b"
    then have "a \<in> set es \<union> ran (entries s)" "b \<in> set es \<union> ran (entries s)" "key_of (ID a) = key_of (ID b)"
      using assms(2) by (auto simp: mrg.candidates_def ran_def dest: store_invD)
    with assms(5) r show "a = b" by blast
  qed
  have fs: "list_all (peer_entry me B) fs" using assms(3,4) by (simp add: list_all_iff)
  have "entries (foldl (updateMemberEntry ?now) s fs) = entries (foldl (updateMemberEntry ?now) s es)"
    using assms(1,3) sep assms(4) by (rule mrg.foldl_order_irrelevant)
  then show ?thesis
    using MergeFullList_foldl [OF assms(1) fs] MergeFullList_foldl [OF assms(1,3)] by metis
qed

text \<open>
  Merging is idempotent on the whole store, version included: after a list has been merged, any
  of its entries arriving again, in any order, changes nothing.
\<close>

theorem merge_idempotent:
  assumes "peer_store me t B s" and "list_all (peer_entry me B) es" and "set fs \<subseteq> set es"
  shows "MergeFullList clk' (MergeFullList clk s es) fs = MergeFullList clk s es"
proof -
  let ?now = "clk 0"
  have fs: "list_all (peer_entry me B) fs" using assms(2,3) by (auto simp: list_all_iff)
  have e: "MergeFullList clk s es = foldl (updateMemberEntry ?now) s es"
    using assms(1,2) by (rule MergeFullList_foldl)
  have ok: "peer_store me t B (foldl (updateMemberEntry ?now) s es)"
    using assms(1,2) by (rule mrg.ok_foldl)
  show ?thesis
    unfolding e MergeFullList_foldl [OF ok fs, of clk' ?now]
    using assms by (rule mrg.foldl_idempotent)
qed

lemma sample_store:
  "peer_store (node 1 7) t (\<lambda>_. 7) (NewStore (at_wall 5) (node 1 7) ((Defaults ''h'')\<lparr>cTSuspect := t\<rparr>))"
  by (simp add: peer_store_def NewStore_def)

lemma sample_peer: "h \<noteq> 1 \<Longrightarrow> peer_entry (node 1 7) (\<lambda>_. 7) (sample h i st w)"
  by (simp add: peer_entry_def)

theorem merge_order_irrelevant_witness:
  "let s = NewStore (at_wall 5) (node 1 7) ((Defaults ''h'')\<lparr>cTSuspect := 1\<rparr>);
       a = sample 2 3 StateAlive 4; b = sample 2 4 StateSuspect 2
   in entries (MergeFullList (\<lambda>_. at_wall 9) s [a, b]) = entries (MergeFullList (\<lambda>_. at_wall 8) s [b, a, b])"
  unfolding Let_def
proof (rule merge_order_irrelevant [OF sample_store store_inv_New])
  show "list_all (peer_entry (node 1 7) (\<lambda>_. 7))
      [sample 2 4 StateSuspect 2, sample 2 3 StateAlive 4, sample 2 4 StateSuspect 2]"
    by (simp add: sample_peer)
qed (auto simp: NewStore_def rank_of_def)

theorem merge_idempotent_witness:
  "let s = NewStore (at_wall 5) (node 1 7) ((Defaults ''h'')\<lparr>cTSuspect := 1\<rparr>);
       a = sample 2 3 StateAlive 4; b = sample 2 4 StateSuspect 2
   in MergeFullList (\<lambda>_. at_wall 8) (MergeFullList (\<lambda>_. at_wall 9) s [a, b]) [b] = MergeFullList (\<lambda>_. at_wall 9) s [a, b]"
  unfolding Let_def
  by (rule merge_idempotent [OF sample_store]) (simp_all add: sample_peer)

section \<open>Accusations\<close>

text \<open>
  The order of the states plays no part in the merge, although the comments of the store promise
  "Failed > Suspect > Alive" and "Left is terminal" for equal incarnations: between entries of the
  same boot and incarnation the later heartbeat wins, whatever the two states are. So an entry that
  says Alive revives a member that has left, and an entry that says Failed with the same heartbeat is
  ignored.
\<close>

theorem merge_ignores_state_order:
  assumes "peer_store me t B s" and "peer_entry me B e"
    and "entries s (key_of (ID e)) = Some d" and "Incarnation e = Incarnation d"
  shows "updateMemberEntry now s e =
     (if wall (LastUpdate d) < wall (LastUpdate e) then put_entry s e else s)"
proof -
  have "TimeStamp (ID e) = TimeStamp (ID d)"
    using assms by (simp add: peer_store_def peer_entry_def)
  then show ?thesis
    using peer_update [OF assms(1-3), of now] assms(4) by (simp add: rank_of_less)
qed

theorem merge_ignores_state_order_witness:
  "let s = put_entry (NewStore (at_wall 5) (node 1 7) ((Defaults ''h'')\<lparr>cTSuspect := 1\<rparr>))
             (sample 2 3 StateLeft 4)
   in Get (updateMemberEntry (at_wall 9) s (sample 2 3 StateAlive 5)) (node 2 7) = Some (sample 2 3 StateAlive 5) \<and>
      updateMemberEntry (at_wall 9) s (sample 2 3 StateFailed 4) = s"
proof -
  let ?s = "put_entry (NewStore (at_wall 5) (node 1 7) ((Defaults ''h'')\<lparr>cTSuspect := 1\<rparr>))
             (sample 2 3 StateLeft 4)"
  have s: "peer_store (node 1 7) 1 (\<lambda>_. 7) ?s"
    by (simp add: peer_store_def put_entry_def NewStore_def)
  have d: "entries ?s (key_of (ID (sample 2 3 st w))) = Some (sample 2 3 StateLeft 4)" for st w
    by (simp add: put_entry_def)
  have p: "peer_entry (node 1 7) (\<lambda>_. 7) (sample 2 3 st w)" for st w
    by (simp add: sample_peer)
  show ?thesis
    using merge_ignores_state_order [OF s p d, of StateAlive 5 "at_wall 9"]
      merge_ignores_state_order [OF s p d, of StateFailed 4 "at_wall 9"]
    by (simp add: Get_def put_entry_def)
qed

text \<open>Facts about the local node's own entry, under incarnations that do not wrap around.\<close>

lemma unat_next: "unat (x :: u64) + 1 < 2 ^ 64 \<Longrightarrow> unat (x + 1) = unat x + 1"
  by (simp add: unat_word_ariths)

definition doubts :: "State \<Rightarrow> bool" where
  "doubts st \<longleftrightarrow> st = StateSuspect \<or> st = StateFailed"

text \<open>An entry that speaks about the local node, in its current boot, not beyond its incarnation.\<close>

definition bounded_claim :: "NodeID \<Rightarrow> u64 \<Rightarrow> MemberEntry \<Rightarrow> bool" where
  "bounded_claim me inc e \<longleftrightarrow>
     wire_entry e \<and> (key_of (ID e) = key_of me \<longrightarrow> ID e = me \<and> Incarnation e \<le> inc)"

lemma update_own_entry:
  assumes "cTSuspect (config s) \<noteq> 0" and "entries s (key_of (selfID s)) = Some d" and "ID d = selfID s"
    and "\<not> doubts (EState d)" and "bounded_claim (selfID s) (Incarnation d) e"
    and "unat (Incarnation d) + 1 < 2 ^ 64"
  shows "\<exists>d'. entries (updateMemberEntry now s e) (key_of (selfID s)) = Some d' \<and> ID d' = selfID s \<and>
     \<not> doubts (EState d') \<and> Incarnation d \<le> Incarnation d' \<and>
     unat (Incarnation d') \<le> unat (Incarnation d) + 1"
proof (cases "key_of (ID e) = key_of (selfID s)")
  case False
  then show ?thesis using assms by (simp add: updateMemberEntry_other)
next
  case True
  then have e: "ID e = selfID s" "Incarnation e \<le> Incarnation d" "wire_entry e"
    using assms(5) by (auto simp: bounded_claim_def)
  have next_inc: "Incarnation d \<le> Incarnation d + 1"
    using unat_next [OF assms(6)] by (simp add: word_le_nat_alt)
  have look: "entries (updateMemberEntry now s e) (key_of (selfID s)) = Some (merged now s e)"
    using updateMemberEntry_entries [OF e(3)] e(1) by simp
  have "merged now s e = d\<lparr>Incarnation := Incarnation d + 1, LastUpdate := now, EState := StateAlive\<rparr>
      \<or> merged now s e = d \<or> merged now s e = e \<and> \<not> accuses s d e \<and> Incarnation e = Incarnation d"
    using assms(1-3) e by (auto simp: merged_def rank_of_less)
  then show ?thesis
  proof (elim disjE conjE)
    assume "merged now s e = e" "\<not> accuses s d e" "Incarnation e = Incarnation d"
    then show ?thesis using look e assms(1,3) by (simp add: accuses_def doubts_def)
  next
    assume "merged now s e = d"
    then show ?thesis using look assms by simp
  next
    assume "merged now s e = d\<lparr>Incarnation := Incarnation d + 1, LastUpdate := now, EState := StateAlive\<rparr>"
    then show ?thesis using look assms(3) next_inc unat_next [OF assms(6)] by (simp add: doubts_def)
  qed
qed

text \<open>
  C3. With suspicion enabled a node never believes its own death. If the merged entries that are filed under
  its endpoint speak about its current boot and not beyond its incarnation, and the incarnation does
  not wrap around at \<open>2^64\<close> meanwhile, then no list of them makes its own entry, which was neither before, Suspect
  or Failed, and its incarnation never decreases. (With suspicion disabled, \<open>TSuspect = 0\<close>, as in the default
  configuration, there are no refutations, and a Failed entry with a later heartbeat replaces the own
  entry.)
\<close>

theorem merge_never_believes_own_death:
  assumes "cTSuspect (config s) \<noteq> 0"
    and "entries s (key_of (selfID s)) = Some d" and "ID d = selfID s" and "\<not> doubts (EState d)"
    and "list_all (bounded_claim (selfID s) (Incarnation d)) es"
    and "unat (Incarnation d) + length es < 2 ^ 64"
  shows "\<exists>d'. entries (MergeFullList clk s es) (key_of (selfID s)) = Some d' \<and> ID d' = selfID s \<and>
     \<not> doubts (EState d') \<and> Incarnation d \<le> Incarnation d'"
  using assms
proof (induction es arbitrary: clk s d)
  case Nil
  then show ?case by simp
next
  case (Cons e es)
  let ?s = "updateMemberEntry (clk 0) s e"
  obtain d1 where d1: "entries ?s (key_of (selfID s)) = Some d1" "ID d1 = selfID s"
    "\<not> doubts (EState d1)" "Incarnation d \<le> Incarnation d1"
    "unat (Incarnation d1) \<le> unat (Incarnation d) + 1"
    using update_own_entry [OF Cons.prems(1-4), of e "clk 0"] Cons.prems(5,6) by auto
  have "bounded_claim (selfID s) (Incarnation d) f \<Longrightarrow> bounded_claim (selfID s) (Incarnation d1) f" for f
    using d1(4) by (auto simp: bounded_claim_def intro: order_trans)
  then have "list_all (bounded_claim (selfID ?s) (Incarnation d1)) es"
    using Cons.prems(5) by (auto simp: list_all_iff)
  moreover have "unat (Incarnation d1) + length es < 2 ^ 64"
    using Cons.prems(6) d1(5) by simp
  ultimately obtain d2 where "entries (MergeFullList (\<lambda>i. clk (Suc i)) ?s es) (key_of (selfID s)) = Some d2"
    "ID d2 = selfID s" "\<not> doubts (EState d2)" "Incarnation d1 \<le> Incarnation d2"
    using Cons.IH [of ?s d1 "\<lambda>i. clk (Suc i)"] Cons.prems(1) d1 by auto
  with d1(4) show ?case by (auto intro: order_trans)
qed

theorem merge_never_believes_own_death_witness:
  "let s = NewStore (at_wall 5) (node 1 7) ((Defaults ''h'')\<lparr>cTSuspect := 1\<rparr>)
   in \<exists>d'. entries (MergeFullList (\<lambda>_. at_wall 9) s [sample 1 100 StateSuspect 4, sample 1 100 StateFailed 6])
             (key_of (node 1 7)) = Some d' \<and> \<not> doubts (EState d') \<and> 100 \<le> Incarnation d'"
proof -
  let ?s = "NewStore (at_wall 5) (node 1 7) ((Defaults ''h'')\<lparr>cTSuspect := 1\<rparr>)"
  let ?d = "\<lparr>ID = node 1 7, Incarnation = 100, EState = StateAlive, LastUpdate = at_wall 5\<rparr>"
  have s: "selfID ?s = node 1 7" "cTSuspect (config ?s) \<noteq> 0"
    "entries ?s (key_of (node 1 7)) = Some ?d"
    by (simp_all add: NewStore_def)
  have claims: "list_all (bounded_claim (node 1 7) 100) [sample 1 100 StateSuspect 4, sample 1 100 StateFailed 6]"
    by (simp add: bounded_claim_def)
  show ?thesis
    using merge_never_believes_own_death [of ?s ?d "[sample 1 100 StateSuspect 4, sample 1 100 StateFailed 6]" "(\<lambda>_. at_wall 9)"]
      s claims by (auto simp: doubts_def)
qed

text \<open>
  C4. With suspicion enabled on both sides, the refutation reaches the accuser. If a peer holds the node
  Suspect or Failed at exactly the node's own incarnation, which is not the largest one, and the two
  exchange these entries over the wire, then the node answers with the next incarnation and the peer
  takes it back: it holds the node Alive at that incarnation.
\<close>

theorem refutation_reaches_accuser:
  assumes "cTSuspect (config p) \<noteq> 0" and "cTSuspect (config q) \<noteq> 0" and "selfID q \<noteq> selfID p"
    and "entries p (key_of (selfID p)) = Some d" and "ID d = selfID p"
    and "entries q (key_of (selfID p)) = Some a" and "ID a = selfID p" and "doubts (EState a)"
    and "Incarnation a = Incarnation d" and "unat (Incarnation d) + 1 < 2 ^ 64"
  shows "\<exists>r. entries (updateMemberEntry now p (on_wire a)) (key_of (selfID p)) = Some r \<and> EState r = StateAlive \<and>
             Incarnation r = Incarnation d + 1 \<and>
             entries (updateMemberEntry now' q (on_wire r)) (key_of (selfID p)) = Some (on_wire r)"
proof -
  let ?r = "d\<lparr>Incarnation := Incarnation d + 1, LastUpdate := now, EState := StateAlive\<rparr>"
  have "accuses p d (on_wire a)" using assms(1,5,7-9) by (simp add: accuses_def doubts_def)
  then have "merged now p (on_wire a) = ?r"
    using assms(4,5,7) by (simp add: merged_def)
  then have p': "entries (updateMemberEntry now p (on_wire a)) (key_of (selfID p)) = Some ?r"
    using assms(7) by (simp add: updateMemberEntry_entries)
  have "Incarnation a < Incarnation d + 1"
    using unat_next [OF assms(10)] assms(9) by (simp add: word_less_nat_alt)
  then have "rank_of (cTSuspect (config q)) a < rank_of (cTSuspect (config q)) (on_wire ?r)"
    using assms(2,5,7) by (simp add: rank_of_less)
  moreover have "\<not> accuses q a (on_wire ?r)"
    using assms(3,5) by (simp add: accuses_def)
  ultimately have "merged now' q (on_wire ?r) = on_wire ?r"
    using assms(5,6,7) by (simp add: merged_def)
  then have "entries (updateMemberEntry now' q (on_wire ?r)) (key_of (selfID p)) = Some (on_wire ?r)"
    using assms(5) by (simp add: updateMemberEntry_entries)
  with p' show ?thesis by (intro exI [of _ ?r]) simp
qed

theorem refutation_reaches_accuser_witness:
  "let c = (Defaults ''h'')\<lparr>cTSuspect := 1\<rparr>; p = NewStore (at_wall 5) (node 1 7) c;
       q = put_entry (NewStore (at_wall 5) (node 2 7) c) (sample 1 100 StateSuspect 4);
       p' = updateMemberEntry (at_wall 8) p (on_wire (sample 1 100 StateSuspect 4))
   in \<exists>r. entries p' (key_of (node 1 7)) = Some r \<and> EState r = StateAlive \<and> Incarnation r = 101 \<and>
          Get (updateMemberEntry (at_wall 9) q (on_wire r)) (node 1 7) = Some (on_wire r)"
proof -
  let ?c = "(Defaults ''h'')\<lparr>cTSuspect := 1\<rparr>"
  let ?p = "NewStore (at_wall 5) (node 1 7) ?c"
    and ?q = "put_entry (NewStore (at_wall 5) (node 2 7) ?c) (sample 1 100 StateSuspect 4)"
  let ?d = "\<lparr>ID = node 1 7, Incarnation = 100, EState = StateAlive, LastUpdate = at_wall 5\<rparr>"
    and ?a = "sample 1 100 StateSuspect 4"
  have n: "selfID (NewStore t n c) = n" "config (NewStore t n c) = c" for t n c
    by (simp_all add: NewStore_def)
  have e: "entries ?p (key_of (node 1 7)) = Some ?d" "entries ?q (key_of (node 1 7)) = Some ?a"
    by (simp_all add: NewStore_def put_entry_def)
  have "node 2 7 \<noteq> node 1 7" by (simp add: node_def)
  then show ?thesis
    unfolding Let_def Get_def
    using refutation_reaches_accuser [of ?p ?q ?d ?a "at_wall 8" "at_wall 9"] e
    by (simp add: n doubts_def)
qed

end
