(* ===== verification/StoreProps.thy ===== *)
theory StoreProps
  imports MergeProps "HOL-Library.Multiset"
begin

text \<open>
  The properties of the store that span several operations: snapshots, applying a state twice, and the
  agreement that one exchange of full lists between two nodes establishes
  (\<open>src/pkg/store/membership.go\<close> as used by the two protocol loops).
\<close>

section \<open>Snapshots and applied states\<close>

text \<open>
  A snapshot lists every member exactly once, in some order that the runtime chooses: two
  snapshots in different orders are permutations of each other and leave the same store. It refreshes
  the heartbeat of the local entry, unless that has left, and changes nothing else, not even the
  version.
\<close>

theorem snapshot_specification:
  assumes "iteration ord (entries s)" and "iteration ord' (entries s)"
  shows "mset (fst (Snapshot now ord s)) = mset (fst (Snapshot now ord' s)) \<and>
     snd (Snapshot now ord s) = snd (Snapshot now ord' s) \<and>
     length (fst (Snapshot now ord s)) = Size s \<and>
     version (snd (snd (Snapshot now ord s))) = version s \<and>
     (\<forall>k. entries (snd (snd (Snapshot now ord s))) k =
        (case entries s k of
           Some e \<Rightarrow> if ID e = selfID s \<and> EState e \<noteq> StateLeft then Some (e\<lparr>LastUpdate := now\<rparr>) else Some e
         | None \<Rightarrow> None))"
proof -
  have "mset ord = mset ord'"
    using assms by (simp add: iteration_def set_eq_iff_mset_eq_distinct [symmetric])
  then have "mset (fst (Snapshot now ord s)) = mset (fst (Snapshot now ord' s))"
    by (simp add: Snapshot_eq [OF assms(1)] Snapshot_eq [OF assms(2)])
  moreover have "snd (Snapshot now ord s) = snd (Snapshot now ord' s)"
    by (simp add: Snapshot_eq [OF assms(1)] Snapshot_eq [OF assms(2)])
  moreover have "entries (snd (snd (Snapshot now ord s))) k =
        (case entries s k of
           Some e \<Rightarrow> if ID e = selfID s \<and> EState e \<noteq> StateLeft then Some (e\<lparr>LastUpdate := now\<rparr>) else Some e
         | None \<Rightarrow> None)" for k
    using assms(1) by (simp add: touch_def split: option.split)
  ultimately show ?thesis
    using Snapshot_list_length [OF assms(1), of now] assms by simp
qed

theorem snapshot_specification_witness:
  "let s = two_nodes (Defaults ''h'') StateAlive 15
   in mset (fst (Snapshot (at_wall 20) two_keys s)) = mset (fst (Snapshot (at_wall 20) (rev two_keys) s))"
proof -
  let ?s = "two_nodes (Defaults ''h'') StateAlive 15"
  have i: "iteration two_keys (entries ?s)" by simp
  then have "iteration (rev two_keys) (entries ?s)" by (simp add: iteration_def)
  with i show ?thesis
    unfolding Let_def using snapshot_specification [of two_keys ?s "rev two_keys", where now = "at_wall 20"] by blast
qed

text \<open>
  Applying a state is idempotent on the membership map only: the comment on the Apply functions
  promises that the version is increased by effective changes only, but a second identical call
  changes no entry (at the same clock reading) and increases the version again.
\<close>

theorem apply_version_not_idempotent:
  assumes "entries s (key_of n) = Some e"
  shows "entries (ApplyLocked now (ApplyLocked now s n inc st) n inc st) = entries (ApplyLocked now s n inc st) \<and>
     version (ApplyLocked now (ApplyLocked now s n inc st) n inc st) = version (ApplyLocked now s n inc st) + 1 \<and>
     Get (ApplyLocked now s n inc st) n =
       Some (e\<lparr>Incarnation := inc, EState := st,
               LastUpdate := (if st = StateAlive \<or> st = StateLeft then now else LastUpdate e)\<rparr>)"
  using assms by (cases e) (auto simp: ApplyLocked_def apply_entry_def Let_def Get_def)

theorem apply_version_not_idempotent_witness:
  "let s = ApplyLocked (at_wall 9) (two_nodes (Defaults ''h'') StateAlive 5) (node 2 7) 100 StateFailed
   in version (ApplyLocked (at_wall 9) s (node 2 7) 100 StateFailed) = version s + 1"
  unfolding Let_def
  using apply_version_not_idempotent [of "two_nodes (Defaults ''h'') StateAlive 5" "node 2 7"] by simp

section \<open>One exchange of lists\<close>

text \<open>
  A store between failures: every entry belongs to the boot \<open>B\<close> of its endpoint and none says that
  one of the nodes \<open>N\<close> is Suspect or Failed.
\<close>

definition calm :: "NodeID set \<Rightarrow> (string \<Rightarrow> u64) \<Rightarrow> (string \<Rightarrow> MemberEntry option) \<Rightarrow> bool" where
  "calm N B m \<longleftrightarrow>
     (\<forall>k e. m k = Some e \<longrightarrow> k = key_of (ID e) \<and> TimeStamp (ID e) = B k \<and> \<not> (ID e \<in> N \<and> doubts (EState e)))"

text \<open>The list that a node sends: a snapshot, as its peer reads it from the wire.\<close>

definition sent_list :: "gotime \<Rightarrow> string list \<Rightarrow> Store \<Rightarrow> MemberEntry list" where
  "sent_list now ord s = map on_wire (fst (Snapshot now ord s))"

lemma calm_touched: "calm N B (entries s) \<Longrightarrow> calm N B (entries (touched now s))"
  by (auto simp: calm_def)

lemma sent_calm:
  assumes "iteration ord (entries s)" and "calm N B (entries s)" and "me \<in> N"
  shows "list_all (peer_entry me B) (sent_list now ord s)"
proof -
  have "peer_entry me B (on_wire e)" if "e \<in> set (fst (Snapshot now ord s))" for e
  proof -
    from that have "\<exists>k. entries (touched now s) k = Some e"
      by (rule iffD1 [OF Snapshot_list_set [OF assms(1)]])
    then obtain k where "entries (touched now s) k = Some e" ..
    then have "k = key_of (ID e)" "TimeStamp (ID e) = B k" "\<not> (ID e \<in> N \<and> doubts (EState e))"
      using calm_touched [OF assms(2), of now] unfolding calm_def by blast+
    with assms(3) show ?thesis by (auto simp: peer_entry_def doubts_def)
  qed
  then show ?thesis by (simp add: sent_list_def list_all_iff)
qed

lemma sent_rank:
  assumes "iteration ord (entries s)" and "calm N B (entries s)"
  shows "entries (touched now s) k = Some e \<Longrightarrow> \<exists>f \<in> set (sent_list now ord s). key_of (ID f) = k \<and> f = on_wire e"
    and "f \<in> set (sent_list now ord s) \<Longrightarrow>
      \<exists>e. entries (touched now s) (key_of (ID f)) = Some e \<and> f = on_wire e"
proof -
  have k: "k = key_of (ID e)" if "entries (touched now s) k = Some e" for k e
    using that calm_touched [OF assms(2), of now] unfolding calm_def by blast
  show "entries (touched now s) k = Some e \<Longrightarrow> \<exists>f \<in> set (sent_list now ord s). key_of (ID f) = k \<and> f = on_wire e"
  proof -
    assume e: "entries (touched now s) k = Some e"
    then have "e \<in> set (fst (Snapshot now ord s))" using Snapshot_list_set [OF assms(1)] by blast
    then have "on_wire e \<in> set (sent_list now ord s)" by (simp add: sent_list_def)
    moreover have "key_of (ID (on_wire e)) = k" using k [OF e] by simp
    ultimately show ?thesis by blast
  qed
  show "f \<in> set (sent_list now ord s) \<Longrightarrow>
      \<exists>e. entries (touched now s) (key_of (ID f)) = Some e \<and> f = on_wire e"
  proof -
    assume "f \<in> set (sent_list now ord s)"
    then obtain e where f: "f = on_wire e" and "e \<in> set (fst (Snapshot now ord s))"
      by (auto simp: sent_list_def)
    then obtain j where j: "entries (touched now s) j = Some e"
      using Snapshot_list_set [OF assms(1)] by blast
    then have "j = key_of (ID f)" using k f by simp
    with j f show ?thesis by blast
  qed
qed

lemma calm_merge:
  assumes "peer_store me t B s" and "list_all (peer_entry me B) es" and "calm N B (entries s)"
    and "\<forall>e \<in> set es. \<not> (ID e \<in> N \<and> doubts (EState e))"
  shows "calm N B (entries (MergeFullList clk s es))"
proof -
  have "k = key_of (ID d) \<and> TimeStamp (ID d) = B k \<and> \<not> (ID d \<in> N \<and> doubts (EState d))"
    if "entries (MergeFullList clk s es) k = Some d" for k d
  proof -
    have "entries (foldl (updateMemberEntry (clk 0)) s es) k = Some d"
      using that MergeFullList_foldl [OF assms(1,2), of clk "clk 0"] by simp
    then have "d \<in> mrg.candidates s es k"
      by (rule mrg.foldl_look_Some(1) [OF assms(1,2)])
    then consider "entries s k = Some d" | "d \<in> set es" "key_of (ID d) = k"
      by (auto simp: mrg.candidates_def)
    then show ?thesis
    proof cases
      case 1
      with assms(3) show ?thesis unfolding calm_def by blast
    next
      case 2
      then have "peer_entry me B d" using assms(2) by (simp add: list_all_iff)
      with 2 assms(4) show ?thesis by (auto simp: peer_entry_def)
    qed
  qed
  then show ?thesis unfolding calm_def by blast
qed

lemma merge_rank_above:
  assumes "peer_store me t B s" and "list_all (peer_entry me B) es"
    and "c \<in> mrg.candidates s es k"
  shows "\<exists>d. entries (MergeFullList clk s es) k = Some d \<and> rank_of t c \<le> rank_of t d"
proof -
  have e: "MergeFullList clk s es = foldl (updateMemberEntry (clk 0)) s es"
    by (rule MergeFullList_foldl [OF assms(1,2)])
  then obtain d where d: "entries (foldl (updateMemberEntry (clk 0)) s es) k = Some d"
    using mrg.foldl_look_None [OF assms(1,2), of "clk 0" k] assms(3) by auto
  then show ?thesis
    using mrg.foldl_look_Some(2) [OF assms(1,2) d assms(3)] e by auto
qed

lemma peer_store_touched [simp]: "peer_store me t B s \<Longrightarrow> peer_store me t B (touched now s)"
  by (auto simp: peer_store_def)

lemma rank_opt_antisym:
  assumes "\<And>d. m k = Some d \<Longrightarrow> \<exists>e. n k = Some e \<and> rank_of t d \<le> rank_of t e"
    and "\<And>e. n k = Some e \<Longrightarrow> \<exists>d. m k = Some d \<and> rank_of t e \<le> rank_of t d"
  shows "map_option (rank_of t) (m k) = map_option (rank_of t) (n k)"
  using assms by (cases "m k"; cases "n k") (auto intro: order.antisym)

text \<open>
  The heart of the agreement: \<open>p\<close> merges a list that says everything its peer knows, and its peer knows
  everything that \<open>p\<close> knew.
\<close>

lemma merge_back_agrees:
  assumes p: "peer_store me t B p" and es: "list_all (peer_entry me B) es"
    and above: "\<And>k d. entries p k = Some d \<Longrightarrow> \<exists>e. m k = Some e \<and> rank_of t d \<le> rank_of t e"
    and said: "\<And>k e. m k = Some e \<Longrightarrow> \<exists>f \<in> set es. key_of (ID f) = k \<and> f = on_wire e"
    and known: "\<And>f. f \<in> set es \<Longrightarrow> \<exists>e. m (key_of (ID f)) = Some e \<and> f = on_wire e"
  shows "map_option (rank_of t) (entries (MergeFullList clk p es) k) = map_option (rank_of t) (m k)"
proof (rule rank_opt_antisym)
  fix d
  assume "entries (MergeFullList clk p es) k = Some d"
  then have "entries (foldl (updateMemberEntry (clk 0)) p es) k = Some d"
    using MergeFullList_foldl [OF p es, of clk "clk 0"] by simp
  then have "d \<in> mrg.candidates p es k" by (rule mrg.foldl_look_Some(1) [OF p es])
  then consider "entries p k = Some d" | "d \<in> set es" "key_of (ID d) = k"
    by (auto simp: mrg.candidates_def)
  then show "\<exists>e. m k = Some e \<and> rank_of t d \<le> rank_of t e"
    using above known by cases fastforce+
next
  fix e
  assume "m k = Some e"
  then obtain f where f: "f \<in> set es" "key_of (ID f) = k" "f = on_wire e" using said by blast
  then have "f \<in> mrg.candidates p es k" by (simp add: mrg.candidates_def)
  then obtain d where "entries (MergeFullList clk p es) k = Some d" "rank_of t f \<le> rank_of t d"
    using merge_rank_above [OF p es] by blast
  with f(3) show "\<exists>d. entries (MergeFullList clk p es) k = Some d \<and> rank_of t e \<le> rank_of t d"
    by auto
qed

text \<open>A snapshot moves no heartbeat back, if the clock has not gone back.\<close>

lemma touch_rank_up:
  assumes "calm M B (entries s)" and "selfID s = me" and "entries s k = Some e"
    and "\<And>e. entries s (key_of me) = Some e \<Longrightarrow> wall (LastUpdate e) \<le> wall now"
  shows "\<exists>f. entries (touched now s) k = Some f \<and> rank_of t e \<le> rank_of t f"
proof -
  have k: "k = key_of (ID e)" using assms(1,3) unfolding calm_def by blast
  have "rank_of t e \<le> rank_of t (touch now me e)"
  proof (cases "ID e = me \<and> EState e \<noteq> StateLeft")
    case True
    then have "wall (LastUpdate e) \<le> wall now" using assms(4) [of e] assms(3) k by simp
    with True show ?thesis by (simp add: touch_def rank_of_def less_eq_rank_def)
  next
    case False
    then show ?thesis by (simp only: touch_def if_False order.refl)
  qed
  with assms(2,3) show ?thesis by simp
qed

text \<open>
  C8. After one exchange of full lists two nodes know the same members, and for each the same boot,
  incarnation and heartbeat (but perhaps not the same state). Let \<open>p\<close> send its snapshot to \<open>q\<close>, which merges it
  and answers with its own, as a ping and its ack do. If both stores are calm (one boot per endpoint,
  no accusations of either node) and the clock with which \<open>q\<close> stamps its own entry does not run behind
  the heartbeat it has for itself, then afterwards both nodes know the same members and hold for each
  the same boot, incarnation (when suspicion is enabled) and heartbeat. The states may differ, since a
  scan marks a member Suspect or Failed without a new heartbeat.
\<close>

theorem exchange_agreement:
  assumes "peer_store np t B p" and "iteration ordp (entries p)" and "calm {np, nq} B (entries p)"
    and "peer_store nq t B q" and "calm {np, nq} B (entries q)"
    and "q' = MergeFullList clkq q (sent_list nowp ordp p)" and "iteration ordq (entries q')"
    and "\<And>e. entries q' (key_of nq) = Some e \<Longrightarrow> wall (LastUpdate e) \<le> wall nowq"
    and "p' = MergeFullList clkp (touched nowp p) (sent_list nowq ordq q')"
  shows "map_option (rank_of t) (entries p' k) = map_option (rank_of t) (entries (touched nowq q') k)"
proof -
  have lp: "list_all (peer_entry nq B) (sent_list nowp ordp p)"
    using assms(2,3) by (rule sent_calm) simp
  have "\<not> (ID e \<in> {np, nq} \<and> doubts (EState e))" if e: "e \<in> set (sent_list nowp ordp p)" for e
  proof -
    obtain d where "entries (touched nowp p) (key_of (ID e)) = Some d" "e = on_wire d"
      using sent_rank(2) [OF assms(2,3), of e nowp] e by blast
    then show ?thesis using calm_touched [OF assms(3), of nowp] unfolding calm_def by auto
  qed
  then have q': "calm {np, nq} B (entries q')"
    unfolding assms(6) using calm_merge [OF assms(4) lp assms(5)] by blast
  have lq: "list_all (peer_entry np B) (sent_list nowq ordq q')"
    using assms(7) q' by (rule sent_calm) simp
  have self: "selfID q' = nq" using assms(4,6) by (simp add: peer_store_def)
  have touch_up: "\<exists>f. entries (touched nowq q') k = Some f \<and> rank_of t e \<le> rank_of t f"
    if "entries q' k = Some e" for k e
    using touch_rank_up [OF q' self that] assms(8) by blast
  show ?thesis
    unfolding assms(9)
  proof (rule merge_back_agrees [OF _ lq])
    show "peer_store np t B (touched nowp p)" using assms(1) by simp
    show "\<exists>e. entries (touched nowq q') k = Some e \<and> rank_of t d \<le> rank_of t e"
      if d: "entries (touched nowp p) k = Some d" for k d
    proof -
      obtain f where "f \<in> set (sent_list nowp ordp p)" "key_of (ID f) = k" "f = on_wire d"
        using sent_rank(1) [OF assms(2,3) d] by blast
      then have "f \<in> mrg.candidates q (sent_list nowp ordp p) k" by (simp add: mrg.candidates_def)
      then obtain e where e: "entries q' k = Some e" "rank_of t d \<le> rank_of t e"
        using merge_rank_above [OF assms(4) lp, of f k clkq] \<open>f = on_wire d\<close> assms(6) by auto
      show ?thesis using touch_up [OF e(1)] e(2) by (auto intro: order_trans)
    qed
    show "\<exists>f \<in> set (sent_list nowq ordq q'). key_of (ID f) = k \<and> f = on_wire e"
      if "entries (touched nowq q') k = Some e" for k e
      using sent_rank(1) [OF assms(7) q' that] .
    show "\<exists>e. entries (touched nowq q') (key_of (ID f)) = Some e \<and> f = on_wire e"
      if "f \<in> set (sent_list nowq ordq q')" for f
      using sent_rank(2) [OF assms(7) q' that] .
  qed
qed

theorem exchange_agreement_witness:
  "let c = (Defaults ''h'')\<lparr>cTSuspect := 1\<rparr>; p = two_nodes c StateAlive 4; q = NewStore (at_wall 6) (node 2 7) c;
       q' = MergeFullList (\<lambda>_. at_wall 9) q (sent_list (at_wall 8) two_keys p);
       p' = MergeFullList (\<lambda>_. at_wall 9) (touched (at_wall 8) p) (sent_list (at_wall 10) two_keys q')
   in map_option (rank_of (cTSuspect c)) (entries p' (key_of (node 2 7))) = Some (Rank 7 100 10)"
proof -
  let ?c = "(Defaults ''h'')\<lparr>cTSuspect := 1\<rparr>"
  let ?t = "cTSuspect ?c"
  let ?p = "two_nodes ?c StateAlive 4" and ?q = "NewStore (at_wall 6) (node 2 7) ?c"
  let ?q' = "MergeFullList (\<lambda>_. at_wall 9) ?q (sent_list (at_wall 8) two_keys ?p)"
  have n: "node 1 7 \<noteq> node 2 7" by simp
  have l: "sent_list (at_wall 8) two_keys ?p = [sample 1 100 StateAlive 8, sample 2 100 StateAlive 4]"
    by (simp add: sent_list_def Snapshot_eq two_keys_def [symmetric])
       (simp add: two_keys_def two_nodes_entries touch_def on_wire_def sample_def at_wall_def strip_mono_def)
  have q': "entries ?q' = [key_of (node 2 7) \<mapsto> sample 2 100 StateAlive 6, key_of (node 1 7) \<mapsto> sample 1 100 StateAlive 8]"
    by (simp add: l updateMemberEntry_def NewStore_def put_entry_def time_After_wall)
       (simp add: sample_def)
  have p: "peer_store (node 1 7) ?t (\<lambda>_. 7) ?p" "calm {node 1 7, node 2 7} (\<lambda>_. 7) (entries ?p)"
    by (auto simp: peer_store_def calm_def two_nodes_entries doubts_def)
  have q: "peer_store (node 2 7) ?t (\<lambda>_. 7) ?q" "calm {node 1 7, node 2 7} (\<lambda>_. 7) (entries ?q)"
    by (auto simp: peer_store_def calm_def NewStore_def doubts_def)
  have i: "iteration two_keys (entries ?q')"
    unfolding q' by (auto simp: iteration_def two_keys_def)
  have self: "selfID ?q' = node 2 7" by (simp add: NewStore_def)
  show ?thesis
    unfolding Let_def
    by (subst exchange_agreement [OF p(1) _ p(2) q refl i _ refl])
       (simp_all add: q' self [simplified] touch_def rank_of_def)
qed

end
