(* ===== verification/Inflights.thy ===== *)
theory Inflights
  imports Membership
begin

text \<open>
  The two helpers of \<open>src/pkg/protocol/common\<close>: the table of pings in flight (\<open>inflight.go\<close>) and the
  peer addresses of a member list (\<open>peers.go\<close>). Each operation of the table runs under its mutex, so
  it is one step; \<open>Expired\<close> takes the iteration order of the Go map as an argument.
\<close>

section \<open>The table of pings in flight\<close>

record ping_rec =
  dl :: gotime
  addr :: string

record ExpiredRec =
  Nonce :: u64
  EAddr :: string

type_synonym Inflight = "u64 \<Rightarrow> ping_rec option"

definition NewInflight :: Inflight where
  "NewInflight = (\<lambda>_. None)"

definition Add :: "gotime \<Rightarrow> u64 \<Rightarrow> Duration \<Rightarrow> string \<Rightarrow> Inflight \<Rightarrow> Inflight" where
  "Add now nonce ttl a m = m(nonce \<mapsto> \<lparr>dl = time_Add now ttl, addr = a\<rparr>)"

definition Done :: "u64 \<Rightarrow> Inflight \<Rightarrow> Inflight \<times> bool" where
  "Done nonce m = (m(nonce := None), m nonce \<noteq> None)"

fun expired_loop :: "gotime \<Rightarrow> u64 list \<Rightarrow> Inflight \<Rightarrow> Inflight \<times> ExpiredRec list" where
  "expired_loop now [] m = (m, [])"
| "expired_loop now (n # ns) m =
     (case m n of
        None \<Rightarrow> expired_loop now ns m
      | Some r \<Rightarrow>
          if time_After now (dl r)
          then (let (m', out) = expired_loop now ns (m(n := None))
                in (m', \<lparr>Nonce = n, EAddr = addr r\<rparr> # out))
          else expired_loop now ns m)"

definition Expired :: "gotime \<Rightarrow> u64 list \<Rightarrow> Inflight \<Rightarrow> Inflight \<times> ExpiredRec list" where
  "Expired now ord m = expired_loop now ord m"

definition Reset :: "Inflight \<Rightarrow> Inflight" where
  "Reset m = (\<lambda>_. None)"

text \<open>The pings whose deadline has passed, and the table without them.\<close>

definition overdue :: "gotime \<Rightarrow> Inflight \<Rightarrow> u64 \<Rightarrow> bool" where
  "overdue now m n \<longleftrightarrow> (case m n of None \<Rightarrow> False | Some r \<Rightarrow> time_After now (dl r))"

definition pending :: "gotime \<Rightarrow> Inflight \<Rightarrow> Inflight" where
  "pending now m = (\<lambda>n. if overdue now m n then None else m n)"

lemma overdue_upd [simp]: "overdue now (m(n := None)) j \<longleftrightarrow> j \<noteq> n \<and> overdue now m j"
  by (simp add: overdue_def)

lemma expired_loop_eq:
  "distinct ns \<Longrightarrow>
   expired_loop now ns m =
     ((\<lambda>n. if n \<in> set ns \<and> overdue now m n then None else m n),
      map (\<lambda>n. \<lparr>Nonce = n, EAddr = addr (the (m n))\<rparr>) (filter (overdue now m) ns))"
proof (induction ns arbitrary: m)
  case Nil
  then show ?case by simp
next
  case (Cons n ns)
  show ?case
  proof (cases "overdue now m n")
    case False
    then have "expired_loop now (n # ns) m = expired_loop now ns m"
      by (simp add: overdue_def split: option.splits)
    with Cons False show ?thesis by (auto simp: fun_eq_iff)
  next
    case True
    then obtain r where r: "m n = Some r" "time_After now (dl r)"
      by (auto simp: overdue_def split: option.splits)
    have f: "filter (overdue now (m(n := None))) ns = filter (overdue now m) ns"
      using Cons.prems by (intro filter_cong) auto
    have g: "map (\<lambda>j. \<lparr>Nonce = j, EAddr = addr (the ((m(n := None)) j))\<rparr>) (filter (overdue now m) ns) =
        map (\<lambda>j. \<lparr>Nonce = j, EAddr = addr (the (m j))\<rparr>) (filter (overdue now m) ns)"
      using Cons.prems by (intro map_cong) auto
    show ?thesis
      using Cons True r f g by (auto simp: fun_eq_iff)
  qed
qed

lemma Expired_eq:
  assumes "iteration ord m"
  shows "Expired now ord m =
     (pending now m, map (\<lambda>n. \<lparr>Nonce = n, EAddr = addr (the (m n))\<rparr>) (filter (overdue now m) ord))"
proof -
  have "overdue now m n \<Longrightarrow> n \<in> set ord" for n
    using assms by (auto simp: iteration_def overdue_def split: option.splits)
  then show ?thesis
    using assms by (auto simp: Expired_def expired_loop_eq iteration_def pending_def fun_eq_iff)
qed

lemma Expired_reports:
  "iteration ord m \<Longrightarrow> e \<in> set (snd (Expired now ord m)) \<longleftrightarrow>
     (\<exists>r. m (Nonce e) = Some r \<and> time_After now (dl r) \<and> EAddr e = addr r)"
  by (cases e) (auto simp: Expired_eq iteration_def overdue_def image_iff split: option.splits)

section \<open>Histories of the table\<close>

text \<open>
  A history is a sequence of operations, each with what the caller and the runtime supply;
  \<open>inflight_run\<close> performs it and lists what each call of \<open>Expired\<close> returns.
\<close>

datatype table_op =
    OpAdd gotime u64 Duration string
  | OpDone u64
  | OpExpired gotime "u64 list"
  | OpReset

fun inflight_op :: "Inflight \<Rightarrow> table_op \<Rightarrow> Inflight \<times> ExpiredRec list" where
  "inflight_op m (OpAdd now n ttl a) = (Add now n ttl a m, [])"
| "inflight_op m (OpDone n) = (fst (Done n m), [])"
| "inflight_op m (OpExpired now ord) = Expired now ord m"
| "inflight_op m OpReset = (Reset m, [])"

fun inflight_run :: "Inflight \<Rightarrow> table_op list \<Rightarrow> Inflight \<times> ExpiredRec list" where
  "inflight_run m [] = (m, [])"
| "inflight_run m (op # ops) =
     (let (m1, out1) = inflight_op m op; (m2, out2) = inflight_run m1 ops in (m2, out1 @ out2))"

fun legal_run :: "Inflight \<Rightarrow> table_op list \<Rightarrow> bool" where
  "legal_run m [] \<longleftrightarrow> True"
| "legal_run m (op # ops) \<longleftrightarrow>
     (case op of OpExpired _ ord \<Rightarrow> iteration ord m | _ \<Rightarrow> True) \<and> legal_run (fst (inflight_op m op)) ops"

text \<open>What a ping under a nonce waits for, read off the history alone, the latest operation first.\<close>

fun awaited :: "u64 \<Rightarrow> table_op list \<Rightarrow> ping_rec option" where
  "awaited n [] = None"
| "awaited n (OpAdd now j ttl a # h) =
     (if j = n then Some \<lparr>dl = time_Add now ttl, addr = a\<rparr> else awaited n h)"
| "awaited n (OpDone j # h) = (if j = n then None else awaited n h)"
| "awaited n (OpExpired now _ # h) =
     (case awaited n h of None \<Rightarrow> None | Some r \<Rightarrow> if time_After now (dl r) then None else Some r)"
| "awaited n (OpReset # h) = None"

lemma inflight_run_append:
  "inflight_run m (xs @ ys) =
     (let (m1, o1) = inflight_run m xs; (m2, o2) = inflight_run m1 ys in (m2, o1 @ o2))"
  by (induction m xs rule: inflight_run.induct) (simp_all split: prod.split)

lemma legal_run_append:
  "legal_run m (xs @ ys) \<longleftrightarrow> legal_run m xs \<and> legal_run (fst (inflight_run m xs)) ys"
  by (induction m xs rule: inflight_run.induct) (auto split: prod.split)

lemma inflight_table_history:
  "legal_run NewInflight ops \<Longrightarrow> fst (inflight_run NewInflight ops) n = awaited n (rev ops)"
proof (induction ops rule: rev_induct)
  case Nil
  then show ?case by (simp add: NewInflight_def)
next
  case (snoc op ops)
  let ?m = "fst (inflight_run NewInflight ops)"
  have IH: "?m n = awaited n (rev ops)"
    using snoc by (simp add: legal_run_append)
  have "fst (inflight_run NewInflight (ops @ [op])) = fst (inflight_op ?m op)"
    by (simp add: inflight_run_append split: prod.split)
  with snoc.prems IH show ?case
    by (cases op)
       (auto simp: legal_run_append Add_def Done_def Reset_def Expired_eq pending_def overdue_def
         split: option.splits)
qed

text \<open>
  C26. A timeout is reported exactly for the pings that are still unanswered: in any history, a call of
  \<open>Expired\<close> returns a nonce and its address if and only if the latest \<open>Add\<close> of that nonce was followed
  by no \<open>Done\<close> of it, no \<open>Reset\<close> and no earlier report, and its deadline has passed. Each nonce is
  returned once per call.
\<close>

theorem inflight_reports_unanswered:
  assumes "legal_run NewInflight (ops @ [OpExpired now ord])"
  shows "set (snd (Expired now ord (fst (inflight_run NewInflight ops)))) =
     {e. \<exists>r. awaited (Nonce e) (rev ops) = Some r \<and> time_After now (dl r) \<and> EAddr e = addr r} \<and>
     distinct (map Nonce (snd (Expired now ord (fst (inflight_run NewInflight ops)))))"
proof -
  let ?m = "fst (inflight_run NewInflight ops)"
  have ord: "iteration ord ?m" and ops: "legal_run NewInflight ops"
    using assms by (simp_all add: legal_run_append)
  have "map Nonce (snd (Expired now ord ?m)) = filter (overdue now ?m) ord"
    by (simp add: Expired_eq [OF ord] comp_def)
  then have "distinct (map Nonce (snd (Expired now ord ?m)))"
    using ord by (simp add: iteration_def)
  then show ?thesis
    using Expired_reports [OF ord] inflight_table_history [OF ops] by auto
qed

theorem inflight_reports_unanswered_witness:
  "let t = (\<lambda>i. \<lparr>wall = i, mono = Some i\<rparr>);
       ops = [OpAdd (t 0) 5 10 ''10.0.0.2:5000'', OpAdd (t 1) 6 10 ''10.0.0.3:5000'', OpDone 5]
   in \<lparr>Nonce = 6, EAddr = ''10.0.0.3:5000''\<rparr> \<in> set (snd (Expired (t 20) [6] (fst (inflight_run NewInflight ops))))"
proof -
  let ?t = "\<lambda>i. \<lparr>wall = i, mono = Some i\<rparr>"
  let ?ops = "[OpAdd (?t 0) 5 10 ''10.0.0.2:5000'', OpAdd (?t 1) 6 10 ''10.0.0.3:5000'', OpDone 5]"
  have "dom (fst (inflight_run NewInflight ?ops)) = {6}"
    by (simp add: NewInflight_def Add_def Done_def)
  then have l: "legal_run NewInflight (?ops @ [OpExpired (?t 20) [6]])"
    by (simp add: legal_run_append iteration_def NewInflight_def Add_def Done_def)
  have a: "awaited 6 (rev ?ops) = Some \<lparr>dl = ?t 11, addr = ''10.0.0.3:5000''\<rparr>"
    by (simp add: time_Add_def int64_defs)
  show ?thesis
    unfolding Let_def using inflight_reports_unanswered [OF l] a
    by (auto simp: time_defs sat64_def int64_defs)
qed

section \<open>The peers of a member list\<close>

fun ResolvePeersFromMemberList :: "MemberEntry list \<Rightarrow> NodeID \<Rightarrow> string list" where
  "ResolvePeersFromMemberList [] self = []"
| "ResolvePeersFromMemberList (e # es) self =
     (if ID e = self then ResolvePeersFromMemberList es self
      else key_of (ID e) # ResolvePeersFromMemberList es self)"

lemma ResolvePeers_eq:
  "ResolvePeersFromMemberList es self = map (\<lambda>e. key_of (ID e)) (filter (\<lambda>e. ID e \<noteq> self) es)"
  by (induction es) simp_all

lemma Snapshot_keys:
  assumes "store_inv s" and "iteration ord (entries s)"
  shows "map (\<lambda>e. key_of (ID e)) (fst (Snapshot now ord s)) = ord"
proof -
  have "key_of (ID (the (entries s k))) = k" if "k \<in> set ord" for k
  proof -
    obtain e where "entries s k = Some e" using \<open>k \<in> set ord\<close> assms(2) by (auto simp: iteration_def)
    with assms(1) show ?thesis by (simp add: store_invD)
  qed
  then show ?thesis by (simp add: Snapshot_eq [OF assms(2)] comp_def map_idI)
qed

text \<open>
  A loop never addresses itself nor the same peer twice: the peers resolved from a snapshot are
  pairwise distinct and are exactly the endpoints of the members other than the local node, in
  whatever state they are (members marked Failed or Left are still addressed).
\<close>

theorem peers_of_snapshot:
  assumes "store_inv s" and "iteration ord (entries s)"
  shows "distinct (ResolvePeersFromMemberList (fst (Snapshot now ord s)) (SelfID s)) \<and>
     set (ResolvePeersFromMemberList (fst (Snapshot now ord s)) (SelfID s)) =
       {k. \<exists>e. entries s k = Some e \<and> ID e \<noteq> selfID s}"
proof
  have "distinct (map (\<lambda>e. key_of (ID e)) (fst (Snapshot now ord s)))"
    using Snapshot_keys [OF assms] assms(2) by (simp add: iteration_def)
  then show "distinct (ResolvePeersFromMemberList (fst (Snapshot now ord s)) (SelfID s))"
    unfolding ResolvePeers_eq by (rule distinct_map_filter)
  show "set (ResolvePeersFromMemberList (fst (Snapshot now ord s)) (SelfID s)) =
      {k. \<exists>e. entries s k = Some e \<and> ID e \<noteq> selfID s}"
    using assms(1)
    by (force simp: ResolvePeers_eq Snapshot_list_set [OF assms(2)] SelfID_def store_invD)
qed

theorem peers_of_snapshot_witness:
  "let self = \<lparr>EP = \<lparr>IP = IPv4 10 0 0 1, Port = 5000\<rparr>, TimeStamp = 7\<rparr>;
       now = \<lparr>wall = 5, mono = None\<rparr>;
       s = put_entry (NewStore now self (Defaults ''h''))
             \<lparr>ID = \<lparr>EP = \<lparr>IP = IPv4 10 0 0 2, Port = 5000\<rparr>, TimeStamp = 7\<rparr>, Incarnation = 100,
              EState = StateFailed, LastUpdate = now\<rparr>
   in set (ResolvePeersFromMemberList (fst (Snapshot now [''10.0.0.1:5000'', ''10.0.0.2:5000''] s)) self)
      = {''10.0.0.2:5000''}"
proof -
  let ?self = "\<lparr>EP = \<lparr>IP = IPv4 10 0 0 1, Port = 5000\<rparr>, TimeStamp = 7\<rparr>"
    and ?now = "\<lparr>wall = 5, mono = None\<rparr>"
  let ?e = "\<lparr>ID = \<lparr>EP = \<lparr>IP = IPv4 10 0 0 2, Port = 5000\<rparr>, TimeStamp = 7\<rparr>, Incarnation = 100,
              EState = StateFailed, LastUpdate = ?now\<rparr>"
  let ?s = "put_entry (NewStore ?now ?self (Defaults ''h'')) ?e"
  have k: "key_of ?self = ''10.0.0.1:5000''" "key_of (ID ?e) = ''10.0.0.2:5000''"
    by (simp_all add: print_defs)
  have s: "store_inv ?s" by (simp add: store_inv_intros)
  have d: "entries ?s = [''10.0.0.1:5000'' \<mapsto> \<lparr>ID = ?self, Incarnation = 100, EState = StateAlive,
      LastUpdate = ?now\<rparr>, ''10.0.0.2:5000'' \<mapsto> ?e]"
    using k by (simp add: put_entry_def NewStore_def)
  have i: "iteration [''10.0.0.1:5000'', ''10.0.0.2:5000''] (entries ?s)"
    unfolding d by (auto simp: iteration_def)
  have self: "SelfID ?s = ?self" "selfID ?s = ?self" by (simp_all add: SelfID_def NewStore_def)
  show ?thesis
    unfolding Let_def using peers_of_snapshot [OF s i, of ?now] self
    by (auto simp: d split: if_splits)
qed

end
