(* ===== verification/Table_Pass.thy ===== *)
theory Table_Pass
  imports Main
begin

text \<open>
  The interface of a pass over a table: a loop over a copy of the entries in which every step reads
  and writes only the place of its own entry. The result of such a pass at each place is a function of
  the entry there, whatever the order of the loop. The suspicion manager's two passes over the
  membership list are instances.
\<close>

locale sweep =
  fixes step :: "'s \<Rightarrow> 'e \<Rightarrow> 's"
    and look :: "'s \<Rightarrow> 'k \<Rightarrow> 'e option"
    and key :: "'e \<Rightarrow> 'k"
    and effect :: "'e \<Rightarrow> 'e option"
    and ok :: "'s \<Rightarrow> bool"
  assumes look_step: "ok s \<Longrightarrow> look s (key e) = Some e \<Longrightarrow> look (step s e) = (look s)(key e := effect e)"
    and ok_step: "ok s \<Longrightarrow> look s (key e) = Some e \<Longrightarrow> ok (step s e)"
begin

definition filed :: "'s \<Rightarrow> 'e list \<Rightarrow> bool" where
  "filed s es \<longleftrightarrow> distinct (map key es) \<and> (\<forall>e \<in> set es. look s (key e) = Some e)"

lemma filed_step: "ok s \<Longrightarrow> filed s (e # es) \<Longrightarrow> filed (step s e) es"
proof -
  assume ok: "ok s" and f: "filed s (e # es)"
  then have e: "look s (key e) = Some e" and n: "key e \<notin> key ` set es" by (simp_all add: filed_def)
  have "look (step s e) (key d) = Some d" if "d \<in> set es" for d
  proof -
    have "key d \<in> key ` set es" using that by (rule imageI)
    with n have "key d \<noteq> key e" by metis
    then show ?thesis using f that by (simp add: look_step [OF ok e] filed_def)
  qed
  with f show "filed (step s e) es" by (simp add: filed_def)
qed

lemma ok_pass: "ok s \<Longrightarrow> filed s es \<Longrightarrow> ok (foldl step s es)"
proof (induction es arbitrary: s)
  case Nil
  then show ?case by simp
next
  case (Cons e es)
  then have "ok (step s e)" by (intro ok_step) (simp_all add: filed_def)
  with Cons show ?case by (simp add: filed_step)
qed

lemma pass_look:
  "ok s \<Longrightarrow> filed s es \<Longrightarrow>
   look (foldl step s es) k =
     (if k \<in> key ` set es then Option.bind (look s k) effect else look s k)"
proof (induction es arbitrary: s)
  case Nil
  then show ?case by simp
next
  case (Cons e es)
  have e: "look s (key e) = Some e" "key e \<notin> key ` set es" using Cons.prems(2) by (auto simp: filed_def)
  have "look (foldl step (step s e) es) k =
     (if k \<in> key ` set es then Option.bind (look (step s e) k) effect else look (step s e) k)"
    using Cons.prems by (intro Cons.IH ok_step filed_step) (simp_all add: e)
  then show ?case using e Cons.prems(1) by (auto simp: look_step)
qed

text \<open>A pass over the whole table.\<close>

lemma full_pass_look:
  assumes "ok s" and "filed s es" and "\<And>k e. look s k = Some e \<Longrightarrow> k \<in> key ` set es"
  shows "look (foldl step s es) k = Option.bind (look s k) effect"
  using pass_look [OF assms(1,2), of k] assms(3) by (cases "look s k") auto

end

end
