(* ===== verification/Suspicion.thy ===== *)
theory Suspicion
  imports Inflights Table_Pass
begin

text \<open>
  The suspicion manager, \<open>src/pkg/suspicion/manager.go\<close>: the periodic scan of the membership list that
  turns silence into Suspect, Failed and removal, and the handling of pings that were not answered.
  The fields \<open>St\<close> (the store) and \<open>Inflight\<close> (a table shared by address) are passed to the operations:
  the store as an argument, the tables as a heap indexed by their addresses. Sums of thresholds are
  sums of 64-bit integers and wrap around. \<open>os.Exit\<close> is an outcome of its own.
\<close>

section \<open>The manager\<close>

record Manager =
  TSuspect :: Duration
  TFail :: Duration
  TCleanup :: Duration
  UsePingTimeout :: bool
  MInflight :: "nat option"
  failMarks :: int

datatype 'a outcome = Exited | Running 'a

definition add64 :: "int \<Rightarrow> int \<Rightarrow> int" where
  "add64 a b = wrap64 (a + b)"

text \<open>
  One iteration of the second loop of \<open>scanOnce\<close>: the entry \<open>e\<close> of the snapshot is judged at time \<open>now\<close>
  and the store is updated; the counter of marks is carried along. \<open>clock\<close> is the reading that
  \<open>ApplyLocked\<close> makes; it is not used for the states set here.
\<close>

definition scan_entry ::
  "gotime \<Rightarrow> gotime \<Rightarrow> Duration \<Rightarrow> Duration \<Rightarrow> Duration \<Rightarrow> Store \<times> int \<Rightarrow> MemberEntry \<Rightarrow> Store \<times> int" where
  "scan_entry clock now tSuspect tFail tCleanup sm e =
     (let (s, marks) = sm; age = time_Sub now (LastUpdate e) in
      if EState e = StateLeft \<and> tCleanup \<le> age then (RemoveEntry s (ID e), marks)
      else if ID e = SelfID s then (s, marks)
      else if tSuspect \<noteq> 0 then
        (if add64 (add64 tSuspect tFail) tCleanup \<le> age then (RemoveEntry s (ID e), marks)
         else if add64 tSuspect tFail \<le> age \<and> (EState e = StateAlive \<or> EState e = StateSuspect)
           then (ApplyLocked clock s (ID e) (Incarnation e) StateFailed, wrap64 (marks + 1))
         else if tSuspect \<le> age \<and> EState e = StateAlive
           then (ApplyLocked clock s (ID e) (Incarnation e) StateSuspect, marks)
         else (s, marks))
      else
        (if add64 tFail tCleanup \<le> age then (RemoveEntry s (ID e), marks)
         else if tFail \<le> age \<and> EState e \<noteq> StateFailed
           then (ApplyLocked clock s (ID e) (Incarnation e) StateFailed, wrap64 (marks + 1))
         else (s, marks)))"

text \<open>
  \<open>scanOnce\<close>. \<open>snap\<close> is the reading that \<open>Snapshot\<close> makes and \<open>ord\<close> the order in which it iterates.
\<close>

definition scanOnce ::
  "gotime \<Rightarrow> gotime \<Rightarrow> string list \<Rightarrow> gotime \<Rightarrow> Duration \<Rightarrow> Duration \<Rightarrow> Duration \<Rightarrow> Store \<times> int \<Rightarrow>
   (Store \<times> int) outcome" where
  "scanOnce clock snap ord now tSuspect tFail tCleanup sm =
     (let (s, marks) = sm; (list, self, s1) = Snapshot snap ord s in
      case find (\<lambda>e. ID e = self \<and> EState e = StateLeft) list of
        Some e \<Rightarrow>
          if tCleanup \<le> time_Sub now (LastUpdate e) then Exited else Running (s1, marks)
      | None \<Rightarrow>
          Running (foldl (scan_entry clock now tSuspect tFail tCleanup) (s1, marks) list))"

text \<open>The inner loop of \<open>reapInflight\<close> for one expired ping, with its \<open>break\<close>.\<close>

fun reap_rec ::
  "gotime \<Rightarrow> bool \<Rightarrow> MemberEntry list \<Rightarrow> Store \<times> int \<Rightarrow> ExpiredRec \<Rightarrow> Store \<times> int" where
  "reap_rec clock disabled [] sm rec = sm"
| "reap_rec clock disabled (e # es) sm rec =
     (if key_of (ID e) = EAddr rec
      then (if disabled
            then (ApplyLocked clock (fst sm) (ID e) (Incarnation e) StateFailed, wrap64 (snd sm + 1))
            else (ApplyLocked clock (fst sm) (ID e) (Incarnation e) StateSuspect, snd sm))
      else reap_rec clock disabled es sm rec)"

definition reapInflight ::
  "gotime \<Rightarrow> gotime \<Rightarrow> string list \<Rightarrow> u64 list \<Rightarrow> gotime \<Rightarrow> Duration \<Rightarrow> Inflight \<Rightarrow> Store \<times> int \<Rightarrow>
   Inflight \<times> Store \<times> int" where
  "reapInflight clock snap ord nord now tSuspect m sm =
     (let (m', recs) = Expired now nord m in
      if recs = [] then (m', sm)
      else (let (list, _, s1) = Snapshot snap ord (fst sm)
            in (m', foldl (reap_rec clock (tSuspect = 0) list) (s1, snd sm) recs)))"

definition ManagerReconfigure :: "Duration \<Rightarrow> Duration \<Rightarrow> Duration \<Rightarrow> bool \<Rightarrow> Manager \<Rightarrow> Manager" where
  "ManagerReconfigure suspect fail cleanup useTO m =
     m\<lparr>TSuspect := suspect, TFail := fail, TCleanup := cleanup, UsePingTimeout := useTO\<rparr>"

text \<open>
  One tick of \<open>Run\<close>: the thresholds are read, the list is scanned, and in ping mode the expired pings
  are handled. The readings of the clock and the iteration orders are supplied in a record; the order
  of the second snapshot is that of the store it is taken from.
\<close>

record tick_env =
  t_now :: gotime
  t_clock :: gotime
  t_snap1 :: gotime
  t_ord1 :: "string list"
  t_snap2 :: gotime
  t_ord2 :: "string list"
  t_nonces :: "u64 list"

definition manager_tick ::
  "tick_env \<Rightarrow> Manager \<Rightarrow> (nat \<Rightarrow> Inflight) \<Rightarrow> Store \<Rightarrow> (Manager \<times> (nat \<Rightarrow> Inflight) \<times> Store) outcome" where
  "manager_tick v m h s =
     (case scanOnce (t_clock v) (t_snap1 v) (t_ord1 v) (t_now v) (TSuspect m) (TFail m) (TCleanup m)
             (s, failMarks m) of
        Exited \<Rightarrow> Exited
      | Running (s1, marks1) \<Rightarrow>
          (case (UsePingTimeout m, MInflight m) of
             (True, Some r) \<Rightarrow>
               (let (tab, s2, marks2) = reapInflight (t_clock v) (t_snap2 v) (t_ord2 v) (t_nonces v)
                      (t_now v) (TSuspect m) (h r) (s1, marks1)
                in Running (m\<lparr>failMarks := marks2\<rparr>, h(r := tab), s2))
           | _ \<Rightarrow> Running (m\<lparr>failMarks := marks1\<rparr>, h, s1)))"

definition rate_tick :: "Manager \<Rightarrow> Manager" where
  "rate_tick m = m\<lparr>failMarks := 0\<rparr>"

section \<open>What a scan does\<close>

text \<open>
  The specification of a scan: what becomes of one entry, as a function of its state and its age.
\<close>

definition judged :: "gotime \<Rightarrow> Duration \<Rightarrow> Duration \<Rightarrow> Duration \<Rightarrow> NodeID \<Rightarrow> MemberEntry \<Rightarrow> MemberEntry option" where
  "judged now tSuspect tFail tCleanup self e =
     (let age = time_Sub now (LastUpdate e);
          failAt = (if tSuspect = 0 then tFail else add64 tSuspect tFail) in
      if EState e = StateLeft \<and> tCleanup \<le> age then None
      else if ID e = self then Some e
      else if add64 failAt tCleanup \<le> age then None
      else if failAt \<le> age \<and>
         (if tSuspect = 0 then EState e \<noteq> StateFailed else EState e = StateAlive \<or> EState e = StateSuspect)
        then Some (e\<lparr>EState := StateFailed\<rparr>)
      else if tSuspect \<noteq> 0 \<and> tSuspect \<le> age \<and> EState e = StateAlive then Some (e\<lparr>EState := StateSuspect\<rparr>)
      else Some e)"

definition scan_store :: "gotime \<Rightarrow> gotime \<Rightarrow> Duration \<Rightarrow> Duration \<Rightarrow> Duration \<Rightarrow> Store \<Rightarrow> MemberEntry \<Rightarrow> Store" where
  "scan_store clock now tSuspect tFail tCleanup s e = fst (scan_entry clock now tSuspect tFail tCleanup (s, 0) e)"

lemma apply_silent:
  assumes "st = StateSuspect \<or> st = StateFailed" and "entries s (key_of (ID e)) = Some e"
  shows "entries (ApplyLocked now s (ID e) (Incarnation e) st) = (entries s)(key_of (ID e) \<mapsto> e\<lparr>EState := st\<rparr>)"
  using assms by (auto simp: ApplyLocked_def apply_entry_def)

lemma scan_store_look:
  assumes "entries s (key_of (ID e)) = Some e"
  shows "entries (scan_store clock now tS tF tC s e) =
     (entries s)(key_of (ID e) := judged now tS tF tC (selfID s) e)"
proof -
  have idle: "(entries s)(key_of (ID e) \<mapsto> e) = entries s" using assms by (rule map_upd_same)
  then have idle': "ID e = selfID s \<Longrightarrow> (entries s)(key_of (selfID s) \<mapsto> e) = entries s" by simp
  have mark: "entries (ApplyLocked clock s (ID e) (Incarnation e) StateFailed) =
      (entries s)(key_of (ID e) \<mapsto> e\<lparr>EState := StateFailed\<rparr>)"
    "entries (ApplyLocked clock s (ID e) (Incarnation e) StateSuspect) =
      (entries s)(key_of (ID e) \<mapsto> e\<lparr>EState := StateSuspect\<rparr>)"
    using assms by (simp_all add: apply_silent)
  have drop: "entries (RemoveEntry s (ID e)) = (entries s)(key_of (ID e) := None)"
    using assms by (simp add: RemoveEntry_def)
  show ?thesis
    unfolding scan_store_def scan_entry_def judged_def Let_def SelfID_def split_conv
    by (cases "tS = 0") (auto simp: idle idle' mark drop)
qed

lemma scan_store_frame [simp]:
  "selfID (scan_store clock now tS tF tC s e) = selfID s"
  "config (scan_store clock now tS tF tC s e) = config s"
  by (simp_all add: scan_store_def scan_entry_def Let_def)

interpretation scan: sweep "scan_store clock now tS tF tC" entries "\<lambda>e. key_of (ID e)"
  "judged now tS tF tC me" "\<lambda>s. selfID s = me"
  for clock now :: gotime and tS tF tC :: Duration and me :: NodeID
  by unfold_locales (auto simp: scan_store_look)

lemma scan_entry_fst: "fst (scan_entry clock now tS tF tC sm e) = scan_store clock now tS tF tC (fst sm) e"
  by (cases sm) (auto simp: scan_store_def scan_entry_def Let_def)

lemma scan_fold_fst:
  "fst (foldl (scan_entry clock now tS tF tC) sm es) = foldl (scan_store clock now tS tF tC) (fst sm) es"
  by (induction es arbitrary: sm) (simp_all add: scan_entry_fst)

lemma snapshot_filed:
  assumes "store_inv s" and "iteration ord (entries s)"
  shows "distinct (map (\<lambda>e. key_of (ID e)) (fst (Snapshot snap ord s)))"
    and "e \<in> set (fst (Snapshot snap ord s)) \<Longrightarrow> entries (touched snap s) (key_of (ID e)) = Some e"
    and "entries (touched snap s) k = Some e \<Longrightarrow> k = key_of (ID e) \<and> e \<in> set (fst (Snapshot snap ord s))"
proof -
  have i: "store_inv (touched snap s)" using assms(1) by (rule store_inv_touched)
  show "distinct (map (\<lambda>e. key_of (ID e)) (fst (Snapshot snap ord s)))"
    using Snapshot_keys [OF assms] assms(2) by (simp add: iteration_def)
  show "e \<in> set (fst (Snapshot snap ord s)) \<Longrightarrow> entries (touched snap s) (key_of (ID e)) = Some e"
    using Snapshot_list_set [OF assms(2)] store_invD [OF i] by fastforce
  show "entries (touched snap s) k = Some e \<Longrightarrow> k = key_of (ID e) \<and> e \<in> set (fst (Snapshot snap ord s))"
    using Snapshot_list_set [OF assms(2)] store_invD [OF i] by fastforce
qed

text \<open>The local node has left: its own entry, which the snapshot does not touch.\<close>

definition self_left :: "Store \<Rightarrow> MemberEntry option" where
  "self_left s =
     (case entries s (key_of (selfID s)) of
        None \<Rightarrow> None
      | Some e \<Rightarrow> if ID e = selfID s \<and> EState e = StateLeft then Some e else None)"

lemma find_self_left:
  assumes "store_inv s" and "iteration ord (entries s)"
  shows "find (\<lambda>e. ID e = selfID s \<and> EState e = StateLeft) (fst (Snapshot snap ord s)) = self_left s"
proof (cases "find (\<lambda>e. ID e = selfID s \<and> EState e = StateLeft) (fst (Snapshot snap ord s))")
  case None
  have "\<not> (ID e = selfID s \<and> EState e = StateLeft)" if "entries s k = Some e" for k e
  proof -
    have "entries (touched snap s) k = Some (touch snap (selfID s) e)" using that by simp
    then have "touch snap (selfID s) e \<in> set (fst (Snapshot snap ord s))"
      using Snapshot_list_set [OF assms(2)] by blast
    then have "\<not> (ID (touch snap (selfID s) e) = selfID s \<and> EState (touch snap (selfID s) e) = StateLeft)"
      using None unfolding find_None_iff by blast
    then show ?thesis by simp
  qed
  with None show ?thesis by (auto simp: self_left_def split: option.split)
next
  case (Some e)
  then have e: "ID e = selfID s" "EState e = StateLeft" "e \<in> set (fst (Snapshot snap ord s))"
    by (auto simp: find_Some_iff)
  then have "entries (touched snap s) (key_of (selfID s)) = Some e"
    using snapshot_filed(2) [OF assms] by force
  then obtain d where d: "entries s (key_of (selfID s)) = Some d" "touch snap (selfID s) d = e" by auto
  then have "d = e" using e(2) by (auto simp: touch_def split: if_splits)
  with Some d e show ?thesis by (simp add: self_left_def)
qed

lemma scanOnce_unfold:
  assumes "store_inv s" and "iteration ord (entries s)"
  shows "scanOnce clock snap ord now tS tF tC (s, marks) =
     (case self_left s of
        Some e \<Rightarrow> if tC \<le> time_Sub now (LastUpdate e) then Exited else Running (touched snap s, marks)
      | None \<Rightarrow> Running (foldl (scan_entry clock now tS tF tC) (touched snap s, marks) (fst (Snapshot snap ord s))))"
proof -
  obtain list where S: "Snapshot snap ord s = (list, selfID s, touched snap s)"
    using Snapshot_store [where now = snap and ord = ord and s = s] assms(2)
    by (cases "Snapshot snap ord s") auto
  then show ?thesis
    using find_self_left [OF assms, of snap] by (cases "self_left s") (simp_all add: scanOnce_def)
qed

lemma scan_entries:
  assumes "store_inv s" and "iteration ord (entries s)"
  shows "entries (fst (foldl (scan_entry clock now tS tF tC) (touched snap s, marks) (fst (Snapshot snap ord s)))) k =
     Option.bind (entries (touched snap s) k) (judged now tS tF tC (selfID s))"
proof -
  have f: "scan.filed (touched snap s) (fst (Snapshot snap ord s))"
    using snapshot_filed(1,2) [OF assms] by (auto simp: scan.filed_def)
  show ?thesis
    unfolding scan_fold_fst fst_conv
  proof (rule scan.full_pass_look [OF _ f])
    show "entries (touched snap s) k = Some e \<Longrightarrow> k \<in> (\<lambda>e. key_of (ID e)) ` set (fst (Snapshot snap ord s))"
      for k e
      using snapshot_filed(3) [OF assms, of snap k e] by blast
  qed simp
qed

section \<open>Preservation\<close>

text \<open>The manager's passes keep the invariant and the frame of the store, in any iteration order.\<close>

lemma scan_entry_inv:
  "store_inv (fst sm) \<Longrightarrow> store_inv (fst (scan_entry clock now tS tF tC sm e))"
  by (cases sm) (simp add: scan_entry_def Let_def store_inv_intros)

lemma scan_fold_inv:
  "store_inv (fst sm) \<Longrightarrow> store_inv (fst (foldl (scan_entry clock now tS tF tC) sm es))"
  by (induction es arbitrary: sm) (simp_all add: scan_entry_inv)

lemma scan_fold_frame:
  "selfID (fst (foldl (scan_entry clock now tS tF tC) sm es)) = selfID (fst sm)"
  "config (fst (foldl (scan_entry clock now tS tF tC) sm es)) = config (fst sm)"
  by (induction es arbitrary: sm) (simp_all add: scan_entry_fst)

lemma reap_rec_inv: "store_inv (fst sm) \<Longrightarrow> store_inv (fst (reap_rec clock b es sm r))"
  by (induction es) (simp_all add: store_inv_intros)

lemma reap_rec_frame:
  "selfID (fst (reap_rec clock b es sm r)) = selfID (fst sm)"
  "config (fst (reap_rec clock b es sm r)) = config (fst sm)"
  by (induction es) simp_all

lemma reap_fold_inv:
  "store_inv (fst sm) \<Longrightarrow> store_inv (fst (foldl (reap_rec clock b es) sm rs))"
  "selfID (fst (foldl (reap_rec clock b es) sm rs)) = selfID (fst sm)"
  "config (fst (foldl (reap_rec clock b es) sm rs)) = config (fst sm)"
  by (induction rs arbitrary: sm) (simp_all add: reap_rec_inv reap_rec_frame)

lemma scanOnce_inv:
  assumes "scanOnce clock snap ord now tS tF tC sm = Running sm'"
  shows "store_inv (fst sm) \<Longrightarrow> store_inv (fst sm')" "selfID (fst sm') = selfID (fst sm)"
    "config (fst sm') = config (fst sm)"
proof -
  obtain s marks list self s1 where s: "sm = (s, marks)" "Snapshot snap ord s = (list, self, s1)"
    by (metis prod.exhaust)
  have s1: "store_inv s \<Longrightarrow> store_inv s1" "selfID s1 = selfID s" "config s1 = config s"
    using store_inv_Snapshot [of s snap ord] Snapshot_frame [of snap ord s] s(2) by simp_all
  have "sm' = (s1, marks) \<or> sm' = foldl (scan_entry clock now tS tF tC) (s1, marks) list"
    using assms s by (auto simp: scanOnce_def split: option.splits if_splits)
  then show "store_inv (fst sm) \<Longrightarrow> store_inv (fst sm')" "selfID (fst sm') = selfID (fst sm)"
    "config (fst sm') = config (fst sm)"
    using s s1 scan_fold_inv [where sm = "(s1, marks)"] scan_fold_frame by auto
qed

lemma reapInflight_inv:
  assumes "reapInflight clock snap ord nord now tS m sm = (m', sm')"
  shows "store_inv (fst sm) \<Longrightarrow> store_inv (fst sm')" "selfID (fst sm') = selfID (fst sm)"
    "config (fst sm') = config (fst sm)"
proof -
  obtain s marks list self s1 where s: "sm = (s, marks)" "Snapshot snap ord s = (list, self, s1)"
    by (metis prod.exhaust)
  obtain m1 recs where e: "Expired now nord m = (m1, recs)" by fastforce
  have s1: "store_inv s \<Longrightarrow> store_inv s1" "selfID s1 = selfID s" "config s1 = config s"
    using store_inv_Snapshot [of s snap ord] Snapshot_frame [of snap ord s] s(2) by simp_all
  have "sm' = sm \<or> sm' = foldl (reap_rec clock (tS = 0) list) (s1, marks) recs"
    using assms s e by (auto simp: reapInflight_def split: if_splits)
  then show "store_inv (fst sm) \<Longrightarrow> store_inv (fst sm')" "selfID (fst sm') = selfID (fst sm)"
    "config (fst sm') = config (fst sm)"
    using s s1 reap_fold_inv [where sm = "(s1, marks)"] by auto
qed

text \<open>An empty table has no overdue ping: the second half of a tick does nothing then.\<close>

lemma reap_empty: "reapInflight clock snap ord nord now tS NewInflight sm = (NewInflight, sm)"
proof -
  have "expired_loop now nord NewInflight = (NewInflight, [])"
    by (induction nord) (simp_all add: NewInflight_def)
  then show ?thesis by (simp add: reapInflight_def Expired_def)
qed

end
