(* ===== verification/SuspicionProps.thy ===== *)
theory SuspicionProps
  imports Suspicion Samples
begin

text \<open>
  The properties of the suspicion manager (\<open>src/pkg/suspicion/manager.go\<close>): what one scan does to every
  member, how long a silent member survives, what happens to one that left, and the limits of the
  scan (overflowing thresholds, updates that arrive during the pass, unanswered pings).
\<close>

section \<open>Scans\<close>

lemma self_left_two [simp]: "self_left (two_nodes c st t) = None"
  by (simp add: self_left_def two_nodes_entries)

text \<open>
  C9. A scan judges every member once and independently of the others: unless the local node has
  left, the result at each endpoint is what \<open>judged\<close> says of the entry there (after the snapshot has
  touched the local entry), whatever the iteration order of the map, so a removal in the middle of
  the pass never hides or repeats another entry. If the local node has left, the scan touches nothing
  until \<open>TCleanup\<close> has passed since the leave and then ends the process.
\<close>

theorem scan_specification:
  assumes "store_inv s" and "iteration ord (entries s)"
  shows "case scanOnce clock snap ord now tS tF tC (s, marks) of
      Exited \<Rightarrow> (\<exists>e. self_left s = Some e \<and> tC \<le> time_Sub now (LastUpdate e))
    | Running (s', _) \<Rightarrow>
        (case self_left s of
           Some e \<Rightarrow> time_Sub now (LastUpdate e) < tC \<and> s' = touched snap s
         | None \<Rightarrow> \<forall>k. entries s' k = Option.bind (entries (touched snap s) k) (judged now tS tF tC (selfID s)))"
  unfolding scanOnce_unfold [OF assms]
  using scan_entries [OF assms] by (auto split: option.split prod.split simp: split_beta)

theorem scan_specification_witness:
  "case scanOnce (at_wall 20) (at_wall 20) two_keys (at_wall 20) 3 4 5 (two_nodes (Defaults ''h'') StateAlive 15, 0) of
      Exited \<Rightarrow> False
    | Running (s', _) \<Rightarrow> entries s' (key_of (node 2 7)) = Some (sample 2 100 StateSuspect 15)"
proof -
  have "judged (at_wall 20) 3 4 5 (node 1 7) (sample 2 100 StateAlive 15) = Some (sample 2 100 StateSuspect 15)"
    by (simp add: judged_def add64_def int64_defs time_defs sat64_def at_wall_def Let_def)
  then show ?thesis
    using scan_specification [of "two_nodes (Defaults ''h'') StateAlive 15" two_keys,
      where clock = "at_wall 20" and snap = "at_wall 20" and now = "at_wall 20" and tS = 3 and tF = 4
        and tC = 5 and marks = 0]
    by (auto split: outcome.splits)
qed

text \<open>Thresholds whose sum is a 64-bit integer, as in every sensible configuration.\<close>

definition thresholds_ok :: "Duration \<Rightarrow> Duration \<Rightarrow> Duration \<Rightarrow> bool" where
  "thresholds_ok tS tF tC \<longleftrightarrow> 0 \<le> tS \<and> 0 < tF \<and> 0 < tC \<and> tS + tF + tC \<le> max64"

lemma thresholds_sum:
  assumes "thresholds_ok tS tF tC"
  shows "add64 tS tF = tS + tF" "add64 (add64 tS tF) tC = tS + tF + tC" "add64 tF tC = tF + tC"
proof -
  have "in64 (tS + tF)" "in64 (tS + tF + tC)" "in64 (tF + tC)"
    using assms by (auto simp: thresholds_ok_def int64_defs)
  then show "add64 tS tF = tS + tF" "add64 (add64 tS tF) tC = tS + tF + tC" "add64 tF tC = tF + tC"
    by (simp_all add: add64_def)
qed

lemma judged_sane:
  assumes "thresholds_ok tS tF tC"
  shows "judged now tS tF tC self e =
     (let age = time_Sub now (LastUpdate e) in
      if EState e = StateLeft \<and> tC \<le> age then None
      else if ID e = self then Some e
      else if tS + tF + tC \<le> age then None
      else if tS + tF \<le> age \<and>
         (if tS = 0 then EState e \<noteq> StateFailed else EState e = StateAlive \<or> EState e = StateSuspect)
        then Some (e\<lparr>EState := StateFailed\<rparr>)
      else if tS \<noteq> 0 \<and> tS \<le> age \<and> EState e = StateAlive then Some (e\<lparr>EState := StateSuspect\<rparr>)
      else Some e)"
  using thresholds_sum [OF assms] by (cases "tS = 0") (auto simp: judged_def Let_def)

lemma scan_running:
  assumes "store_inv s" and "iteration ord (entries s)" and "self_left s = None"
    and "entries s k = Some e" and "ID e \<noteq> selfID s"
  obtains s' marks' where "scanOnce clock snap ord now tS tF tC (s, marks) = Running (s', marks')"
    and "entries s' k = judged now tS tF tC (selfID s) e"
proof -
  have "scanOnce clock snap ord now tS tF tC (s, marks) =
      Running (foldl (scan_entry clock now tS tF tC) (touched snap s, marks) (fst (Snapshot snap ord s)))"
    using assms(3) by (simp add: scanOnce_unfold [OF assms(1,2)])
  with assms(4,5) show thesis
    by (cases "foldl (scan_entry clock now tS tF tC) (touched snap s, marks) (fst (Snapshot snap ord s))")
       (use scan_entries [OF assms(1,2), of clock now tS tF tC snap marks k] in \<open>auto intro!: that\<close>)
qed

text \<open>The state of a member that has been silent for \<open>age\<close>.\<close>

definition silent_for :: "Duration \<Rightarrow> Duration \<Rightarrow> Duration \<Rightarrow> Duration \<Rightarrow> MemberEntry \<Rightarrow> MemberEntry option" where
  "silent_for tS tF tC age e =
     (if tS + tF + tC \<le> age then None
      else if tS + tF \<le> age then Some (e\<lparr>EState := StateFailed\<rparr>)
      else if tS \<noteq> 0 \<and> tS \<le> age \<and> EState e = StateAlive then Some (e\<lparr>EState := StateSuspect\<rparr>)
      else Some e)"

text \<open>
  C10. The life of a silent member. With thresholds that do not overflow, a scan leaves a remote member
  (Alive, Suspect or Failed) unchanged as long as its last heartbeat is younger than \<open>TSuspect\<close>
  (\<open>TFail\<close> when suspicion is disabled), then marks it Suspect (never when suspicion is disabled), from
  \<open>TSuspect + TFail\<close> on marks it Failed, and from \<open>TSuspect + TFail + TCleanup\<close> on removes it. Nothing
  else of the entry changes, in particular not its incarnation nor its heartbeat.
\<close>

theorem silent_member_lifecycle:
  assumes "store_inv s" and "iteration ord (entries s)" and "self_left s = None"
    and "thresholds_ok tS tF tC" and "entries s k = Some e" and "ID e \<noteq> selfID s"
    and "EState e \<in> {StateAlive, StateSuspect, StateFailed}"
  shows "\<exists>s' marks'. scanOnce clock snap ord now tS tF tC (s, marks) = Running (s', marks') \<and>
     entries s' k = silent_for tS tF tC (time_Sub now (LastUpdate e)) e"
proof -
  obtain s' marks' where r: "scanOnce clock snap ord now tS tF tC (s, marks) = Running (s', marks')"
    and e: "entries s' k = judged now tS tF tC (selfID s) e"
    using scan_running [OF assms(1-3,5,6)] by blast
  have failed: "e\<lparr>EState := StateFailed\<rparr> = e" if "EState e = StateFailed"
    using that by (cases e) simp
  have pos: "0 < tF" "0 < tC" using assms(4) by (simp_all add: thresholds_ok_def)
  have "judged now tS tF tC (selfID s) e = silent_for tS tF tC (time_Sub now (LastUpdate e)) e"
    using assms(6,7) failed pos
    by (auto simp: judged_sane [OF assms(4)] silent_for_def Let_def)
  with r e show ?thesis by auto
qed

theorem silent_member_lifecycle_witness:
  "\<exists>s' marks'. scanOnce (at_wall 24) (at_wall 24) two_keys (at_wall 24) 3 4 5
       (two_nodes (Defaults ''h'') StateSuspect 15, 0) = Running (s', marks') \<and>
     entries s' (key_of (node 2 7)) = Some (sample 2 100 StateFailed 15)"
proof -
  have "silent_for 3 4 5 (time_Sub (at_wall 24) (LastUpdate (sample 2 100 StateSuspect 15)))
      (sample 2 100 StateSuspect 15) = Some (sample 2 100 StateFailed 15)"
    by (simp add: silent_for_def time_defs at_wall_def sat64_def int64_defs sample_def)
  moreover have "thresholds_ok 3 4 5" by (simp add: thresholds_ok_def int64_defs)
  ultimately show ?thesis
    using silent_member_lifecycle [of "two_nodes (Defaults ''h'') StateSuspect 15" two_keys 3 4 5
        "key_of (node 2 7)" "sample 2 100 StateSuspect 15" "at_wall 24" "at_wall 24" "at_wall 24" 0]
    by simp
qed

text \<open>
  Completeness: a member that has been silent for \<open>TSuspect + TFail + TCleanup\<close> is removed by the
  next scan, whatever state it is in, and whether or not earlier scans took place.
\<close>

theorem silent_member_removed:
  assumes "store_inv s" and "iteration ord (entries s)" and "self_left s = None"
    and "thresholds_ok tS tF tC" and "entries s k = Some e" and "ID e \<noteq> selfID s"
    and "tS + tF + tC \<le> time_Sub now (LastUpdate e)"
  shows "\<exists>s' marks'. scanOnce clock snap ord now tS tF tC (s, marks) = Running (s', marks') \<and>
     entries s' k = None"
proof -
  obtain s' marks' where r: "scanOnce clock snap ord now tS tF tC (s, marks) = Running (s', marks')"
    and e: "entries s' k = judged now tS tF tC (selfID s) e"
    using scan_running [OF assms(1-3,5,6)] by blast
  have "judged now tS tF tC (selfID s) e = None"
    using assms(6,7) by (auto simp: judged_sane [OF assms(4)] Let_def)
  with r e show ?thesis by auto
qed

theorem silent_member_removed_witness:
  "\<exists>s' marks'. scanOnce (at_wall 27) (at_wall 27) two_keys (at_wall 27) 3 4 5
       (two_nodes (Defaults ''h'') StateAlive 15, 0) = Running (s', marks') \<and>
     entries s' (key_of (node 2 7)) = None"
proof -
  have "3 + 4 + 5 \<le> time_Sub (at_wall 27) (LastUpdate (sample 2 100 StateAlive 15))"
    by (simp add: time_defs at_wall_def sat64_def int64_defs)
  moreover have "thresholds_ok 3 4 5" by (simp add: thresholds_ok_def int64_defs)
  ultimately show ?thesis
    using silent_member_removed [of "two_nodes (Defaults ''h'') StateAlive 15" two_keys 3 4 5
        "key_of (node 2 7)" "sample 2 100 StateAlive 15" "at_wall 27" "at_wall 27" "at_wall 27" 0]
    by simp
qed

text \<open>
  C38. The life of a member that has left, from its last heartbeat on. A scan keeps it listed as Left until
  \<open>TCleanup\<close> and then removes it, if suspicion is enabled or \<open>TCleanup\<close> is at most \<open>TFail\<close>. With suspicion disabled
  and a longer \<open>TCleanup\<close> a scan marks it Failed from \<open>TFail\<close> on, although it left on its own. (For a scan with
  valid thresholds by another node, which has not left itself.)
\<close>

theorem left_member_lifecycle:
  assumes "store_inv s" and "iteration ord (entries s)" and "self_left s = None"
    and "thresholds_ok tS tF tC" and "entries s k = Some e" and "ID e \<noteq> selfID s"
    and "EState e = StateLeft"
  shows "\<exists>s' marks'. scanOnce clock snap ord now tS tF tC (s, marks) = Running (s', marks') \<and>
     entries s' k =
       (if tC \<le> time_Sub now (LastUpdate e) then None
        else if tS = 0 \<and> tF \<le> time_Sub now (LastUpdate e) then Some (e\<lparr>EState := StateFailed\<rparr>)
        else Some e)"
proof -
  obtain s' marks' where r: "scanOnce clock snap ord now tS tF tC (s, marks) = Running (s', marks')"
    and e: "entries s' k = judged now tS tF tC (selfID s) e"
    using scan_running [OF assms(1-3,5,6)] by blast
  have pos: "0 \<le> tS" "0 < tF" "0 < tC" using assms(4) by (simp_all add: thresholds_ok_def)
  have "judged now tS tF tC (selfID s) e =
       (if tC \<le> time_Sub now (LastUpdate e) then None
        else if tS = 0 \<and> tF \<le> time_Sub now (LastUpdate e) then Some (e\<lparr>EState := StateFailed\<rparr>)
        else Some e)"
    using assms(6,7) pos by (auto simp: judged_sane [OF assms(4)] Let_def)
  with r e show ?thesis by auto
qed

theorem left_member_lifecycle_witness:
  "\<exists>s' marks'. scanOnce (at_wall 20) (at_wall 20) two_keys (at_wall 20) 0 4 50
       (two_nodes (Defaults ''h'') StateLeft 15, 0) = Running (s', marks') \<and>
     entries s' (key_of (node 2 7)) = Some (sample 2 100 StateFailed 15)"
proof -
  have "time_Sub (at_wall 20) (at_wall 15) = 5"
    by (simp add: time_defs at_wall_def sat64_def int64_defs)
  moreover have "thresholds_ok 0 4 50" by (simp add: thresholds_ok_def int64_defs)
  ultimately show ?thesis
    using left_member_lifecycle [of "two_nodes (Defaults ''h'') StateLeft 15" two_keys 0 4 50
        "key_of (node 2 7)" "sample 2 100 StateLeft 15" "at_wall 20" "at_wall 20" "at_wall 20" 0]
    by simp
qed

section \<open>Limits of the scan\<close>

definition huge :: Config where
  "huge = (Defaults ''h'')\<lparr>cTSuspect := 2 ^ 62, cTFail := 2 ^ 62, cTCleanup := 1\<rparr>"

text \<open>
  Validation does not bound the thresholds: their sum is computed in 64 bits, and there are
  configurations that \<open>ValidateClusterParams\<close> accepts under which every scan removes every remote
  member, however fresh: with the thresholds of \<open>huge\<close> a member heard of at this very instant is gone.
\<close>

theorem thresholds_overflow:
  "cfg_ok huge \<and>
   judged now (cTSuspect huge) (cTFail huge) (cTCleanup huge) self (e\<lparr>LastUpdate := now\<rparr>) =
     (if ID e = self then Some (e\<lparr>LastUpdate := now\<rparr>) else None)"
proof
  show "cfg_ok huge"
    by (simp add: huge_def cfg_ok_def Defaults_def ValidateClusterParams_def cfg_ints_def int64_defs
        ms_def drop_rate_bad_def)
  have age: "time_Sub now now = 0"
    by (simp add: time_defs sat64_def int64_defs split: option.split)
  have "add64 (add64 (cTSuspect huge) (cTFail huge)) (cTCleanup huge) = - (2 ^ 63) + 1"
    by (simp add: huge_def add64_def wrap64_def)
  then show "judged now (cTSuspect huge) (cTFail huge) (cTCleanup huge) self (e\<lparr>LastUpdate := now\<rparr>) =
     (if ID e = self then Some (e\<lparr>LastUpdate := now\<rparr>) else None)"
    by (simp add: judged_def age huge_def)
qed

text \<open>
  The scan judges a copy but writes to the live entry. If a newer entry \<open>d\<close> of the same endpoint is
  merged after the snapshot was taken (with a fresh heartbeat and, as a refutation, a higher
  incarnation), the step for the old copy \<open>e\<close> still marks the member Suspect and sets its incarnation
  back to the one of \<open>e\<close>: the refutation is undone.
\<close>

theorem scan_acts_on_stale_copy:
  assumes "entries s (key_of (ID e)) = Some d" and "ID e \<noteq> selfID s" and "thresholds_ok tS tF tC"
    and "tS \<noteq> 0" and "EState e = StateAlive"
    and "tS \<le> time_Sub now (LastUpdate e)" and "time_Sub now (LastUpdate e) < tS + tF"
  shows "entries (fst (scan_entry clock now tS tF tC (s, marks) e)) (key_of (ID e)) =
     Some (d\<lparr>EState := StateSuspect, Incarnation := Incarnation e\<rparr>)"
proof -
  have "time_Sub now (LastUpdate e) < tS + tF + tC" using assms(3,7) by (simp add: thresholds_ok_def)
  then show ?thesis
    using assms thresholds_sum [OF assms(3)]
    by (simp add: scan_entry_def SelfID_def ApplyLocked_def apply_entry_def)
qed

theorem scan_acts_on_stale_copy_witness:
  "entries (fst (scan_entry (at_wall 20) (at_wall 20) 3 4 5
       (put_entry (two_nodes (Defaults ''h'') StateAlive 15) (sample 2 101 StateAlive 20), 0)
       (sample 2 100 StateAlive 15))) (key_of (node 2 7)) =
     Some (sample 2 100 StateSuspect 20)"
proof -
  have "time_Sub (at_wall 20) (at_wall 15) = 5"
    by (simp add: time_defs at_wall_def sat64_def int64_defs)
  moreover have "thresholds_ok 3 4 5" by (simp add: thresholds_ok_def int64_defs)
  moreover have "entries (put_entry (two_nodes (Defaults ''h'') StateAlive 15) (sample 2 101 StateAlive 20))
      (key_of (ID (sample 2 100 StateAlive 15))) = Some (sample 2 101 StateAlive 20)"
    by (simp add: put_entry_def)
  moreover have "(sample 2 101 StateSuspect 20)\<lparr>Incarnation := 100\<rparr> = sample 2 100 StateSuspect 20"
    by (simp add: sample_def)
  ultimately show ?thesis
    using scan_acts_on_stale_copy [of "put_entry (two_nodes (Defaults ''h'') StateAlive 15) (sample 2 101 StateAlive 20)"
        "sample 2 100 StateAlive 15" "sample 2 101 StateAlive 20" 3 4 5 "at_wall 20" "at_wall 20" 0]
    by simp
qed

section \<open>Unanswered pings\<close>

definition ping_mark :: "Duration \<Rightarrow> MemberEntry \<Rightarrow> MemberEntry" where
  "ping_mark tSuspect e = e\<lparr>EState := (if tSuspect = 0 then StateFailed else StateSuspect)\<rparr>"

lemma reap_rec_find:
  "fst (reap_rec clock b es sm r) =
     (case find (\<lambda>e. key_of (ID e) = EAddr r) es of
        None \<Rightarrow> fst sm
      | Some e \<Rightarrow> ApplyLocked clock (fst sm) (ID e) (Incarnation e) (if b then StateFailed else StateSuspect))"
  by (induction es) auto

lemma find_snapshot:
  assumes "store_inv s" and "iteration ord (entries s)"
  shows "find (\<lambda>e. key_of (ID e) = a) (fst (Snapshot snap ord s)) = entries (touched snap s) a"
proof (cases "entries (touched snap s) a")
  case None
  then have "\<not> (\<exists>e. e \<in> set (fst (Snapshot snap ord s)) \<and> key_of (ID e) = a)"
    using snapshot_filed(2) [OF assms, of _ snap] by (metis option.distinct(1))
  then have "find (\<lambda>e. key_of (ID e) = a) (fst (Snapshot snap ord s)) = None"
    unfolding find_None_iff .
  then show ?thesis using None by simp
next
  case (Some e)
  then have "a = key_of (ID e)" "e \<in> set (fst (Snapshot snap ord s))"
    using snapshot_filed(3) [OF assms] by auto
  then obtain d where d: "find (\<lambda>e. key_of (ID e) = a) (fst (Snapshot snap ord s)) = Some d"
    by (cases "find (\<lambda>e. key_of (ID e) = a) (fst (Snapshot snap ord s))") (auto simp: find_None_iff)
  then have "d \<in> set (fst (Snapshot snap ord s))" "key_of (ID d) = a"
    by (auto simp: find_Some_iff)
  then have "entries (touched snap s) a = Some d" using snapshot_filed(2) [OF assms] by blast
  with d show ?thesis by (simp only:)
qed

lemma reap_fold:
  assumes "store_inv s" and "iteration ord (entries s)"
  shows "entries (fst (foldl (reap_rec clock (tS = 0) (fst (Snapshot snap ord s))) (touched snap s, marks) recs)) k =
     (if k \<in> EAddr ` set recs then map_option (ping_mark tS) (entries (touched snap s) k)
      else entries (touched snap s) k)"
proof (induction recs arbitrary: k rule: rev_induct)
  case Nil
  then show ?case by simp
next
  case (snoc r recs)
  let ?sm = "foldl (reap_rec clock (tS = 0) (fst (Snapshot snap ord s))) (touched snap s, marks) recs"
  let ?L = "entries (touched snap s)"
  show ?case
  proof (cases "?L (EAddr r)")
    case None
    then show ?thesis
      using snoc.IH [of k] by (auto simp: reap_rec_find find_snapshot [OF assms] simp del: touched_simps(5))
  next
    case (Some e)
    then have a: "key_of (ID e) = EAddr r"
      using snapshot_filed(3) [OF assms, of snap "EAddr r" e] by simp
    have cur: "entries (fst ?sm) (EAddr r) = Some e \<or> entries (fst ?sm) (EAddr r) = Some (ping_mark tS e)"
      using snoc.IH [of "EAddr r"] Some by (auto simp del: touched_simps(5))
    have "entries (ApplyLocked clock (fst ?sm) (ID e) (Incarnation e)
        (if tS = 0 then StateFailed else StateSuspect)) = (entries (fst ?sm))(EAddr r \<mapsto> ping_mark tS e)"
      using cur a by (auto simp: ApplyLocked_def apply_entry_def ping_mark_def Let_def)
    then show ?thesis
      using snoc.IH [of k] Some
      by (auto simp: reap_rec_find find_snapshot [OF assms] simp del: touched_simps(5))
  qed
qed

text \<open>
  Unanswered pings. \<open>reapInflight\<close> takes the overdue pings out of the table and, if there are any,
  marks exactly the members at their addresses: Failed when suspicion is disabled, Suspect otherwise,
  whatever their state was (a member that has left or is already Failed becomes Suspect too), and
  leaves all other members alone.
\<close>

theorem reap_specification:
  assumes "store_inv s" and "iteration ord (entries s)" and "iteration nord m"
  shows "case reapInflight clock snap ord nord now tS m (s, marks) of (m', s', marks') \<Rightarrow>
     m' = pending now m \<and>
     (if \<exists>n. overdue now m n
      then entries s' = (\<lambda>k. if \<exists>n r. m n = Some r \<and> overdue now m n \<and> addr r = k
                             then map_option (ping_mark tS) (entries (touched snap s) k)
                             else entries (touched snap s) k)
      else s' = s \<and> marks' = marks)"
proof -
  obtain list where S: "Snapshot snap ord s = (list, selfID s, touched snap s)"
    using Snapshot_store [where now = snap and ord = ord and s = s] assms(2)
    by (cases "Snapshot snap ord s") auto
  let ?recs = "snd (Expired now nord m)"
  have recs: "k \<in> EAddr ` set ?recs \<longleftrightarrow> (\<exists>n r. m n = Some r \<and> overdue now m n \<and> addr r = k)" for k
  proof
    assume "k \<in> EAddr ` set ?recs"
    then show "\<exists>n r. m n = Some r \<and> overdue now m n \<and> addr r = k"
      using Expired_reports [OF assms(3)] by (force simp: overdue_def)
  next
    assume "\<exists>n r. m n = Some r \<and> overdue now m n \<and> addr r = k"
    then obtain n r where "m n = Some r" "time_After now (dl r)" "addr r = k" by (auto simp: overdue_def)
    then have "\<lparr>Nonce = n, EAddr = k\<rparr> \<in> set ?recs" using Expired_reports [OF assms(3)] by simp
    then show "k \<in> EAddr ` set ?recs" by force
  qed
  have none: "?recs = [] \<longleftrightarrow> \<not> (\<exists>n. overdue now m n)"
  proof -
    have "overdue now m n \<Longrightarrow> n \<in> set nord" for n
      using assms(3) by (auto simp: iteration_def overdue_def split: option.splits)
    then show ?thesis by (auto simp: Expired_eq [OF assms(3)] filter_empty_conv)
  qed
  have E: "Expired now nord m = (pending now m, ?recs)" by (simp add: Expired_eq [OF assms(3)])
  show ?thesis
  proof (cases "?recs = []")
    case True
    then show ?thesis using none E by (simp add: reapInflight_def)
  next
    case False
    have "entries (fst (foldl (reap_rec clock (tS = 0) list) (touched snap s, marks) ?recs)) =
        (\<lambda>k. if \<exists>n r. m n = Some r \<and> overdue now m n \<and> addr r = k
             then map_option (ping_mark tS) (entries (touched snap s) k) else entries (touched snap s) k)"
      using reap_fold [OF assms(1,2), of clock tS snap marks ?recs] recs S by (simp add: fun_eq_iff)
    moreover have "reapInflight clock snap ord nord now tS m (s, marks) =
        (pending now m, foldl (reap_rec clock (tS = 0) list) (touched snap s, marks) ?recs)"
      using False by (subst reapInflight_def, subst E) (simp add: S)
    ultimately show ?thesis using False none by (auto split: prod.split)
  qed
qed

theorem reap_specification_witness:
  "let m = Add (at_wall 1) 5 10 (key_of (node 2 7)) NewInflight;
       (m', s', marks') = reapInflight (at_wall 20) (at_wall 20) two_keys [5] (at_wall 20) 3 m
          (two_nodes (Defaults ''h'') StateLeft 15, 0)
   in m' 5 = None \<and> entries s' (key_of (node 2 7)) = Some (sample 2 100 StateSuspect 15)"
proof -
  let ?m = "Add (at_wall 1) 5 10 (key_of (node 2 7)) NewInflight"
  have m: "?m = [5 \<mapsto> \<lparr>dl = at_wall 11, addr = key_of (node 2 7)\<rparr>]"
    by (simp add: Add_def NewInflight_def time_Add_def at_wall_def)
  then have i: "iteration [5] ?m" by (simp add: iteration_def)
  have o: "overdue (at_wall 20) ?m 5" "\<exists>n. overdue (at_wall 20) ?m n"
    by (auto simp: m overdue_def time_defs) (auto simp: at_wall_def)
  have e: "\<exists>n r. ?m n = Some r \<and> overdue (at_wall 20) ?m n \<and> addr r = key_of (node 2 7)"
    using o(1) by (auto simp: m)
  obtain m' s' marks' where R: "reapInflight (at_wall 20) (at_wall 20) two_keys [5] (at_wall 20) 3 ?m
      (two_nodes (Defaults ''h'') StateLeft 15, 0) = (m', s', marks')"
    by (cases "reapInflight (at_wall 20) (at_wall 20) two_keys [5] (at_wall 20) 3 ?m
        (two_nodes (Defaults ''h'') StateLeft 15, 0)") auto
  have "m' = pending (at_wall 20) ?m"
    and "entries s' (key_of (node 2 7)) = map_option (ping_mark 3)
      (entries (touched (at_wall 20) (two_nodes (Defaults ''h'') StateLeft 15)) (key_of (node 2 7)))"
    using reap_specification [of "two_nodes (Defaults ''h'') StateLeft 15" two_keys "[5]" ?m,
        where clock = "at_wall 20" and snap = "at_wall 20" and now = "at_wall 20" and tS = 3 and marks = 0]
      i o(2) e R
    by auto
  then show ?thesis
    using o(1) by (simp add: R pending_def ping_mark_def)
qed

end
