(* ===== verification/Wire.thy ===== *)
theory Wire
  imports Samples
begin

text \<open>
  The messages, \<open>src/pkg/wire/codec.go\<close>, and their JSON form as \<open>encoding/json\<close> writes and reads it.
  JSON is modelled as a syntax tree, in which a text in RFC 3339 form is a leaf of its own that holds
  the instant it denotes (in UTC), and a number is an integer literal or any other literal with the
  \<open>float64\<close> it denotes. Encoding a NaN, an infinity or a year outside 0 to 9999 fails. Decoding takes
  the fields of an object in order, matches their names without regard to (ASCII) case, ignores
  unknown names, and leaves a field unchanged on \<open>null\<close>; any field that does not fit makes the whole
  decoding fail, since every caller drops a message that is returned with an error.
\<close>

section \<open>Messages\<close>

type_synonym MsgType = u8

definition MsgGossip :: MsgType where "MsgGossip = 1"
definition MsgPing :: MsgType where "MsgPing = 2"
definition MsgAck :: MsgType where "MsgAck = 3"

named_theorems msg_defs \<open>the numeric values of the message types\<close>

lemmas msg_values [msg_defs] = MsgGossip_def MsgPing_def MsgAck_def

lemma msg_distinct [simp]:
  "MsgGossip \<noteq> MsgPing" "MsgGossip \<noteq> MsgAck" "MsgPing \<noteq> MsgGossip" "MsgPing \<noteq> MsgAck"
  "MsgAck \<noteq> MsgGossip" "MsgAck \<noteq> MsgPing"
  by (simp_all add: msg_defs)

record Message =
  MType :: MsgType
  MNonce :: u64
  MList :: "MemberEntry list"
  MCfg :: "ConfigDTO option"

record JoinRequest =
  QList :: "MemberEntry list"

record JoinResponse =
  RConfigDTO :: ConfigDTO
  RList :: "MemberEntry list"

section \<open>Encoding\<close>

datatype json =
    JNull
  | JBool bool
  | JInt int
  | JFloat rat
  | JStr string
  | JTime int
  | JArr "json list"
  | JObj "(string \<times> json) list"

text \<open>The first instant of the year 0 and the last of the year 9999, in nanoseconds since 1970.\<close>

definition first_instant :: int where "first_instant = - 62167219200 * 1000000000"
definition last_instant :: int where "last_instant = 253402300800 * 1000000000 - 1"

definition enc_time :: "gotime \<Rightarrow> json option" where
  "enc_time t = (if first_instant \<le> wall t \<and> wall t \<le> last_instant then Some (JTime (wall t)) else None)"

definition enc_float :: "f64 \<Rightarrow> json option" where
  "enc_float x =
     (case x of
        Fin r \<Rightarrow> Some (if of_int \<lfloor>r\<rfloor> = r \<and> \<bar>r\<bar> < 10 ^ 21 then JInt \<lfloor>r\<rfloor> else JFloat r)
      | _ \<Rightarrow> None)"

definition enc_uint :: "'a :: len word \<Rightarrow> json" where
  "enc_uint w = JInt (uint w)"

definition enc_entry :: "MemberEntry \<Rightarrow> json option" where
  "enc_entry e =
     (case enc_time (LastUpdate e) of
        None \<Rightarrow> None
      | Some t \<Rightarrow>
          Some (JObj [(''ID'', JStr (MarshalText (ID e))), (''Incarnation'', enc_uint (Incarnation e)),
                      (''State'', enc_uint (EState e)), (''LastUpdate'', t)]))"

fun enc_list :: "MemberEntry list \<Rightarrow> json list option" where
  "enc_list [] = Some []"
| "enc_list (e # es) =
     (case (enc_entry e, enc_list es) of (Some j, Some js) \<Rightarrow> Some (j # js) | _ \<Rightarrow> None)"

definition opt_int :: "string \<Rightarrow> int \<Rightarrow> (string \<times> json) list" where
  "opt_int k i = (if i = 0 then [] else [(k, JInt i)])"

definition opt_str :: "string \<Rightarrow> string \<Rightarrow> (string \<times> json) list" where
  "opt_str k s = (if s = [] then [] else [(k, JStr s)])"

definition enc_dto :: "ConfigDTO \<Rightarrow> json option" where
  "enc_dto d =
     (case enc_float (dDropRateRecv d) of
        None \<Rightarrow> None
      | Some r \<Rightarrow>
          Some (JObj (opt_int ''version'' (dVersion d) @ opt_str ''mode'' (dMode d) @
            opt_str ''ping_every'' (dPingEvery d) @ opt_int ''ping_fanout'' (dPingFanout d) @
            opt_str ''gossip_period'' (dGossipPeriod d) @ opt_int ''gossip_fanout'' (dGossipFanout d) @
            opt_str ''t_suspect'' (dTSuspect d) @ opt_str ''t_fail'' (dTFail d) @
            opt_str ''t_cleanup'' (dTCleanup d) @
            (if dDropRateRecv d = Fin 0 then [] else [(''drop_rate_recv'', r)]))))"

definition EncodeMessage :: "Message \<Rightarrow> json option" where
  "EncodeMessage m =
     (case (enc_list (MList m), case MCfg m of None \<Rightarrow> Some [] | Some d \<Rightarrow>
              (case enc_dto d of None \<Rightarrow> None | Some j \<Rightarrow> Some [(''cfg'', j)])) of
        (Some l, Some c) \<Rightarrow>
          Some (JObj ([(''type'', enc_uint (MType m))] @ opt_int ''nonce'' (uint (MNonce m)) @
                      [(''list'', JArr l)] @ c))
      | _ \<Rightarrow> None)"

definition EncodeJoinRequest :: "JoinRequest \<Rightarrow> json option" where
  "EncodeJoinRequest q =
     (case enc_list (QList q) of None \<Rightarrow> None | Some l \<Rightarrow> Some (JObj [(''list'', JArr l)]))"

definition EncodeJoinResponse :: "JoinResponse \<Rightarrow> json option" where
  "EncodeJoinResponse r =
     (case (enc_dto (RConfigDTO r), enc_list (RList r)) of
        (Some c, Some l) \<Rightarrow> Some (JObj [(''config'', c), (''list'', JArr l)])
      | _ \<Rightarrow> None)"

section \<open>Decoding\<close>

definition lower_char :: "char \<Rightarrow> char" where
  "lower_char c = (if 65 \<le> (of_char c :: nat) \<and> (of_char c :: nat) \<le> 90 then char_of ((of_char c :: nat) + 32) else c)"

definition names :: "string \<Rightarrow> string \<Rightarrow> bool" where
  "names k field \<longleftrightarrow> map lower_char k = map lower_char field"

fun dec_uint :: "json \<Rightarrow> 'a :: len word \<Rightarrow> 'a word option" where
  "dec_uint JNull old = Some old"
| "dec_uint (JInt i) old = (if 0 \<le> i \<and> i < 2 ^ LENGTH('a) then Some (word_of_int i) else None)"
| "dec_uint _ old = None"

fun dec_int :: "json \<Rightarrow> int \<Rightarrow> int option" where
  "dec_int JNull old = Some old"
| "dec_int (JInt i) old = (if in64 i then Some i else None)"
| "dec_int _ old = None"

fun dec_str :: "json \<Rightarrow> string \<Rightarrow> string option" where
  "dec_str JNull old = Some old"
| "dec_str (JStr s) old = Some s"
| "dec_str _ old = None"

definition f64_of_int :: "int \<Rightarrow> rat" where
  "f64_of_int i = (if i < 0 then - f64_round (of_int (- i)) else f64_round (of_int i))"

fun dec_float :: "json \<Rightarrow> f64 \<Rightarrow> f64 option" where
  "dec_float JNull old = Some old"
| "dec_float (JInt i) old = (if \<bar>i\<bar> < 2 ^ 1024 then Some (Fin (f64_of_int i)) else None)"
| "dec_float (JFloat r) old = Some (Fin r)"
| "dec_float _ old = None"

fun dec_time :: "json \<Rightarrow> gotime \<Rightarrow> gotime option" where
  "dec_time JNull old = Some old"
| "dec_time (JTime w) old = Some \<lparr>wall = w, mono = None\<rparr>"
| "dec_time _ old = None"

fun dec_id :: "json \<Rightarrow> NodeID \<Rightarrow> NodeID option" where
  "dec_id JNull old = Some old"
| "dec_id (JStr s) old = (case UnmarshalText s of Inl _ \<Rightarrow> None | Inr n \<Rightarrow> Some n)"
| "dec_id _ old = None"

text \<open>The fields of an object are decoded one after the other into the value built so far.\<close>

fun dec_fields :: "(string \<Rightarrow> json \<Rightarrow> 'r \<Rightarrow> 'r option) \<Rightarrow> (string \<times> json) list \<Rightarrow> 'r \<Rightarrow> 'r option" where
  "dec_fields f [] r = Some r"
| "dec_fields f ((k, j) # fs) r = Option.bind (f k j r) (dec_fields f fs)"

fun dec_struct :: "(string \<Rightarrow> json \<Rightarrow> 'r \<Rightarrow> 'r option) \<Rightarrow> json \<Rightarrow> 'r \<Rightarrow> 'r option" where
  "dec_struct f JNull r = Some r"
| "dec_struct f (JObj fs) r = dec_fields f fs r"
| "dec_struct f _ r = None"

definition zeroTime :: gotime where
  "zeroTime = \<lparr>wall = - 62135596800 * 1000000000, mono = None\<rparr>"

definition zeroEntry :: MemberEntry where
  "zeroEntry = \<lparr>ID = zeroNodeID, Incarnation = 0, EState = 0, LastUpdate = zeroTime\<rparr>"

definition entry_field :: "string \<Rightarrow> json \<Rightarrow> MemberEntry \<Rightarrow> MemberEntry option" where
  "entry_field k j e =
     (if names k ''ID'' then map_option (\<lambda>v. e\<lparr>ID := v\<rparr>) (dec_id j (ID e))
      else if names k ''Incarnation'' then map_option (\<lambda>v. e\<lparr>Incarnation := v\<rparr>) (dec_uint j (Incarnation e))
      else if names k ''State'' then map_option (\<lambda>v. e\<lparr>EState := v\<rparr>) (dec_uint j (EState e))
      else if names k ''LastUpdate'' then map_option (\<lambda>v. e\<lparr>LastUpdate := v\<rparr>) (dec_time j (LastUpdate e))
      else Some e)"

fun dec_entries :: "json list \<Rightarrow> MemberEntry list option" where
  "dec_entries [] = Some []"
| "dec_entries (j # js) =
     (case (dec_struct entry_field j zeroEntry, dec_entries js) of
        (Some e, Some es) \<Rightarrow> Some (e # es) | _ \<Rightarrow> None)"

fun dec_list :: "json \<Rightarrow> MemberEntry list option" where
  "dec_list JNull = Some []"
| "dec_list (JArr js) = dec_entries js"
| "dec_list _ = None"

definition dto_field :: "string \<Rightarrow> json \<Rightarrow> ConfigDTO \<Rightarrow> ConfigDTO option" where
  "dto_field k j d =
     (if names k ''version'' then map_option (\<lambda>v. d\<lparr>dVersion := v\<rparr>) (dec_int j (dVersion d))
      else if names k ''mode'' then map_option (\<lambda>v. d\<lparr>dMode := v\<rparr>) (dec_str j (dMode d))
      else if names k ''ping_every'' then map_option (\<lambda>v. d\<lparr>dPingEvery := v\<rparr>) (dec_str j (dPingEvery d))
      else if names k ''ping_fanout'' then map_option (\<lambda>v. d\<lparr>dPingFanout := v\<rparr>) (dec_int j (dPingFanout d))
      else if names k ''gossip_period'' then map_option (\<lambda>v. d\<lparr>dGossipPeriod := v\<rparr>) (dec_str j (dGossipPeriod d))
      else if names k ''gossip_fanout'' then map_option (\<lambda>v. d\<lparr>dGossipFanout := v\<rparr>) (dec_int j (dGossipFanout d))
      else if names k ''t_suspect'' then map_option (\<lambda>v. d\<lparr>dTSuspect := v\<rparr>) (dec_str j (dTSuspect d))
      else if names k ''t_fail'' then map_option (\<lambda>v. d\<lparr>dTFail := v\<rparr>) (dec_str j (dTFail d))
      else if names k ''t_cleanup'' then map_option (\<lambda>v. d\<lparr>dTCleanup := v\<rparr>) (dec_str j (dTCleanup d))
      else if names k ''drop_rate_recv'' then map_option (\<lambda>v. d\<lparr>dDropRateRecv := v\<rparr>) (dec_float j (dDropRateRecv d))
      else Some d)"

definition dec_dto :: "json \<Rightarrow> ConfigDTO option" where
  "dec_dto j = dec_struct dto_field j emptyDTO"

definition message_field :: "string \<Rightarrow> json \<Rightarrow> Message \<Rightarrow> Message option" where
  "message_field k j m =
     (if names k ''type'' then map_option (\<lambda>v. m\<lparr>MType := v\<rparr>) (dec_uint j (MType m))
      else if names k ''nonce'' then map_option (\<lambda>v. m\<lparr>MNonce := v\<rparr>) (dec_uint j (MNonce m))
      else if names k ''list'' then map_option (\<lambda>v. m\<lparr>MList := v\<rparr>) (dec_list j)
      else if names k ''cfg'' then
        (if j = JNull then Some (m\<lparr>MCfg := None\<rparr>)
         else map_option (\<lambda>v. m\<lparr>MCfg := Some v\<rparr>)
                (dec_struct dto_field j (case MCfg m of None \<Rightarrow> emptyDTO | Some d \<Rightarrow> d)))
      else Some m)"

definition zeroMessage :: Message where
  "zeroMessage = \<lparr>MType = 0, MNonce = 0, MList = [], MCfg = None\<rparr>"

definition DecodeMessage :: "json \<Rightarrow> Message option" where
  "DecodeMessage j = dec_struct message_field j zeroMessage"

definition DecodeJoinRequest :: "json \<Rightarrow> JoinRequest option" where
  "DecodeJoinRequest j =
     dec_struct (\<lambda>k j r. if names k ''list'' then map_option (\<lambda>v. r\<lparr>QList := v\<rparr>) (dec_list j) else Some r)
       j \<lparr>QList = []\<rparr>"

definition DecodeJoinResponse :: "json \<Rightarrow> JoinResponse option" where
  "DecodeJoinResponse j =
     dec_struct (\<lambda>k j r.
         if names k ''config'' then map_option (\<lambda>v. r\<lparr>RConfigDTO := v\<rparr>) (dec_struct dto_field j (RConfigDTO r))
         else if names k ''list'' then map_option (\<lambda>v. r\<lparr>RList := v\<rparr>) (dec_list j)
         else Some r)
       j \<lparr>RConfigDTO = emptyDTO, RList = []\<rparr>"

section \<open>Field by field\<close>

named_theorems json_keys \<open>which field names match\<close>

lemma names_refl [json_keys]: "names k k"
  by (simp add: names_def)

lemma entry_names [json_keys]:
  "\<not> names ''Incarnation'' ''ID''" "\<not> names ''State'' ''ID''" "\<not> names ''LastUpdate'' ''ID''"
  "\<not> names ''State'' ''Incarnation''" "\<not> names ''LastUpdate'' ''Incarnation''"
  "\<not> names ''LastUpdate'' ''State''"
  by (simp_all add: names_def lower_char_def)

lemma message_names [json_keys]:
  "\<not> names ''nonce'' ''type''" "\<not> names ''list'' ''type''" "\<not> names ''cfg'' ''type''"
  "\<not> names ''list'' ''nonce''" "\<not> names ''cfg'' ''nonce''" "\<not> names ''cfg'' ''list''"
  "\<not> names ''list'' ''config''"
  by (simp_all add: names_def lower_char_def)

lemma dto_names [json_keys]:
  "\<not> names ''mode'' ''version''"
  "\<not> names ''ping_every'' ''version''" "\<not> names ''ping_every'' ''mode''"
  "\<not> names ''ping_fanout'' ''version''" "\<not> names ''ping_fanout'' ''mode''"
  "\<not> names ''ping_fanout'' ''ping_every''"
  "\<not> names ''gossip_period'' ''version''" "\<not> names ''gossip_period'' ''mode''"
  "\<not> names ''gossip_period'' ''ping_every''" "\<not> names ''gossip_period'' ''ping_fanout''"
  "\<not> names ''gossip_fanout'' ''version''" "\<not> names ''gossip_fanout'' ''mode''"
  "\<not> names ''gossip_fanout'' ''ping_every''" "\<not> names ''gossip_fanout'' ''ping_fanout''"
  "\<not> names ''gossip_fanout'' ''gossip_period''"
  by (simp_all add: names_def lower_char_def)

lemma dto_names_t [json_keys]:
  "\<not> names ''t_suspect'' ''version''" "\<not> names ''t_suspect'' ''mode''" "\<not> names ''t_suspect'' ''ping_every''"
  "\<not> names ''t_suspect'' ''ping_fanout''" "\<not> names ''t_suspect'' ''gossip_period''"
  "\<not> names ''t_suspect'' ''gossip_fanout''"
  "\<not> names ''t_fail'' ''version''" "\<not> names ''t_fail'' ''mode''" "\<not> names ''t_fail'' ''ping_every''"
  "\<not> names ''t_fail'' ''ping_fanout''" "\<not> names ''t_fail'' ''gossip_period''"
  "\<not> names ''t_fail'' ''gossip_fanout''" "\<not> names ''t_fail'' ''t_suspect''"
  "\<not> names ''t_cleanup'' ''version''" "\<not> names ''t_cleanup'' ''mode''" "\<not> names ''t_cleanup'' ''ping_every''"
  "\<not> names ''t_cleanup'' ''ping_fanout''" "\<not> names ''t_cleanup'' ''gossip_period''"
  "\<not> names ''t_cleanup'' ''gossip_fanout''" "\<not> names ''t_cleanup'' ''t_suspect''"
  "\<not> names ''t_cleanup'' ''t_fail''"
  by (simp_all add: names_def lower_char_def)

lemma dto_names_drop [json_keys]:
  "\<not> names ''drop_rate_recv'' ''version''" "\<not> names ''drop_rate_recv'' ''mode''"
  "\<not> names ''drop_rate_recv'' ''ping_every''" "\<not> names ''drop_rate_recv'' ''ping_fanout''"
  "\<not> names ''drop_rate_recv'' ''gossip_period''" "\<not> names ''drop_rate_recv'' ''gossip_fanout''"
  "\<not> names ''drop_rate_recv'' ''t_suspect''" "\<not> names ''drop_rate_recv'' ''t_fail''"
  "\<not> names ''drop_rate_recv'' ''t_cleanup''"
  by (simp_all add: names_def lower_char_def)

lemma dec_fields_append: "dec_fields f (xs @ ys) r = Option.bind (dec_fields f xs r) (dec_fields f ys)"
  by (induction xs arbitrary: r) (auto split: Option.bind_split)

lemma dec_enc_uint [simp]: "dec_uint (enc_uint w) old = Some w"
  by (simp add: enc_uint_def uint_bounded)

lemma dec_enc_time: "enc_time t = Some j \<Longrightarrow> dec_time j old = Some (strip_mono t)"
  by (cases t) (auto simp: enc_time_def strip_mono_def split: if_splits)

lemma dec_id_text [simp]: "dec_id (JStr (MarshalText n)) old = (if Is4 (IP (EP n)) then Some n else None)"
  by (simp add: UnmarshalText_def MarshalText_def ParseStringToNodeID_print
      ParseStringToEndpoint_print ParseStringToEndpoint_not_Is4)

text \<open>One entry: what is read back is the entry without its monotonic reading, if its address is IPv4.\<close>

lemma dec_enc_entry:
  assumes "enc_entry e = Some j"
  shows "dec_struct entry_field j zeroEntry = (if Is4 (IP (EP (ID e))) then Some (on_wire e) else None)"
proof -
  obtain t where t: "enc_time (LastUpdate e) = Some t"
    and j: "j = JObj [(''ID'', JStr (MarshalText (ID e))), (''Incarnation'', enc_uint (Incarnation e)),
                      (''State'', enc_uint (EState e)), (''LastUpdate'', t)]"
    using assms by (auto simp: enc_entry_def split: option.splits)
  have "dec_time t old = Some (strip_mono (LastUpdate e))" for old
    using t by (rule dec_enc_time)
  then show ?thesis
    by (simp add: j entry_field_def json_keys on_wire_def del: dec_id.simps)
qed

lemma dec_enc_list:
  "enc_list es = Some js \<Longrightarrow>
   dec_entries js = (if list_all (\<lambda>e. Is4 (IP (EP (ID e)))) es then Some (map on_wire es) else None)"
proof (induction es arbitrary: js)
  case Nil
  then show ?case by simp
next
  case (Cons e es)
  then obtain j js' where "enc_entry e = Some j" "enc_list es = Some js'" "js = j # js'"
    by (auto split: option.splits)
  with Cons.IH show ?case by (simp add: dec_enc_entry)
qed

definition sane_dto :: "ConfigDTO \<Rightarrow> bool" where
  "sane_dto d \<longleftrightarrow> dto_ints d \<and>
     (case dDropRateRecv d of Fin r \<Rightarrow> 0 \<le> r \<and> r \<le> 1 | _ \<Rightarrow> False)"

lemma dec_enc_float:
  assumes "enc_float (Fin r) = Some j" and "0 \<le> r" and "r \<le> 1"
  shows "dec_float j old = Some (Fin r)"
proof (cases "of_int \<lfloor>r\<rfloor> = r")
  case True
  have "0 \<le> \<lfloor>r\<rfloor>" "\<lfloor>r\<rfloor> \<le> 1" using assms(2,3) True by (simp_all add: floor_le_iff)
  then have "\<lfloor>r\<rfloor> = 0 \<or> \<lfloor>r\<rfloor> = 1" by arith
  then have "r = 0 \<or> r = 1" using True by auto
  moreover have "f64_round 0 = 0" "f64_round 1 = 1"
    using f64_round_nat [of 0] f64_round_nat [of 1] by simp_all
  ultimately show ?thesis using assms(1) by (auto simp: enc_float_def f64_of_int_def)
next
  case False
  with assms(1) have "j = JFloat r" by (auto simp: enc_float_def)
  then show ?thesis by simp
qed

lemma dec_opt_int:
  "in64 i \<Longrightarrow> f k (JInt i) r = Some (g i) \<Longrightarrow> (i = 0 \<Longrightarrow> g 0 = r) \<Longrightarrow> dec_fields f (opt_int k i) r = Some (g i)"
  by (simp add: opt_int_def)

lemma dec_opt_str:
  "f k (JStr s) r = Some (g s) \<Longrightarrow> (s = [] \<Longrightarrow> g [] = r) \<Longrightarrow> dec_fields f (opt_str k s) r = Some (g s)"
  by (simp add: opt_str_def)

lemma dec_enc_dto:
  assumes "sane_dto d" and "enc_dto d = Some j"
  shows "dec_struct dto_field j emptyDTO = Some d"
proof -
  obtain r where r: "dDropRateRecv d = Fin r" "0 \<le> r" "r \<le> 1"
    using assms(1) by (auto simp: sane_dto_def split: f64.splits)
  obtain jr where jr: "enc_float (Fin r) = Some jr"
    using assms(2) r by (auto simp: enc_dto_def split: option.splits)
  have fl: "dec_float jr old = Some (Fin r)" for old
    using dec_enc_float [OF jr r(2,3)] .
  have ints: "in64 (dVersion d)" "in64 (dPingFanout d)" "in64 (dGossipFanout d)"
    using assms(1) by (simp_all add: sane_dto_def dto_ints_def)
  let ?i = "\<lambda>k i. dec_fields dto_field (opt_int k i)" and ?s = "\<lambda>k s. dec_fields dto_field (opt_str k s)"
  have version: "dVersion e = 0 \<Longrightarrow> ?i ''version'' (dVersion d) e = Some (e\<lparr>dVersion := dVersion d\<rparr>)" for e
    using ints(1) by (auto simp: opt_int_def dto_field_def json_keys)
  have pf: "dPingFanout e = 0 \<Longrightarrow> ?i ''ping_fanout'' (dPingFanout d) e = Some (e\<lparr>dPingFanout := dPingFanout d\<rparr>)" for e
    using ints(2) by (auto simp: opt_int_def dto_field_def json_keys)
  have gf: "dGossipFanout e = 0 \<Longrightarrow>
      ?i ''gossip_fanout'' (dGossipFanout d) e = Some (e\<lparr>dGossipFanout := dGossipFanout d\<rparr>)" for e
    using ints(3) by (auto simp: opt_int_def dto_field_def json_keys)
  have strs:
    "dMode e = [] \<Longrightarrow> ?s ''mode'' (dMode d) e = Some (e\<lparr>dMode := dMode d\<rparr>)"
    "dPingEvery e = [] \<Longrightarrow> ?s ''ping_every'' (dPingEvery d) e = Some (e\<lparr>dPingEvery := dPingEvery d\<rparr>)"
    "dGossipPeriod e = [] \<Longrightarrow>
       ?s ''gossip_period'' (dGossipPeriod d) e = Some (e\<lparr>dGossipPeriod := dGossipPeriod d\<rparr>)"
    "dTSuspect e = [] \<Longrightarrow> ?s ''t_suspect'' (dTSuspect d) e = Some (e\<lparr>dTSuspect := dTSuspect d\<rparr>)"
    "dTFail e = [] \<Longrightarrow> ?s ''t_fail'' (dTFail d) e = Some (e\<lparr>dTFail := dTFail d\<rparr>)"
    "dTCleanup e = [] \<Longrightarrow> ?s ''t_cleanup'' (dTCleanup d) e = Some (e\<lparr>dTCleanup := dTCleanup d\<rparr>)" for e
    by (auto simp: opt_str_def dto_field_def json_keys)
  define rest where "rest = (if dDropRateRecv d = Fin 0 then [] else [(''drop_rate_recv'', jr)])"
  have drop: "dec_fields dto_field rest e = Some (e\<lparr>dDropRateRecv := Fin r\<rparr>)"
    if "dDropRateRecv e = Fin 0" for e
    using that r(1) fl by (auto simp: rest_def dto_field_def json_keys)
  have j: "j = JObj (opt_int ''version'' (dVersion d) @ opt_str ''mode'' (dMode d) @
      opt_str ''ping_every'' (dPingEvery d) @ opt_int ''ping_fanout'' (dPingFanout d) @
      opt_str ''gossip_period'' (dGossipPeriod d) @ opt_int ''gossip_fanout'' (dGossipFanout d) @
      opt_str ''t_suspect'' (dTSuspect d) @ opt_str ''t_fail'' (dTFail d) @
      opt_str ''t_cleanup'' (dTCleanup d) @ rest)"
    using assms(2) r(1) jr by (simp add: enc_dto_def rest_def)
  have "dec_struct dto_field j emptyDTO = Some (emptyDTO\<lparr>dVersion := dVersion d, dMode := dMode d,
      dPingEvery := dPingEvery d, dPingFanout := dPingFanout d, dGossipPeriod := dGossipPeriod d,
      dGossipFanout := dGossipFanout d, dTSuspect := dTSuspect d, dTFail := dTFail d,
      dTCleanup := dTCleanup d, dDropRateRecv := Fin r\<rparr>)"
    by (simp add: j dec_fields_append version pf gf strs drop emptyDTO_def)
  with r(1) show ?thesis by (simp add: emptyDTO_def)
qed

section \<open>Messages on the wire\<close>

lemma sane_ToDTO: "cfg_ok c \<Longrightarrow> cDropRateRecv c \<noteq> NaN \<Longrightarrow> sane_dto (ToDTO c)"
  by (auto simp: sane_dto_def cfg_ok_def cfg_ints_def dto_ints_def ToDTO_def ValidateClusterParams_def
      drop_rate_bad_def split: f64.split if_splits)

lemma sane_Defaults [simp]: "sane_dto (ToDTO (Defaults h))"
  by (rule sane_ToDTO [OF cfg_ok_Defaults]) (simp add: Defaults_def)

lemma sample_wire [simp]:
  "on_wire (sample h i st t) = sample h i st t"
  by (simp add: on_wire_def sample_def strip_mono_def at_wall_def)

text \<open>Every instant in the list has a year that JSON can express.\<close>

definition timely :: "MemberEntry list \<Rightarrow> bool" where
  "timely es \<longleftrightarrow> list_all (\<lambda>e. first_instant \<le> wall (LastUpdate e) \<and> wall (LastUpdate e) \<le> last_instant) es"

definition all_ipv4 :: "MemberEntry list \<Rightarrow> bool" where
  "all_ipv4 es \<longleftrightarrow> list_all (\<lambda>e. Is4 (IP (EP (ID e)))) es"

lemma sample_list [simp]:
  "timely [sample h i st 4]" "all_ipv4 [sample h i st t]"
  by (simp_all add: timely_def all_ipv4_def first_instant_def last_instant_def)

lemma enc_list_timely: "timely es \<longleftrightarrow> (\<exists>js. enc_list es = Some js)"
  by (induction es) (auto simp: timely_def enc_entry_def enc_time_def split: option.splits)

lemma enc_dto_sane: "sane_dto d \<Longrightarrow> \<exists>j. enc_dto d = Some j"
  by (auto simp: sane_dto_def enc_dto_def enc_float_def split: f64.splits)

lemma message_build:
  "MCfg m = c \<Longrightarrow> \<lparr>MType = MType m, MNonce = MNonce m, MList = l, MCfg = c\<rparr> = m\<lparr>MList := l\<rparr>"
  by (cases m) simp

lemma join_build:
  "\<lparr>QList = l\<rparr> = q\<lparr>QList := l\<rparr>" "\<lparr>RConfigDTO = RConfigDTO r, RList = l\<rparr> = r\<lparr>RList := l\<rparr>"
  by (cases q, simp) (cases r, simp)

lemma enc_dto_object: "enc_dto d = Some j \<Longrightarrow> j \<noteq> JNull"
  by (auto simp: enc_dto_def split: option.splits)

lemma message_decodes:
  assumes "case MCfg m of None \<Rightarrow> True | Some d \<Rightarrow> sane_dto d"
  shows "case EncodeMessage m of
      None \<Rightarrow> \<not> timely (MList m)
    | Some j \<Rightarrow> timely (MList m) \<and>
        DecodeMessage j = (if all_ipv4 (MList m) then Some (m\<lparr>MList := map on_wire (MList m)\<rparr>) else None)"
proof (cases "enc_list (MList m)")
  case None
  then show ?thesis using enc_list_timely [of "MList m"] by (simp add: EncodeMessage_def)
next
  case (Some js)
  have tm: "timely (MList m)" using Some enc_list_timely by blast
  have list: "dec_list (JArr js) = (if all_ipv4 (MList m) then Some (map on_wire (MList m)) else None)"
    using dec_enc_list [OF Some] by (simp add: all_ipv4_def)
  have nonce: "dec_fields message_field (opt_int ''nonce'' (uint (MNonce m))) r =
      Some (r\<lparr>MNonce := MNonce m\<rparr>)" if "MNonce r = 0" for r
    using that dec_enc_uint [of "MNonce m" 0]
    by (auto simp: opt_int_def message_field_def json_keys enc_uint_def uint_bounded)
  show ?thesis
  proof (cases "MCfg m")
    case None
    with Some tm list show ?thesis
      by (simp add: EncodeMessage_def DecodeMessage_def zeroMessage_def dec_fields_append nonce
          message_field_def json_keys message_build [OF None] del: dec_list.simps dec_uint.simps)
  next
    case (Some d)
    then have d: "sane_dto d" using assms by simp
    then obtain jd where jd: "enc_dto d = Some jd" using enc_dto_sane by blast
    have "dec_struct dto_field jd emptyDTO = Some d" using d jd by (rule dec_enc_dto)
    with Some \<open>enc_list (MList m) = Some js\<close> tm list jd enc_dto_object [OF jd] show ?thesis
      by (simp add: EncodeMessage_def DecodeMessage_def zeroMessage_def dec_fields_append nonce
          message_field_def json_keys message_build del: dec_list.simps dec_uint.simps)
  qed
qed

text \<open>
  C27. The wire format. A message whose configuration (if any) has a drop rate between 0 and 1 and
  integers in range is encoded if and only if the instants of its list have years from 0 to 9999. If
  all identities in the list are IPv4, the peer decodes the same type, nonce, configuration and list,
  each heartbeat to the nanosecond but without its monotonic reading. If a single identity is not
  IPv4, the peer cannot decode the message at all.
\<close>

theorem message_roundtrip:
  assumes "case MCfg m of None \<Rightarrow> True | Some d \<Rightarrow> sane_dto d"
  shows "case EncodeMessage m of
      None \<Rightarrow> \<not> timely (MList m)
    | Some j \<Rightarrow> timely (MList m) \<and>
        DecodeMessage j = (if all_ipv4 (MList m) then Some (m\<lparr>MList := map on_wire (MList m)\<rparr>) else None)"
  using assms by (rule message_decodes)

theorem message_roundtrip_witness:
  "let m = \<lparr>MType = MsgPing, MNonce = 5, MList = [sample 2 100 StateAlive 4], MCfg = Some (ToDTO (Defaults ''h''))\<rparr>
   in Option.bind (EncodeMessage m) DecodeMessage = Some m"
proof -
  let ?m = "\<lparr>MType = MsgPing, MNonce = 5, MList = [sample 2 100 StateAlive 4], MCfg = Some (ToDTO (Defaults ''h''))\<rparr>"
  show ?thesis
    unfolding Let_def using message_roundtrip [of ?m] by (simp split: option.splits)
qed

lemma join_decodes:
  assumes "sane_dto (RConfigDTO r)" and "timely (RList r)" and "timely (QList q)"
  shows "Option.bind (EncodeJoinRequest q) DecodeJoinRequest =
       (if all_ipv4 (QList q) then Some (q\<lparr>QList := map on_wire (QList q)\<rparr>) else None) \<and>
     Option.bind (EncodeJoinResponse r) DecodeJoinResponse =
       (if all_ipv4 (RList r) then Some (r\<lparr>RList := map on_wire (RList r)\<rparr>) else None)"
proof
  obtain js where js: "enc_list (QList q) = Some js" using assms(3) enc_list_timely by blast
  have "dec_list (JArr js) = (if all_ipv4 (QList q) then Some (map on_wire (QList q)) else None)"
    using dec_enc_list [OF js] by (simp add: all_ipv4_def)
  then show "Option.bind (EncodeJoinRequest q) DecodeJoinRequest =
       (if all_ipv4 (QList q) then Some (q\<lparr>QList := map on_wire (QList q)\<rparr>) else None)"
    by (simp add: EncodeJoinRequest_def DecodeJoinRequest_def js json_keys join_build(1) [of _ q]
        del: dec_list.simps)
  obtain ks where ks: "enc_list (RList r) = Some ks" using assms(2) enc_list_timely by blast
  obtain jd where jd: "enc_dto (RConfigDTO r) = Some jd" using enc_dto_sane [OF assms(1)] by blast
  have "dec_list (JArr ks) = (if all_ipv4 (RList r) then Some (map on_wire (RList r)) else None)"
    using dec_enc_list [OF ks] by (simp add: all_ipv4_def)
  moreover have "dec_struct dto_field jd emptyDTO = Some (RConfigDTO r)"
    using assms(1) jd by (rule dec_enc_dto)
  ultimately show "Option.bind (EncodeJoinResponse r) DecodeJoinResponse =
       (if all_ipv4 (RList r) then Some (r\<lparr>RList := map on_wire (RList r)\<rparr>) else None)"
    by (simp add: EncodeJoinResponse_def DecodeJoinResponse_def ks jd json_keys join_build(2)
        del: dec_list.simps)
qed

text \<open>
  The join handshake. The introducer reads the joiner's list, and the joiner reads the
  introducer's configuration and list, exactly as sent (heartbeats without the monotonic reading),
  provided all identities are IPv4; otherwise the handshake fails on the reading side.
\<close>

theorem join_roundtrip:
  assumes "sane_dto (RConfigDTO r)" and "timely (RList r)" and "timely (QList q)"
  shows "Option.bind (EncodeJoinRequest q) DecodeJoinRequest =
       (if all_ipv4 (QList q) then Some (q\<lparr>QList := map on_wire (QList q)\<rparr>) else None) \<and>
     Option.bind (EncodeJoinResponse r) DecodeJoinResponse =
       (if all_ipv4 (RList r) then Some (r\<lparr>RList := map on_wire (RList r)\<rparr>) else None)"
  using assms by (rule join_decodes)

theorem join_roundtrip_witness:
  "Option.bind (EncodeJoinResponse \<lparr>RConfigDTO = ToDTO (Defaults ''h''), RList = [sample 1 100 StateAlive 4]\<rparr>)
      DecodeJoinResponse = Some \<lparr>RConfigDTO = ToDTO (Defaults ''h''), RList = [sample 1 100 StateAlive 4]\<rparr>"
  using join_roundtrip [of "\<lparr>RConfigDTO = ToDTO (Defaults ''h''), RList = [sample 1 100 StateAlive 4]\<rparr>"
      "\<lparr>QList = [sample 2 100 StateAlive 4]\<rparr>"]
  by simp

text \<open>
  A NaN drop rate passes the validation of the cluster parameters (no comparison with NaN is
  true), but a message that carries it cannot be encoded: a node with this configuration sends nothing.
\<close>

theorem nan_drop_rate_silences:
  "ValidateClusterParams ((Defaults h)\<lparr>cDropRateRecv := NaN\<rparr>) = None \<and>
   EncodeMessage (m\<lparr>MCfg := Some (ToDTO ((Defaults h)\<lparr>cDropRateRecv := NaN\<rparr>))\<rparr>) = None"
  by (simp add: ValidateClusterParams_def Defaults_def ms_def drop_rate_bad_def EncodeMessage_def
      ToDTO_def enc_dto_def enc_float_def split: option.split)

end
