(* ===== verification/Loops.thy ===== *)
theory Loops
  imports Wire Inflights
begin

text \<open>
  What the two protocol loops, \<open>src/pkg/protocol/gossip\<close> and \<open>src/pkg/protocol/pingack\<close>, have in common:
  their access to the process around them and the decisions they share. A loop holds pointers to the
  store and to itself, and a callback into the daemon that may change both; the process is therefore
  an abstract state \<open>'w\<close> that a loop reads and writes through a record of functions, and the laws of
  these functions are the locale \<open>loop_world\<close>. The daemon provides them.
\<close>

section \<open>Access to the process\<close>

record 'w world_ops =
  get_store :: "'w \<Rightarrow> Store"
  set_store :: "Store \<Rightarrow> 'w \<Rightarrow> 'w"
  on_config :: "(ConfigDTO \<Rightarrow> 'w \<Rightarrow> 'w) option"

text \<open>
  The laws: the store is a component of the process that nothing else in these functions changes, and
  the callback does not touch the membership list (it may replace the configuration of the store).
\<close>

locale loop_world =
  fixes ops :: "'w world_ops"
  assumes get_set: "get_store ops (set_store ops s w) = s"
    and set_set: "set_store ops s (set_store ops s' w) = set_store ops s w"
    and callback_entries: "on_config ops = Some f \<Longrightarrow> entries (get_store ops (f d w)) = entries (get_store ops w)"
    and callback_self: "on_config ops = Some f \<Longrightarrow> selfID (get_store ops (f d w)) = selfID (get_store ops w)"

section \<open>Shared steps\<close>

text \<open>What \<open>Net.Read\<close> returns: an error, or a datagram, which may not be JSON text at all.\<close>

datatype 'a read = ReadError | Datagram "json option" 'a

text \<open>A receive step either goes on, after sending some replies, or ends the receive loop.\<close>

datatype 'a received = Continue "(json \<times> 'a) list" | Stopped

definition drops :: "f64 \<Rightarrow> rat \<Rightarrow> bool" where
  "drops rate coin \<longleftrightarrow> f64_less (Fin 0) rate \<and> f64_less (Fin coin) rate"

definition decode_datagram :: "json option \<Rightarrow> Message option" where
  "decode_datagram b = Option.bind b DecodeMessage"

text \<open>Applying the configuration that a message carries.\<close>

definition apply_config :: "'w world_ops \<Rightarrow> Message \<Rightarrow> 'w \<Rightarrow> 'w" where
  "apply_config ops msg w =
     (case (MCfg msg, on_config ops) of (Some dto, Some f) \<Rightarrow> f dto w | _ \<Rightarrow> w)"

text \<open>Taking a snapshot of the store in the process.\<close>

definition take_snapshot :: "'w world_ops \<Rightarrow> gotime \<Rightarrow> string list \<Rightarrow> 'w \<Rightarrow> MemberEntry list \<times> NodeID \<times> 'w" where
  "take_snapshot ops now ord w =
     (let (list, self, s) = Snapshot now ord (get_store ops w) in (list, self, set_store ops s w))"

definition merge_list :: "'w world_ops \<Rightarrow> (nat \<Rightarrow> gotime) \<Rightarrow> MemberEntry list \<Rightarrow> 'w \<Rightarrow> 'w" where
  "merge_list ops clk es w = set_store ops (MergeFullList clk (get_store ops w) es) w"

definition lists_self_left :: "MemberEntry list \<Rightarrow> NodeID \<Rightarrow> bool" where
  "lists_self_left list self \<longleftrightarrow> list_ex (\<lambda>e. ID e = self \<and> EState e = StateLeft) list"

text \<open>The peers a tick sends to: the first \<open>fanout\<close> of a random permutation.\<close>

definition chosen_peers :: "int \<Rightarrow> nat list \<Rightarrow> string list \<Rightarrow> string list" where
  "chosen_peers fanout perm peers =
     (let k = (if int (length perm) < fanout then int (length perm) else fanout)
      in map (\<lambda>i. peers ! (perm ! i)) [0..<nat k])"

definition permutes_indices :: "nat list \<Rightarrow> nat \<Rightarrow> bool" where
  "permutes_indices perm n \<longleftrightarrow> distinct perm \<and> set perm = {..<n}"

lemma chosen_peers_length:
  "permutes_indices perm (length peers) \<Longrightarrow> length (chosen_peers fanout perm peers) = min (nat fanout) (length peers)"
  using distinct_card [of perm]
  by (auto simp: chosen_peers_def permutes_indices_def Let_def)

lemma chosen_peers_take:
  assumes "permutes_indices perm (length peers)"
  shows "chosen_peers fanout perm peers = map (\<lambda>j. peers ! j) (take (nat fanout) perm)"
proof -
  have "chosen_peers fanout perm peers = map (\<lambda>i. peers ! (perm ! i)) [0..<min (nat fanout) (length perm)]"
    by (auto simp: chosen_peers_def Let_def min_def)
  also have "\<dots> = map (\<lambda>j. peers ! j) (map (\<lambda>i. perm ! i) [0..<min (nat fanout) (length perm)])"
    by simp
  also have "map (\<lambda>i. perm ! i) [0..<min (nat fanout) (length perm)] = take (nat fanout) perm"
    by (rule nth_equalityI) simp_all
  finally show ?thesis .
qed

lemma chosen_peers_distinct:
  assumes "permutes_indices perm (length peers)" and "distinct peers"
  shows "distinct (chosen_peers fanout perm peers)" and "set (chosen_peers fanout perm peers) \<subseteq> set peers"
proof -
  have t: "distinct (take (nat fanout) perm)" "set (take (nat fanout) perm) \<subseteq> {..<length peers}"
    using assms(1) by (auto simp: permutes_indices_def dest: in_set_takeD)
  have "inj_on (\<lambda>j. peers ! j) (set (take (nat fanout) perm))"
  proof (rule inj_onI)
    fix x y
    assume "x \<in> set (take (nat fanout) perm)" "y \<in> set (take (nat fanout) perm)" and eq: "peers ! x = peers ! y"
    then have "x < length peers" "y < length peers" using t(2) by blast+
    with eq assms(2) show "x = y" by (simp add: nth_eq_iff_index_eq)
  qed
  with t(1) show "distinct (chosen_peers fanout perm peers)"
    by (simp add: chosen_peers_take [OF assms(1)] distinct_map)
  show "set (chosen_peers fanout perm peers) \<subseteq> set peers"
    using t(2) by (auto simp: chosen_peers_take [OF assms(1)])
qed

section \<open>The sending goroutine\<close>

text \<open>
  Beside the loop object, the goroutine that sends has two local values: the period of its ticker, and
  \<open>lastPeriod\<close>, which it compares with the period of the loop at every tick. It reads the period twice
  when it starts, once for each (the second time without the lock), and ends when its \<open>select\<close> picks the
  closed \<open>stop\<close>.
\<close>

datatype sender = Unstarted | Starting Duration | Ticking Duration Duration | Ended

definition sender_read :: "Duration \<Rightarrow> sender \<Rightarrow> sender" where
  "sender_read period s =
     (case s of
        Unstarted \<Rightarrow> Starting period
      | Starting ticker \<Rightarrow> Ticking ticker period
      | _ \<Rightarrow> s)"

text \<open>The end of a tick, which has read \<open>period\<close>: a new ticker if the period has changed.\<close>

definition sender_ticked :: "Duration \<Rightarrow> sender \<Rightarrow> sender" where
  "sender_ticked period s =
     (case s of
        Ticking ticker lastPeriod \<Rightarrow> if period \<noteq> lastPeriod then Ticking period period else s
      | _ \<Rightarrow> s)"

definition sender_stop :: "sender \<Rightarrow> sender" where
  "sender_stop s = (case s of Ticking _ _ \<Rightarrow> Ended | _ \<Rightarrow> s)"

section \<open>The client's lemmas\<close>

context loop_world
begin

lemma config_keeps_entries [simp]: "entries (get_store ops (apply_config ops msg w)) = entries (get_store ops w)"
  by (auto simp: apply_config_def callback_entries split: option.split)

lemma config_keeps_self [simp]: "selfID (get_store ops (apply_config ops msg w)) = selfID (get_store ops w)"
  by (auto simp: apply_config_def callback_self split: option.split)

lemma snapshot_store:
  assumes "iteration ord (entries (get_store ops w))"
  shows "take_snapshot ops now ord w =
     (fst (Snapshot now ord (get_store ops w)), selfID (get_store ops w),
      set_store ops (touched now (get_store ops w)) w)"
  using Snapshot_store [where now = now and ord = ord and s = "get_store ops w"] assms
  by (cases "Snapshot now ord (get_store ops w)") (auto simp: take_snapshot_def)

lemma left_listed:
  assumes "store_inv (get_store ops w)" and "iteration ord (entries (get_store ops w))"
  shows "lists_self_left (fst (Snapshot now ord (get_store ops w))) (selfID (get_store ops w)) \<longleftrightarrow>
     (\<exists>e. entries (get_store ops w) (key_of (selfID (get_store ops w))) = Some e \<and>
          ID e = selfID (get_store ops w) \<and> EState e = StateLeft)"
  (is "?L \<longleftrightarrow> ?R")
proof
  let ?s = "get_store ops w"
  assume ?L
  then obtain e where e: "e \<in> set (fst (Snapshot now ord ?s))" "ID e = selfID ?s" "EState e = StateLeft"
    by (auto simp: lists_self_left_def list_ex_iff)
  then have "\<exists>k. entries (touched now ?s) k = Some e" using Snapshot_list_set [OF assms(2)] by blast
  then obtain k d where d: "entries ?s k = Some d" "touch now (selfID ?s) d = e" by auto
  then have "d = e" using e(3) by (auto simp: touch_def split: if_splits)
  with d e show ?R using store_invD [OF assms(1) d(1)] by auto
next
  let ?s = "get_store ops w"
  assume ?R
  then obtain e where e: "entries ?s (key_of (selfID ?s)) = Some e" "ID e = selfID ?s" "EState e = StateLeft"
    by blast
  then have "entries (touched now ?s) (key_of (selfID ?s)) = Some e" by (simp add: touch_def)
  then have "e \<in> set (fst (Snapshot now ord ?s))" using Snapshot_list_set [OF assms(2)] by blast
  with e show ?L by (auto simp: lists_self_left_def list_ex_iff)
qed

lemma merge_store [simp]: "get_store ops (merge_list ops clk es w) = MergeFullList clk (get_store ops w) es"
  by (simp add: merge_list_def get_set)

end

end
