(* ===== verification/Gossip.thy ===== *)
theory Gossip
  imports Loops
begin

text \<open>
  The gossip loop, \<open>src/pkg/protocol/gossip/loop.go\<close>: its fields, one iteration of the receive loop and
  one tick of the sending loop. The readings of the clock, the iteration orders, the random numbers
  and the resolver's answers are arguments. The byte counters only feed log lines and are left out.
\<close>

section \<open>The loop\<close>

record GLoop =
  GossipPeriod :: Duration
  GossipFanout :: int
  GDropRateRecv :: f64
  GStop :: bool
  GcfgDTO :: ConfigDTO

definition NewGossip :: "Duration \<Rightarrow> int \<Rightarrow> GLoop" where
  "NewGossip gossipPeriod gossipFanout =
     \<lparr>GossipPeriod = gossipPeriod, GossipFanout = gossipFanout, GDropRateRecv = Fin 0, GStop = False,
      GcfgDTO = emptyDTO\<rparr>"

definition GossipSetConfigDTO :: "ConfigDTO \<Rightarrow> GLoop \<Rightarrow> GLoop" where
  "GossipSetConfigDTO dto l = l\<lparr>GcfgDTO := dto\<rparr>"

text \<open>The channel \<open>stop\<close> is closed; closing it twice panics, which is the value None.\<close>

definition GossipClose :: "GLoop \<Rightarrow> GLoop option" where
  "GossipClose l = (if GStop l then None else Some (l\<lparr>GStop := True\<rparr>))"

definition GossipReconfigure :: "Config \<Rightarrow> GLoop \<Rightarrow> GLoop" where
  "GossipReconfigure next l =
     l\<lparr>GossipPeriod := cGossipPeriod next, GossipFanout := cGossipFanout next,
       GDropRateRecv := cDropRateRecv next\<rparr>"

record 'w gossip_ops = "'w world_ops" +
  get_gossip :: "'w \<Rightarrow> GLoop"

text \<open>
  The head of the receive loop looks at \<open>stop\<close> and then blocks in \<open>Read\<close>: closing the channel meanwhile
  does not wake it, so the datagram it is waiting for is still handled. \<open>gossip_enter\<close> is the look at
  \<open>stop\<close>, and \<open>gossip_recv\<close> the rest of the iteration, from the return of \<open>Read\<close> on.
\<close>

definition gossip_enter :: "GLoop \<Rightarrow> bool" where
  "gossip_enter l \<longleftrightarrow> \<not> GStop l"

text \<open>What the runtime supplies to one iteration of the receive loop.\<close>

record recv_env =
  r_coin :: rat
  r_snap :: gotime
  r_ord :: "string list"
  r_clk :: "nat \<Rightarrow> gotime"
  r_snap2 :: gotime
  r_ord2 :: "string list"

definition gossip_recv :: "'w gossip_ops \<Rightarrow> recv_env \<Rightarrow> 'a read \<Rightarrow> 'w \<Rightarrow> 'w \<times> 'a received" where
  "gossip_recv ops v input w =
     (case input of
        ReadError \<Rightarrow> (w, Stopped)
      | Datagram b from \<Rightarrow>
          if drops (GDropRateRecv (get_gossip ops w)) (r_coin v) then (w, Continue [])
          else case decode_datagram b of
            None \<Rightarrow> (w, Continue [])
          | Some msg \<Rightarrow>
              (let w1 = apply_config (world_ops.truncate ops) msg w;
                   (list, self, w2) = take_snapshot (world_ops.truncate ops) (r_snap v) (r_ord v) w1
               in if lists_self_left list self then (w2, Stopped)
                  else if MType msg = MsgGossip \<or> MType msg = MsgPing \<or> MType msg = MsgAck
                    then (merge_list (world_ops.truncate ops) (r_clk v) (MList msg) w2, Continue [])
                  else (w2, Continue [])))"

text \<open>
  One tick of the sending loop (\<open>select\<close> may choose the ticker even when \<open>stop\<close> is closed). \<open>perm\<close> is the random permutation, \<open>resolves\<close> tells which addresses the resolver knows,
  \<open>lastPeriod\<close> is the local variable that remembers the ticker's period. The result is the process, the
  datagrams sent (with their addresses) and the new \<open>lastPeriod\<close>.
\<close>

record send_env =
  s_snap :: gotime
  s_ord :: "string list"
  s_perm :: "nat list"
  s_resolves :: "string \<Rightarrow> bool"
  s_nonces :: "nat \<Rightarrow> u64"
  s_clk :: "nat \<Rightarrow> gotime"

definition gossip_tick ::
  "'w gossip_ops \<Rightarrow> send_env \<Rightarrow> Duration \<Rightarrow> 'w \<Rightarrow> 'w \<times> (json \<times> string) list \<times> Duration" where
  "gossip_tick ops v lastPeriod w =
     (let period = GossipPeriod (get_gossip ops w);
          fanout = GossipFanout (get_gossip ops w);
          (list, self, w1) = take_snapshot (world_ops.truncate ops) (s_snap v) (s_ord v) w;
          peers = ResolvePeersFromMemberList list self;
          msg = \<lparr>MType = MsgGossip, MNonce = 0, MList = list, MCfg = Some (GcfgDTO (get_gossip ops w1))\<rparr>;
          sent = (if peers = [] then []
                  else case EncodeMessage msg of
                    None \<Rightarrow> []
                  | Some b \<Rightarrow>
                      map (\<lambda>p. (b, p)) (filter (s_resolves v) (chosen_peers fanout (s_perm v) peers)))
      in (w1, sent, period))"

end
