(* ===== verification/PingAck.thy ===== *)
theory PingAck
  imports Gossip
begin

text \<open>
  The ping/ack loop, \<open>src/pkg/protocol/pingack/loop.go\<close>: its fields, one iteration of the receive loop
  (which answers pings) and one tick of the sending loop. Its table of pings in flight is allocated by
  \<open>New\<close> and held by address, like the tables of the other components. The byte counters only feed log
  lines and are left out.
\<close>

record PLoop =
  PingEvery :: Duration
  PTSuspect :: Duration
  PingFanout :: int
  PDropRateRecv :: f64
  PInflight :: nat
  PStop :: bool
  PcfgDTO :: ConfigDTO

text \<open>\<open>New\<close>; \<open>tab\<close> is the address of the table it allocates.\<close>

definition NewPingAck :: "nat \<Rightarrow> Duration \<Rightarrow> Duration \<Rightarrow> int \<Rightarrow> PLoop" where
  "NewPingAck tab pingEvery tSuspect pingFanout =
     \<lparr>PingEvery = pingEvery, PTSuspect = tSuspect, PingFanout = pingFanout, PDropRateRecv = Fin 0,
      PInflight = tab, PStop = False, PcfgDTO = emptyDTO\<rparr>"

definition PingSetConfigDTO :: "ConfigDTO \<Rightarrow> PLoop \<Rightarrow> PLoop" where
  "PingSetConfigDTO dto l = l\<lparr>PcfgDTO := dto\<rparr>"

definition PingClose :: "PLoop \<Rightarrow> PLoop option" where
  "PingClose l = (if PStop l then None else Some (l\<lparr>PStop := True\<rparr>))"

definition PingReconfigure :: "Config \<Rightarrow> PLoop \<Rightarrow> PLoop" where
  "PingReconfigure next l =
     l\<lparr>PingEvery := cPingEvery next, PTSuspect := cTSuspect next, PDropRateRecv := cDropRateRecv next,
       PingFanout := cPingFanout next\<rparr>"

text \<open>The loop also reaches its own table of pings in flight.\<close>

record 'w ping_ops = "'w world_ops" +
  get_ping :: "'w \<Rightarrow> PLoop"
  get_table :: "nat \<Rightarrow> 'w \<Rightarrow> Inflight"
  set_table :: "nat \<Rightarrow> Inflight \<Rightarrow> 'w \<Rightarrow> 'w"

definition ping_enter :: "PLoop \<Rightarrow> bool" where
  "ping_enter l \<longleftrightarrow> \<not> PStop l"

definition ping_recv :: "'w ping_ops \<Rightarrow> recv_env \<Rightarrow> 'a read \<Rightarrow> 'w \<Rightarrow> 'w \<times> 'a received" where
  "ping_recv ops v input w =
     (case input of
        ReadError \<Rightarrow> (w, Stopped)
      | Datagram b from \<Rightarrow>
          if drops (PDropRateRecv (get_ping ops w)) (r_coin v) then (w, Continue [])
          else case decode_datagram b of
            None \<Rightarrow> (w, Continue [])
          | Some msg \<Rightarrow>
              (let wo = world_ops.truncate ops;
                   w1 = apply_config wo msg w;
                   (list, self, w2) = take_snapshot wo (r_snap v) (r_ord v) w1
               in if lists_self_left list self then (w2, Stopped)
                  else if MType msg = MsgPing then
                    (let w3 = merge_list wo (r_clk v) (MList msg) w2;
                         (list2, _, w4) = take_snapshot wo (r_snap2 v) (r_ord2 v) w3;
                         reply = \<lparr>MType = MsgAck, MNonce = MNonce msg, MList = list2,
                                  MCfg = Some (PcfgDTO (get_ping ops w4))\<rparr>
                     in (w4, Continue (case EncodeMessage reply of None \<Rightarrow> [] | Some j \<Rightarrow> [(j, from)])))
                  else if MType msg = MsgAck then
                    (let i = PInflight (get_ping ops w2);
                         w3 = set_table ops i (fst (Done (MNonce msg) (get_table ops i w2))) w2
                     in (merge_list wo (r_clk v) (MList msg) w3, Continue []))
                  else if MType msg = MsgGossip then
                    (merge_list wo (r_clk v) (MList msg) w2, Continue [])
                  else (w2, Continue [])))"

text \<open>
  The sending of one ping: encoded with a fresh nonce, sent if the address resolves, and then entered
  into the table with the deadline \<open>tSuspect\<close> from now.
\<close>

definition send_ping ::
  "'w ping_ops \<Rightarrow> send_env \<Rightarrow> Duration \<Rightarrow> MemberEntry list \<Rightarrow> 'w \<times> (json \<times> string) list \<Rightarrow> nat \<times> string \<Rightarrow>
   'w \<times> (json \<times> string) list" where
  "send_ping ops v tSuspect list ws ia =
     (let (w, sent) = ws; (i, a) = ia; nonce = s_nonces v i;
          ping = \<lparr>MType = MsgPing, MNonce = nonce, MList = list, MCfg = Some (PcfgDTO (get_ping ops w))\<rparr>
      in case EncodeMessage ping of
           None \<Rightarrow> (w, sent)
         | Some b \<Rightarrow>
             if s_resolves v a
             then (let t = PInflight (get_ping ops w)
                   in (set_table ops t (Add (s_clk v i) nonce tSuspect a (get_table ops t w)) w,
                       sent @ [(b, a)]))
             else (w, sent))"

definition ping_tick :: "'w ping_ops \<Rightarrow> send_env \<Rightarrow> Duration \<Rightarrow> 'w \<Rightarrow> 'w \<times> (json \<times> string) list \<times> Duration" where
  "ping_tick ops v lastPeriod w =
     (let period = PingEvery (get_ping ops w);
          fanout = PingFanout (get_ping ops w);
          tSuspect = PTSuspect (get_ping ops w);
          (list, self, w1) = take_snapshot (world_ops.truncate ops) (s_snap v) (s_ord v) w;
          peers = ResolvePeersFromMemberList list self;
          targets = (if peers = [] then [] else chosen_peers fanout (s_perm v) peers);
          (w2, sent) = foldl (send_ping ops v tSuspect list) (w1, []) (enumerate 0 targets)
      in (w2, sent, period))"

end
