(* ===== verification/Transport.thy ===== *)
theory Transport
  imports Loops
begin

text \<open>
  The socket, \<open>src/pkg/transport/udp.go\<close>: how it is opened, and what its users see of it. The answers of the
  operating system are parameters. A connection that has been closed returns an error from every read,
  also from one that is waiting, and sends nothing. The sizes of the kernel's buffers are not modelled.
\<close>

datatype listen_error = Unresolved | NotBound

text \<open>The connection is named by the address it is bound to.\<close>

definition Listen :: "(string \<Rightarrow> 'a option) \<Rightarrow> ('a \<Rightarrow> bool) \<Rightarrow> string \<Rightarrow> listen_error + 'a" where
  "Listen resolver binds s =
     (case resolver s of
        None \<Rightarrow> Inl Unresolved
      | Some a \<Rightarrow> if binds a then Inr a else Inl NotBound)"

text \<open>What \<open>Read\<close> returns, given what the system would return on an open connection.\<close>

definition UDP_Read :: "bool \<Rightarrow> 'a read \<Rightarrow> 'a read" where
  "UDP_Read is_open input = (if is_open then input else ReadError)"

text \<open>The packets that the calls of \<open>WriteTo\<close> hand to the network; the loops ignore its error.\<close>

definition UDP_WriteTo :: "bool \<Rightarrow> 'p \<times> 'a \<Rightarrow> ('p \<times> 'a) list" where
  "UDP_WriteTo is_open p = (if is_open then [p] else [])"

lemma UDP_simps [simp]:
  "UDP_Read True input = input" "UDP_Read False input = ReadError"
  "UDP_WriteTo True p = [p]" "UDP_WriteTo False p = []"
  by (simp_all add: UDP_Read_def UDP_WriteTo_def)

lemma UDP_writes: "x \<in> set (concat (map (UDP_WriteTo is_open) ps)) \<Longrightarrow> x \<in> set ps"
  by (auto simp: UDP_WriteTo_def split: if_splits)

end
