(* ===== verification/Daemon.thy ===== *)
theory Daemon
  imports PingAck Suspicion Transport
begin

text \<open>
  The daemon, \<open>src/pkg/daemon/daemon.go\<close>: the process that owns the store, the suspicion manager and the
  protocol loops, applies configuration changes to them, and serves the administrator and joining
  nodes. Loops and tables of pings are objects on explicit heaps, because the daemon replaces its
  pointers while goroutines keep the old objects. Closing a closed channel is a panic, recorded in the
  process state. Log output is left out; replies of the HTTP handlers are results. The channel that stops
  the suspicion manager is nil until its goroutine makes it, then open or closed. The goroutines are part of
  the process: which receive loops run, and how far each sending loop is.
\<close>

section \<open>The process\<close>

record World =
  st :: Store
  cfg :: Config
  mode :: string
  loopPA :: "nat option"
  loopGo :: "nat option"
  sm :: Manager
  inflight :: nat
  pings :: "nat \<Rightarrow> PLoop option"
  gossips :: "nat \<Rightarrow> GLoop option"
  tables :: "nat \<Rightarrow> Inflight"
  next_ref :: nat
  ping_threads :: "nat set"
  gossip_threads :: "nat set"
  ping_senders :: "nat \<Rightarrow> sender"
  gossip_senders :: "nat \<Rightarrow> sender"
  mgr_stop :: "bool option"
  mgr_ended :: bool
  accepting :: bool
  net_open :: bool
  panicked :: bool

section \<open>Starting\<close>

datatype resolve_error = ResolveError | NoIP | BadIPBytes

text \<open>The resolver answers with an error, or with the bytes of an address, if any, and a port.\<close>

definition resolveAddrPortUDP ::
  "(string \<Rightarrow> (u8 list option \<times> nat) option) \<Rightarrow> string \<Rightarrow> resolve_error + Addr \<times> u16" where
  "resolveAddrPortUDP resolver s =
     (case resolver s of
        None \<Rightarrow> Inl ResolveError
      | Some (None, _) \<Rightarrow> Inl NoIP
      | Some (Some b, port) \<Rightarrow>
          (case AddrFromSlice b of
             None \<Rightarrow> Inl BadIPBytes
           | Some ip \<Rightarrow> Inr (ip, of_nat port)))"

definition is_space :: "char \<Rightarrow> bool" where
  "is_space c \<longleftrightarrow> (of_char c :: nat) = 32 \<or> (9 \<le> (of_char c :: nat) \<and> (of_char c :: nat) \<le> 13)"

definition TrimSpace :: "string \<Rightarrow> string" where
  "TrimSpace s = rev (dropWhile is_space (rev (dropWhile is_space s)))"

definition ToLower :: "string \<Rightarrow> string" where
  "ToLower s = map lower_char s"

text \<open>
  The first half of \<open>Run\<close>, up to the point where the suspicion manager is started: table 0 is the one
  that the daemon shares with the manager.
\<close>

definition boot ::
  "(string \<Rightarrow> (u8 list option \<times> nat) option) \<Rightarrow> (string \<Rightarrow> bool) \<Rightarrow> u64 \<Rightarrow> gotime \<Rightarrow> Config \<Rightarrow>
   resolve_error option + World" where
  "boot resolver listens bootTime now c =
     (case resolveAddrPortUDP resolver (TrimSpace (cSelfAddr c)) of
        Inl e \<Rightarrow> Inl (Some e)
      | Inr (ip, port) \<Rightarrow>
          (let selfNodeID = NewNodeID bootTime \<lparr>IP = ip, Port = port\<rparr> in
           if \<not> listens (cBindAddr c) then Inl None
           else Inr \<lparr>st = NewStore now selfNodeID c, cfg = c, mode = cMode c, loopPA = None, loopGo = None,
             sm = \<lparr>TSuspect = cTSuspect c, TFail = cTFail c, TCleanup = cTCleanup c,
                   UsePingTimeout = (cMode c = ModePingAck), MInflight = Some 0, failMarks = 0\<rparr>,
             inflight = 0, pings = (\<lambda>_. None), gossips = (\<lambda>_. None), tables = (\<lambda>_. NewInflight),
             next_ref = 1, ping_threads = {}, gossip_threads = {},
             ping_senders = (\<lambda>_. Unstarted), gossip_senders = (\<lambda>_. Unstarted),
             mgr_stop = None, mgr_ended = False, accepting = False, net_open = True, panicked = False\<rparr>))"

section \<open>Protocol loops\<close>

definition stopPingAck :: "World \<Rightarrow> World" where
  "stopPingAck w =
     (case loopPA w of
        None \<Rightarrow> w
      | Some r \<Rightarrow>
          (case Option.bind (pings w r) PingClose of
             None \<Rightarrow> w\<lparr>panicked := True\<rparr>
           | Some l \<Rightarrow> w\<lparr>pings := (pings w)(r \<mapsto> l), loopPA := None\<rparr>))"

definition stopGossip :: "World \<Rightarrow> World" where
  "stopGossip w =
     (case loopGo w of
        None \<Rightarrow> w
      | Some r \<Rightarrow>
          (case Option.bind (gossips w r) GossipClose of
             None \<Rightarrow> w\<lparr>panicked := True\<rparr>
           | Some l \<Rightarrow> w\<lparr>gossips := (gossips w)(r \<mapsto> l), loopGo := None\<rparr>))"

definition startProtocol :: "Config \<Rightarrow> World \<Rightarrow> World" where
  "startProtocol c w =
     (let w' =
        (if cMode c = ModePingAck then
           (let w1 = stopGossip w; t = next_ref w1; r = t + 1;
                l = NewPingAck t (cPingEvery c) (cTSuspect c) (cPingFanout c);
                l1 = l\<lparr>PDropRateRecv := cDropRateRecv c\<rparr>;
                l2 = PingSetConfigDTO (ToDTO c) l1
            in w1\<lparr>tables := (tables w1)(t := NewInflight), pings := (pings w1)(r \<mapsto> l2),
                  loopPA := Some r, next_ref := r + 1, ping_threads := insert r (ping_threads w1)\<rparr>)
         else if cMode c = ModeGossip then
           (let w1 = stopPingAck w; r = next_ref w1;
                l = NewGossip (cGossipPeriod c) (cGossipFanout c);
                l1 = l\<lparr>GDropRateRecv := cDropRateRecv c\<rparr>;
                l2 = GossipSetConfigDTO (ToDTO c) l1
            in w1\<lparr>gossips := (gossips w1)(r \<mapsto> l2), loopGo := Some r, next_ref := r + 1,
                  gossip_threads := insert r (gossip_threads w1)\<rparr>)
         else w)
      in w'\<lparr>mode := cMode c\<rparr>)"

definition reconfigurePing :: "Config \<Rightarrow> World \<Rightarrow> World" where
  "reconfigurePing next w =
     (case loopPA w of
        None \<Rightarrow> w
      | Some r \<Rightarrow> w\<lparr>pings := (pings w)(r := map_option (PingReconfigure next) (pings w r))\<rparr>)"

definition reconfigureGossip :: "Config \<Rightarrow> World \<Rightarrow> World" where
  "reconfigureGossip next w =
     (case loopGo w of
        None \<Rightarrow> w
      | Some r \<Rightarrow> w\<lparr>gossips := (gossips w)(r := map_option (GossipReconfigure next) (gossips w r))\<rparr>)"

definition refreshDTO :: "ConfigDTO \<Rightarrow> World \<Rightarrow> World" where
  "refreshDTO dto w =
     (let w1 = (case loopGo w of
                  None \<Rightarrow> w
                | Some r \<Rightarrow> w\<lparr>gossips := (gossips w)(r := map_option (GossipSetConfigDTO dto) (gossips w r))\<rparr>)
      in (case loopPA w1 of
            None \<Rightarrow> w1
          | Some r \<Rightarrow> w1\<lparr>pings := (pings w1)(r := map_option (PingSetConfigDTO dto) (pings w1 r))\<rparr>))"

definition reconfigureManager :: "Config \<Rightarrow> World \<Rightarrow> World" where
  "reconfigureManager next w =
     (let useTO = (cMode next = ModePingAck);
          w1 = w\<lparr>sm := ManagerReconfigure (cTSuspect next) (cTFail next) (cTCleanup next) useTO (sm w)\<rparr>
      in if \<not> useTO then w1\<lparr>tables := (tables w1)(inflight w1 := Reset (tables w1 (inflight w1)))\<rparr> else w1)"

definition applyRuntime :: "Config \<Rightarrow> Config \<Rightarrow> World \<Rightarrow> World" where
  "applyRuntime prev next w =
     (let modeChanged = (cMode prev \<noteq> cMode next);
          w1 = (if cMode next = ModePingAck then
                  (if modeChanged \<or> loopPA w = None then startProtocol next w else reconfigurePing next w)
                else if cMode next = ModeGossip then
                  (if modeChanged \<or> loopGo w = None then startProtocol next w else reconfigureGossip next w)
                else w);
          w2 = reconfigureManager next w1;
          w3 = w2\<lparr>st := StoreReconfigure (st w2) next\<rparr>
      in refreshDTO (ToDTO next) w3)"

section \<open>Configuration changes\<close>

text \<open>
  Every change has two parts: the new configuration is computed and stored under the lock, and then
  pushed into the components without it.
\<close>

definition commit_remote :: "ConfigDTO \<Rightarrow> World \<Rightarrow> World \<times> (config_error + bool)" where
  "commit_remote dto w = (let (c, r) = ApplyRemote (cfg w) dto in (w\<lparr>cfg := c\<rparr>, r))"

definition commit_local :: "ConfigDTO \<Rightarrow> World \<Rightarrow> World \<times> (config_error + bool)" where
  "commit_local dto w = (let (c, r) = BumpAndApplyLocal (cfg w) dto in (w\<lparr>cfg := c\<rparr>, r))"

definition onConfigFromWire :: "ConfigDTO \<Rightarrow> World \<Rightarrow> World" where
  "onConfigFromWire dto w =
     (let prev = cfg w; (w1, r) = commit_remote dto w; next = cfg w1
      in if r = Inr True then applyRuntime prev next w1 else w1)"

section \<open>The administrator's interface\<close>

datatype http_error = BadRequest | InternalServerError

text \<open>A row of the member listings; the state is printed as its number, the time is not formatted.\<close>

record apiMember =
  api_id :: string
  api_incarnation :: u64
  api_state :: string
  api_last_update :: gotime

definition toAPI :: "MemberEntry list \<Rightarrow> apiMember list" where
  "toAPI list = map (\<lambda>e. \<lparr>api_id = NodeIDToString (ID e), api_incarnation = Incarnation e,
     api_state = dec (unat (EState e)), api_last_update = LastUpdate e\<rparr>) list"

definition http_get :: "World \<Rightarrow> Config" where
  "http_get w = cfg w"

text \<open>\<open>loadConfig\<close>: the file cannot be read or is not JSON (None), or it decodes into a DTO or not.\<close>

definition loadConfig :: "json option \<Rightarrow> ConfigDTO option" where
  "loadConfig file = Option.bind file dec_dto"

text \<open>
  What \<open>/set\<close> and \<open>/switch\<close> do with a DTO: commit it and push the new configuration into the components.
  The result is the configuration after the commit, or the error.
\<close>

definition local_change :: "ConfigDTO \<Rightarrow> World \<Rightarrow> World \<times> (config_error + Config)" where
  "local_change dto w =
     (let prev = cfg w; (w1, r) = commit_local dto w; next = cfg w1
      in case r of
           Inl e \<Rightarrow> (w1, Inl e)
         | Inr changed \<Rightarrow> (if changed then applyRuntime prev next w1 else w1, Inr next))"

definition http_set :: "json option \<Rightarrow> World \<Rightarrow> World \<times> (http_error + Config)" where
  "http_set file w =
     (case loadConfig file of
        None \<Rightarrow> (w, Inl InternalServerError)
      | Some dto \<Rightarrow>
          (case local_change dto w of
             (w', Inl _) \<Rightarrow> (w', Inl BadRequest)
           | (w', Inr next) \<Rightarrow> (w', Inr next)))"

text \<open>\<open>/leave\<close>: the loop over the snapshot, which marks the local entry.\<close>

definition leave_store :: "gotime \<Rightarrow> MemberEntry list \<Rightarrow> Store \<Rightarrow> Store" where
  "leave_store now list s =
     foldl (\<lambda>s e. if ID e = SelfID s then ApplyLocked now s (SelfID s) (Incarnation e + 1) StateLeft else s)
       s list"

definition http_leave :: "gotime \<Rightarrow> string list \<Rightarrow> gotime \<Rightarrow> World \<Rightarrow> World \<times> MemberEntry list" where
  "http_leave snap ord now w =
     (let (list, _, s) = Snapshot snap ord (st w) in (w\<lparr>st := leave_store now list s\<rparr>, list))"

definition http_list_mem :: "gotime \<Rightarrow> string list \<Rightarrow> World \<Rightarrow> World \<times> apiMember list \<times> nat" where
  "http_list_mem snap ord w =
     (let (list, _, s) = Snapshot snap ord (st w) in (w\<lparr>st := s\<rparr>, toAPI list, length list))"

definition http_list_self :: "World \<Rightarrow> string" where
  "http_list_self w = NodeIDToString (SelfID (st w))"

definition http_display_suspects :: "gotime \<Rightarrow> string list \<Rightarrow> World \<Rightarrow> World \<times> apiMember list" where
  "http_display_suspects snap ord w =
     (let (list, _, s) = Snapshot snap ord (st w)
      in (w\<lparr>st := s\<rparr>, toAPI (filter (\<lambda>e. EState e = StateSuspect) list)))"

definition http_display_protocol :: "World \<Rightarrow> string \<times> string" where
  "http_display_protocol w =
     (cMode (cfg w), if cTSuspect (cfg w) = 0 then ''disabled'' else ''enabled'')"

record switchReq =
  Protocol :: string
  SuspicionMode :: string
  SuspicionTime :: string

text \<open>The DTO that \<open>/switch\<close> builds from the current configuration, if the request is well formed.\<close>

definition switch_dto :: "switchReq \<Rightarrow> Config \<Rightarrow> ConfigDTO option" where
  "switch_dto req c =
     (let dto = ToDTO c; p = ToLower (TrimSpace (Protocol req)) in
      if p \<noteq> ''gossip'' \<and> p \<noteq> ''pingack'' then None
      else
        (let dto1 = dto\<lparr>dMode := p\<rparr>; s = ToLower (TrimSpace (SuspicionMode req));
             t = TrimSpace (SuspicionTime req) in
         if s = ''enabled'' then
           (if t = [] then None
            else case ParseDuration t of
                   None \<Rightarrow> None
                 | Some dur \<Rightarrow> if dur \<le> 0 then None else Some (dto1\<lparr>dTSuspect := Duration_String dur\<rparr>))
         else if s = ''disabled'' then Some (dto1\<lparr>dTSuspect := ''0ms''\<rparr>)
         else None))"

text \<open>The reply to a switch.\<close>

record switchReply =
  rep_protocol :: string
  rep_suspicion :: string
  rep_suspicion_time :: string
  new_version :: int
  effectiveDTO :: ConfigDTO

definition http_switch :: "switchReq option \<Rightarrow> World \<Rightarrow> World \<times> (http_error + switchReply)" where
  "http_switch body w =
     (case body of
        None \<Rightarrow> (w, Inl BadRequest)
      | Some req \<Rightarrow>
          (case switch_dto req (cfg w) of
             None \<Rightarrow> (w, Inl BadRequest)
           | Some dto \<Rightarrow>
               (case local_change dto w of
                  (w', Inl _) \<Rightarrow> (w', Inl BadRequest)
                | (w', Inr next) \<Rightarrow>
                    (w', Inr \<lparr>rep_protocol = dMode dto, rep_suspicion = ToLower (TrimSpace (SuspicionMode req)),
                              rep_suspicion_time = dTSuspect dto, new_version = cVersion next,
                              effectiveDTO = ToDTO next\<rparr>))))"

section \<open>Joining\<close>

text \<open>
  The introducer listens for the connections of joining nodes, or the process exits. Accepting a
  connection runs \<open>handleJoin\<close> in a goroutine of its own; an error of \<open>Accept\<close> is only logged.
\<close>

definition startIntroducerServer :: "(string \<Rightarrow> bool) \<Rightarrow> string \<Rightarrow> World \<Rightarrow> World outcome" where
  "startIntroducerServer listensTCP s w =
     (if listensTCP s then Running (w\<lparr>accepting := True\<rparr>) else Exited)"

text \<open>The introducer's side: the request from the connection, and the response it writes.\<close>

definition handleJoin ::
  "(nat \<Rightarrow> gotime) \<Rightarrow> gotime \<Rightarrow> string list \<Rightarrow> json option \<Rightarrow> World \<Rightarrow> World \<times> json option" where
  "handleJoin clk snap ord input w =
     (case Option.bind input DecodeJoinRequest of
        None \<Rightarrow> (w, None)
      | Some req \<Rightarrow>
          (let s1 = MergeFullList clk (st w) (QList req);
               (membership, _, s2) = Snapshot snap ord s1
           in (w\<lparr>st := s2\<rparr>,
               EncodeJoinResponse \<lparr>RConfigDTO = ToDTO (cfg w), RList = membership\<rparr>)))"

text \<open>
  The joiner's side: one attempt of the loop in \<open>joinCluster\<close>, in the two halves between which it waits
  for the answer. The request holds a snapshot; encoding it can fail. What comes back may be nothing
  (the connection fails, or the text is not JSON). The result of the second half, and of the attempt,
  tells whether the loop ends.
\<close>

definition join_request :: "gotime \<Rightarrow> string list \<Rightarrow> World \<Rightarrow> World \<times> json option" where
  "join_request snap ord w =
     (let (membership, _, s) = Snapshot snap ord (st w)
      in (w\<lparr>st := s\<rparr>, EncodeJoinRequest \<lparr>QList = membership\<rparr>))"

definition join_response :: "json option \<Rightarrow> (nat \<Rightarrow> gotime) \<Rightarrow> World \<Rightarrow> World \<times> bool" where
  "join_response input clk w =
     (case Option.bind input DecodeJoinResponse of
        None \<Rightarrow> (w, False)
      | Some resp \<Rightarrow>
          (let prev = cfg w; (w1, r) = commit_remote (RConfigDTO resp) w; next = cfg w1;
               w2 = (if r = Inr True then applyRuntime prev next w1 else w1)
           in (w2\<lparr>st := MergeFullList clk (st w2) (RList resp)\<rparr>, True)))"

text \<open>
  An undisturbed attempt: \<open>connects\<close> tells whether the dial succeeds, and \<open>answer\<close> is what comes back
  for the request.
\<close>

definition join_attempt ::
  "bool \<Rightarrow> gotime \<Rightarrow> string list \<Rightarrow> (json \<Rightarrow> json option) \<Rightarrow> (nat \<Rightarrow> gotime) \<Rightarrow> World \<Rightarrow> World \<times> bool" where
  "join_attempt connects snap ord answer clk w =
     (if \<not> connects then (w, False)
      else
        (let (w1, req) = join_request snap ord w in
         case req of
           None \<Rightarrow> (w1, False)
         | Some j \<Rightarrow> join_response (answer j) clk w1))"

text \<open>
  \<open>Close\<close> stops whatever the pointers lead to, the manager, and the socket. Closing the manager's channel
  while it is nil, or a second time, panics.
\<close>

definition ManagerClose :: "bool option \<Rightarrow> bool option option" where
  "ManagerClose stop = (case stop of Some False \<Rightarrow> Some (Some True) | _ \<Rightarrow> None)"

lemma ManagerClose_simps [simp]:
  "ManagerClose None = None" "ManagerClose (Some False) = Some (Some True)" "ManagerClose (Some True) = None"
  by (simp_all add: ManagerClose_def)

definition Close :: "World \<Rightarrow> World" where
  "Close w =
     (let w1 = stopGossip (stopPingAck w)
      in case ManagerClose (mgr_stop w1) of
           None \<Rightarrow> w1\<lparr>panicked := True\<rparr>
         | Some stop \<Rightarrow> w1\<lparr>mgr_stop := stop, net_open := False\<rparr>)"

text \<open>
  The manager's goroutine: it makes its channel and its tickers, waits in its \<open>select\<close>, and ends when that
  picks the closed channel.
\<close>

definition ManagerRun :: "World \<Rightarrow> World" where
  "ManagerRun w = w\<lparr>mgr_stop := Some False\<rparr>"

definition mgr_waits :: "World \<Rightarrow> bool" where
  "mgr_waits w \<longleftrightarrow> mgr_stop w \<noteq> None \<and> \<not> mgr_ended w"

definition ManagerEnd :: "World \<Rightarrow> World" where
  "ManagerEnd w = w\<lparr>mgr_ended := True\<rparr>"

section \<open>The loops in the process\<close>

text \<open>What the loop objects at an address \<open>r\<close> see of the process.\<close>

definition ping_at :: "nat \<Rightarrow> World ping_ops" where
  "ping_at r =
     \<lparr>get_store = st, set_store = (\<lambda>s w. w\<lparr>st := s\<rparr>), on_config = Some onConfigFromWire,
      get_ping = (\<lambda>w. case pings w r of None \<Rightarrow> NewPingAck 0 0 0 0 | Some l \<Rightarrow> l),
      get_table = (\<lambda>t w. tables w t), set_table = (\<lambda>t m w. w\<lparr>tables := (tables w)(t := m)\<rparr>)\<rparr>"

definition gossip_at :: "nat \<Rightarrow> World gossip_ops" where
  "gossip_at r =
     \<lparr>get_store = st, set_store = (\<lambda>s w. w\<lparr>st := s\<rparr>), on_config = Some onConfigFromWire,
      get_gossip = (\<lambda>w. case gossips w r of None \<Rightarrow> NewGossip 0 0 | Some l \<Rightarrow> l)\<rparr>"

definition scan_world :: "tick_env \<Rightarrow> World \<Rightarrow> World outcome" where
  "scan_world v w =
     (case manager_tick v (sm w) (tables w) (st w) of
        Exited \<Rightarrow> Exited
      | Running (m, h, s) \<Rightarrow> Running (w\<lparr>sm := m, tables := h, st := s\<rparr>))"

end
