(* ===== verification/DaemonInv.thy ===== *)
theory DaemonInv
  imports Daemon
begin

text \<open>
  The invariant of the daemon process and its preservation by the operations on the configuration and by
  the receive loops. The components' own lemmas (store, loops) enter through the interpretation of
  \<open>loop_world\<close> on the daemon.
\<close>

section \<open>The invariant\<close>

text \<open>
  The objects: addresses are allocated below \<open>next_ref\<close>; a pointer to a loop leads to a loop that is
  not stopped, at most one of the two pointers is set; the table shared with the suspicion manager is
  no ping loop's own table, and it is empty.
\<close>

definition heap_inv :: "World \<Rightarrow> bool" where
  "heap_inv w \<longleftrightarrow>
     \<not> panicked w \<and> MInflight (sm w) = Some (inflight w) \<and> inflight w < next_ref w \<and>
     tables w (inflight w) = NewInflight \<and>
     (\<forall>r l. pings w r = Some l \<longrightarrow> r < next_ref w \<and> PInflight l < next_ref w \<and> PInflight l \<noteq> inflight w) \<and>
     (\<forall>r l. gossips w r = Some l \<longrightarrow> r < next_ref w) \<and>
     (\<forall>r. loopPA w = Some r \<longrightarrow> (\<exists>l. pings w r = Some l \<and> \<not> PStop l)) \<and>
     (\<forall>r. loopGo w = Some r \<longrightarrow> (\<exists>l. gossips w r = Some l \<and> \<not> GStop l)) \<and>
     (loopPA w = None \<or> loopGo w = None) \<and>
     (\<forall>r \<in> ping_threads w. pings w r \<noteq> None) \<and> (\<forall>r \<in> gossip_threads w. gossips w r \<noteq> None)"

definition daemon_inv :: "World \<Rightarrow> bool" where
  "daemon_inv w \<longleftrightarrow> heap_inv w \<and> store_inv (st w) \<and> ValidateClusterParams (cfg w) = None"

lemma heap_inv_frames [simp]:
  "heap_inv (w\<lparr>st := s\<rparr>) = heap_inv w" "heap_inv (w\<lparr>cfg := c\<rparr>) = heap_inv w"
  "heap_inv (w\<lparr>mode := m\<rparr>) = heap_inv w"
  "heap_inv (w\<lparr>mgr_stop := b, net_open := n\<rparr>) = heap_inv w" "heap_inv (w\<lparr>mgr_stop := b\<rparr>) = heap_inv w"
  by (simp_all add: heap_inv_def)

lemma daemon_inv_st: "daemon_inv w \<Longrightarrow> store_inv s \<Longrightarrow> daemon_inv (w\<lparr>st := s\<rparr>)"
  by (simp add: daemon_inv_def)

named_theorems heap_intros \<open>the operations preserve the invariant of the heap\<close>

lemma heap_stopPingAck [heap_intros]: "heap_inv w \<Longrightarrow> heap_inv (stopPingAck w) \<and> loopPA (stopPingAck w) = None"
  by (cases "loopPA w") (auto simp: heap_inv_def stopPingAck_def PingClose_def split: if_splits)

lemma heap_stopGossip [heap_intros]: "heap_inv w \<Longrightarrow> heap_inv (stopGossip w) \<and> loopGo (stopGossip w) = None"
  by (cases "loopGo w") (auto simp: heap_inv_def stopGossip_def GossipClose_def split: if_splits)

lemma stop_frames [simp]:
  "st (stopPingAck w) = st w" "cfg (stopPingAck w) = cfg w" "sm (stopPingAck w) = sm w"
  "inflight (stopPingAck w) = inflight w" "loopGo (stopPingAck w) = loopGo w"
  "st (stopGossip w) = st w" "cfg (stopGossip w) = cfg w" "sm (stopGossip w) = sm w"
  "inflight (stopGossip w) = inflight w" "loopPA (stopGossip w) = loopPA w"
  "mgr_stop (stopPingAck w) = mgr_stop w" "mgr_stop (stopGossip w) = mgr_stop w"
  "mgr_ended (stopPingAck w) = mgr_ended w" "mgr_ended (stopGossip w) = mgr_ended w"
  by (simp_all add: stopPingAck_def stopGossip_def split: option.split)

lemma start_frames [simp]:
  "st (startProtocol c w) = st w" "cfg (startProtocol c w) = cfg w" "sm (startProtocol c w) = sm w"
  "inflight (startProtocol c w) = inflight w" "mode (startProtocol c w) = cMode c"
  "mgr_stop (startProtocol c w) = mgr_stop w" "mgr_ended (startProtocol c w) = mgr_ended w"
  by (simp_all add: startProtocol_def Let_def)

text \<open>Adding a new loop of each kind to a heap in which the other kind has no pointer.\<close>

lemma heap_new_ping:
  assumes "heap_inv w" and "loopGo w = None" and "PInflight l = next_ref w" and "\<not> PStop l"
  shows "heap_inv (w\<lparr>tables := (tables w)(next_ref w := NewInflight),
     pings := (pings w)(next_ref w + 1 \<mapsto> l), loopPA := Some (next_ref w + 1),
     next_ref := next_ref w + 1 + 1, ping_threads := insert (next_ref w + 1) (ping_threads w)\<rparr>)"
  using assms unfolding heap_inv_def by (auto intro: less_SucI)

lemma heap_new_gossip:
  assumes "heap_inv w" and "loopPA w = None" and "\<not> GStop l"
  shows "heap_inv (w\<lparr>gossips := (gossips w)(next_ref w \<mapsto> l), loopGo := Some (next_ref w),
     next_ref := next_ref w + 1, gossip_threads := insert (next_ref w) (gossip_threads w)\<rparr>)"
  using assms unfolding heap_inv_def by (auto intro: less_SucI)

lemma heap_start [heap_intros]:
  assumes "heap_inv w"
  shows "heap_inv (startProtocol c w)"
proof -
  have g: "heap_inv (stopGossip w)" "loopGo (stopGossip w) = None" using assms heap_stopGossip by auto
  have p: "heap_inv (stopPingAck w)" "loopPA (stopPingAck w) = None" using assms heap_stopPingAck by auto
  show ?thesis
    unfolding startProtocol_def Let_def
    using assms heap_new_ping [OF g] heap_new_gossip [OF p]
    by (simp add: NewPingAck_def PingSetConfigDTO_def NewGossip_def GossipSetConfigDTO_def)
qed

text \<open>Changing the fields of the loops that the pointers lead to.\<close>

lemma heap_update_ping:
  assumes "heap_inv w" and "\<And>l. PInflight (f l) = PInflight l" and "\<And>l. PStop (f l) = PStop l"
    and "h = pings w"
  shows "heap_inv (w\<lparr>pings := h(r := map_option f (h r))\<rparr>)"
  using assms unfolding heap_inv_def by auto

lemma heap_update_gossip:
  assumes "heap_inv w" and "\<And>l. GStop (f l) = GStop l"
  shows "heap_inv (w\<lparr>gossips := (gossips w)(r := map_option f (gossips w r))\<rparr>)"
  using assms unfolding heap_inv_def by auto

lemma heap_reconfigure [heap_intros]:
  "heap_inv w \<Longrightarrow> heap_inv (reconfigurePing c w)" "heap_inv w \<Longrightarrow> heap_inv (reconfigureGossip c w)"
  by (auto simp: reconfigurePing_def reconfigureGossip_def PingReconfigure_def GossipReconfigure_def
      intro!: heap_update_ping heap_update_gossip split: option.split)

lemma heap_refresh [heap_intros]: "heap_inv w \<Longrightarrow> heap_inv (refreshDTO d w)"
  by (auto simp: refreshDTO_def Let_def PingSetConfigDTO_def GossipSetConfigDTO_def
      intro!: heap_update_ping heap_update_gossip split: option.split)

lemma heap_manager [heap_intros]: "heap_inv w \<Longrightarrow> heap_inv (reconfigureManager c w)"
  by (auto simp: reconfigureManager_def Let_def heap_inv_def ManagerReconfigure_def Reset_def NewInflight_def)

lemma config_frames [simp]:
  "st (reconfigurePing c w) = st w" "cfg (reconfigurePing c w) = cfg w" "sm (reconfigurePing c w) = sm w"
  "st (reconfigureGossip c w) = st w" "cfg (reconfigureGossip c w) = cfg w" "sm (reconfigureGossip c w) = sm w"
  "st (refreshDTO d w) = st w" "cfg (refreshDTO d w) = cfg w" "sm (refreshDTO d w) = sm w"
  "mode (reconfigurePing c w) = mode w" "mode (reconfigureGossip c w) = mode w" "mode (refreshDTO d w) = mode w"
  "st (reconfigureManager c w) = st w" "cfg (reconfigureManager c w) = cfg w"
  "mode (reconfigureManager c w) = mode w"
  by (simp_all add: reconfigurePing_def reconfigureGossip_def refreshDTO_def reconfigureManager_def Let_def
      split: option.split)

lemma applyRuntime_frames [simp]:
  "cfg (applyRuntime p c w) = cfg w" "st (applyRuntime p c w) = StoreReconfigure (st w) c"
  "entries (st (applyRuntime p c w)) = entries (st w)" "selfID (st (applyRuntime p c w)) = selfID (st w)"
  by (simp_all add: applyRuntime_def Let_def)

lemma heap_applyRuntime [heap_intros]: "heap_inv w \<Longrightarrow> heap_inv (applyRuntime p c w)"
  by (simp add: applyRuntime_def Let_def heap_intros)

lemma commit_frames [simp]:
  "st (fst (commit_remote d w)) = st w" "st (fst (commit_local d w)) = st w"
  "heap_inv (fst (commit_remote d w)) = heap_inv w" "heap_inv (fst (commit_local d w)) = heap_inv w"
  "cfg (fst (commit_remote d w)) = fst (ApplyRemote (cfg w) d)"
  "cfg (fst (commit_local d w)) = fst (BumpAndApplyLocal (cfg w) d)"
  "snd (commit_remote d w) = snd (ApplyRemote (cfg w) d)"
  "snd (commit_local d w) = snd (BumpAndApplyLocal (cfg w) d)"
  by (simp_all add: commit_remote_def commit_local_def split_beta)

lemma valid_adopt [simp]: "ValidateClusterParams (adopt c k) = ValidateClusterParams k"
  by (simp add: adopt_def ValidateClusterParams_def)

lemma ApplyDTO_valid:
  "ValidateClusterParams c = None \<Longrightarrow> ValidateClusterParams (fst (ApplyDTO c d)) = None"
  by (rule ApplyDTO_cases [of d c]) simp_all

lemma valid_commits [simp]:
  "ValidateClusterParams c = None \<Longrightarrow> ValidateClusterParams (fst (ApplyRemote c d)) = None"
  "ValidateClusterParams c = None \<Longrightarrow> ValidateClusterParams (fst (BumpAndApplyLocal c d)) = None"
  by (simp_all add: ApplyRemote_def BumpAndApplyLocal_def ApplyDTO_valid)

lemma onConfig_frames [simp]:
  "cfg (onConfigFromWire d w) = fst (ApplyRemote (cfg w) d)"
  "entries (st (onConfigFromWire d w)) = entries (st w)" "selfID (st (onConfigFromWire d w)) = selfID (st w)"
  by (simp_all add: onConfigFromWire_def Let_def split_beta)

text \<open>The loops' view of the daemon keeps the contract of the loops.\<close>

interpretation ping_world: loop_world "world_ops.truncate (ping_at r)" for r
  by unfold_locales (auto simp: ping_at_def world_ops.truncate_def)

interpretation gossip_world: loop_world "world_ops.truncate (gossip_at r)" for r
  by unfold_locales (auto simp: gossip_at_def world_ops.truncate_def)

lemma daemon_onConfig: "daemon_inv w \<Longrightarrow> daemon_inv (onConfigFromWire d w)"
  by (auto simp: daemon_inv_def onConfigFromWire_def Let_def split_beta store_inv_Reconfigure heap_intros)

lemma daemon_inv_apply_config:
  assumes "on_config ops = Some onConfigFromWire" and "daemon_inv w"
  shows "daemon_inv (apply_config ops m w)"
  using assms daemon_onConfig by (auto simp: apply_config_def split: option.split)

section \<open>Growth\<close>

text \<open>Objects are never freed, the shared table keeps its address, and the identity of the node stays.\<close>

definition grows :: "World \<Rightarrow> World \<Rightarrow> bool" where
  "grows w w' \<longleftrightarrow>
     (\<forall>r. pings w r \<noteq> None \<longrightarrow> pings w' r \<noteq> None) \<and> (\<forall>r. gossips w r \<noteq> None \<longrightarrow> gossips w' r \<noteq> None) \<and>
     inflight w' = inflight w \<and> selfID (st w') = selfID (st w) \<and> cVersion (cfg w) \<le> cVersion (cfg w')"

lemma grows_refl [simp]: "grows w w"
  by (simp add: grows_def)

lemma grows_trans: "grows u v \<Longrightarrow> grows v w \<Longrightarrow> grows u w"
  unfolding grows_def by (metis order_trans)

lemma grows_store: "selfID s = selfID (st w) \<Longrightarrow> grows w (w\<lparr>st := s\<rparr>)"
  by (simp add: grows_def)

lemma grows_table: "grows w (w\<lparr>tables := t\<rparr>)"
  by (simp add: grows_def)

lemma grows_stop: "grows w (stopPingAck w)" "grows w (stopGossip w)"
  by (auto simp: grows_def stopPingAck_def stopGossip_def split: option.splits)

lemma grows_start: "grows w (startProtocol c w)"
  using grows_stop [of w] by (auto simp: grows_def startProtocol_def Let_def)

lemma grows_config:
  "grows w (reconfigurePing c w)" "grows w (reconfigureGossip c w)" "grows w (refreshDTO d w)"
  "grows w (reconfigureManager c w)"
  by (auto simp: grows_def reconfigurePing_def reconfigureGossip_def refreshDTO_def reconfigureManager_def
      Let_def split: option.splits)

lemma grows_applyRuntime: "grows w (applyRuntime p c w)"
proof -
  define w1 where "w1 = (if cMode c = ModePingAck then
                  (if cMode p \<noteq> cMode c \<or> loopPA w = None then startProtocol c w else reconfigurePing c w)
                else if cMode c = ModeGossip then
                  (if cMode p \<noteq> cMode c \<or> loopGo w = None then startProtocol c w else reconfigureGossip c w)
                else w)"
  define w2 where "w2 = reconfigureManager c w1"
  have "grows w w1" by (simp add: w1_def grows_start grows_config)
  moreover have "grows w1 w2" by (simp add: w2_def grows_config)
  moreover have "grows w2 (w2\<lparr>st := StoreReconfigure (st w2) c\<rparr>)" by (simp add: grows_def)
  ultimately have "grows w (refreshDTO (ToDTO c) (w2\<lparr>st := StoreReconfigure (st w2) c\<rparr>))"
    using grows_config(3) grows_trans by blast
  then show ?thesis by (simp add: applyRuntime_def Let_def w1_def w2_def)
qed

lemma grows_cfg: "cVersion (cfg w) \<le> cVersion c \<Longrightarrow> grows w (w\<lparr>cfg := c\<rparr>)"
  by (simp add: grows_def)

lemma ApplyRemote_up: "cVersion c \<le> cVersion (fst (ApplyRemote c d))"
  using ApplyDTO_version [of c d] by (simp add: ApplyRemote_def)

lemma BumpAndApplyLocal_up: "cVersion c \<le> cVersion (fst (BumpAndApplyLocal c d))"
  unfolding BumpAndApplyLocal_def using ApplyDTO_version by blast

lemma grows_commit: "grows w (fst (commit_remote d w))" "grows w (fst (commit_local d w))"
  by (simp_all add: commit_remote_def commit_local_def split_beta grows_cfg ApplyRemote_up BumpAndApplyLocal_up)

lemma grows_onConfig: "grows w (onConfigFromWire d w)"
  using grows_commit(1) [of w d] grows_applyRuntime grows_trans
  by (auto simp: onConfigFromWire_def Let_def split_beta)

lemma grows_apply_config:
  "on_config ops = Some onConfigFromWire \<Longrightarrow> grows w (apply_config ops m w)"
  by (auto simp: apply_config_def grows_onConfig split: option.split)

section \<open>The loops preserve the invariant\<close>

lemma heap_table:
  assumes "heap_inv w" and "i \<noteq> inflight w"
  shows "heap_inv (w\<lparr>tables := (tables w)(i := m)\<rparr>)"
  using assms by (simp add: heap_inv_def)

lemma ping_table:
  assumes "daemon_inv w" and "pings w r \<noteq> None"
  shows "daemon_inv (set_table (ping_at r) (PInflight (get_ping (ping_at r) w)) m w)"
    and "grows w (set_table (ping_at r) (PInflight (get_ping (ping_at r) w)) m w)"
proof -
  obtain l where l: "pings w r = Some l" using assms(2) by blast
  then have "PInflight l \<noteq> inflight w" using assms(1) by (auto simp: daemon_inv_def heap_inv_def)
  then show "daemon_inv (set_table (ping_at r) (PInflight (get_ping (ping_at r) w)) m w)"
    using assms(1) l heap_table by (simp add: ping_at_def daemon_inv_def)
  show "grows w (set_table (ping_at r) (PInflight (get_ping (ping_at r) w)) m w)"
    by (simp add: ping_at_def grows_table)
qed

text \<open>Steps through the store: a snapshot and a merge, seen from the daemon.\<close>

lemma store_ops [simp]:
  "get_store (world_ops.truncate (ping_at r)) = st"
  "set_store (world_ops.truncate (ping_at r)) = (\<lambda>s w. w\<lparr>st := s\<rparr>)"
  "on_config (world_ops.truncate (ping_at r)) = Some onConfigFromWire"
  "get_store (world_ops.truncate (gossip_at r)) = st"
  "set_store (world_ops.truncate (gossip_at r)) = (\<lambda>s w. w\<lparr>st := s\<rparr>)"
  "on_config (world_ops.truncate (gossip_at r)) = Some onConfigFromWire"
  by (simp_all add: ping_at_def gossip_at_def world_ops.truncate_def)

definition world_ok :: "World \<Rightarrow> World \<Rightarrow> bool" where
  "world_ok w w' \<longleftrightarrow> daemon_inv w' \<and> grows w w'"

lemma world_okI: "daemon_inv w' \<Longrightarrow> grows w w' \<Longrightarrow> world_ok w w'"
  by (simp add: world_ok_def)

lemma world_ok_trans: "world_ok u v \<Longrightarrow> (daemon_inv v \<Longrightarrow> world_ok v w) \<Longrightarrow> world_ok u w"
  using grows_trans by (auto simp: world_ok_def)

lemma snapshot_ok:
  assumes "daemon_inv w" and "get_store ops = st" and "set_store ops = (\<lambda>s w. w\<lparr>st := s\<rparr>)"
    and "take_snapshot ops now ord w = (list, self, w')"
  shows "world_ok w w'"
proof -
  have "w' = w\<lparr>st := snd (snd (Snapshot now ord (st w)))\<rparr>"
    using assms(2-4) by (auto simp: take_snapshot_def split: prod.splits)
  then show ?thesis
    using assms(1) daemon_inv_st store_inv_Snapshot
    by (auto simp: world_ok_def daemon_inv_def grows_store)
qed

lemma merge_ok:
  assumes "daemon_inv w" and "get_store ops = st" and "set_store ops = (\<lambda>s w. w\<lparr>st := s\<rparr>)"
  shows "world_ok w (merge_list ops clk es w)"
  using assms by (simp add: merge_list_def world_ok_def daemon_inv_def store_inv_Merge grows_store)

lemma apply_config_ok:
  "daemon_inv w \<Longrightarrow> on_config ops = Some onConfigFromWire \<Longrightarrow> world_ok w (apply_config ops m w)"
  by (simp add: world_ok_def daemon_inv_apply_config grows_apply_config)

lemma gossip_recv_ok:
  assumes "daemon_inv w"
  shows "world_ok w (fst (gossip_recv (gossip_at r) v input w))"
proof (cases "gossip_recv (gossip_at r) v input w = (w, snd (gossip_recv (gossip_at r) v input w))")
  case True
  then show ?thesis using assms by (metis fst_conv grows_refl world_okI)
next
  case False
  let ?ops = "world_ops.truncate (gossip_at r)"
  obtain b src msg where i: "input = Datagram b src" "decode_datagram b = Some msg"
    "\<not> drops (GDropRateRecv (get_gossip (gossip_at r) w)) (r_coin v)"
    using False by (auto simp: gossip_recv_def split: read.splits if_splits option.splits)
  let ?w1 = "apply_config ?ops msg w"
  obtain list self w2 where s: "take_snapshot ?ops (r_snap v) (r_ord v) ?w1 = (list, self, w2)"
    by (metis prod.exhaust)
  have 1: "world_ok w ?w1" using assms by (rule apply_config_ok) simp
  then have 2: "world_ok w w2"
    by (rule world_ok_trans) (rule snapshot_ok [OF _ _ _ s], simp_all)
  then have 3: "world_ok w (merge_list ?ops (r_clk v) (MList msg) w2)"
    by (rule world_ok_trans) (rule merge_ok, simp_all)
  show ?thesis using i s 2 3 by (simp add: gossip_recv_def Let_def)
qed

lemma ping_recv_ok:
  assumes "daemon_inv w" and "pings w r \<noteq> None"
  shows "world_ok w (fst (ping_recv (ping_at r) v input w))"
proof (cases "ping_recv (ping_at r) v input w = (w, snd (ping_recv (ping_at r) v input w))")
  case True
  then show ?thesis using assms by (metis fst_conv grows_refl world_okI)
next
  case False
  let ?ops = "world_ops.truncate (ping_at r)"
  obtain b src msg where i: "input = Datagram b src" "decode_datagram b = Some msg"
    "\<not> drops (PDropRateRecv (get_ping (ping_at r) w)) (r_coin v)"
    using False by (auto simp: ping_recv_def split: read.splits if_splits option.splits)
  let ?w1 = "apply_config ?ops msg w"
  obtain list self w2 where s: "take_snapshot ?ops (r_snap v) (r_ord v) ?w1 = (list, self, w2)"
    by (metis prod.exhaust)
  have 1: "world_ok w ?w1" using assms(1) by (rule apply_config_ok) simp
  then have 2: "world_ok w w2"
    by (rule world_ok_trans) (rule snapshot_ok [OF _ _ _ s], simp_all)
  then have 3: "world_ok w (merge_list ?ops (r_clk v) (MList msg) w2)"
    by (rule world_ok_trans) (rule merge_ok, simp_all)
  obtain list2 self2 w4 where s2: "take_snapshot ?ops (r_snap2 v) (r_ord2 v)
      (merge_list ?ops (r_clk v) (MList msg) w2) = (list2, self2, w4)"
    by (metis prod.exhaust)
  have 4: "world_ok w w4"
    using 3 by (rule world_ok_trans) (rule snapshot_ok [OF _ _ _ s2], simp_all)
  have r: "pings w2 r \<noteq> None" using 2 assms(2) by (simp add: world_ok_def grows_def)
  have 5: "world_ok w (merge_list ?ops (r_clk v) (MList msg)
      (set_table (ping_at r) (PInflight (get_ping (ping_at r) w2)) m w2))" for m
    using 2 by (rule world_ok_trans) (rule world_ok_trans [OF world_okI [OF ping_table] merge_ok], use r in simp_all)
  show ?thesis using i s s2 2 3 4 5 by (simp add: ping_recv_def Let_def)
qed

end
