(* ===== verification/DaemonSteps.thy ===== *)
theory DaemonSteps
  imports DaemonInv
begin

text \<open>
  The process as a transition system. A step is one operation of one goroutine: a tick of the
  suspicion manager, one iteration of a receive loop, one tick of a sending loop, one request of the
  administrator or of a joining node, one attempt to join, the start of the protocol, the shutdown.
  What the runtime and the network supply to an operation is arbitrary, and so is the order of steps.
  Every reachable state satisfies the invariant of \<open>DaemonInv\<close>.
\<close>

section \<open>The remaining operations preserve the invariant\<close>

lemma send_ping_ok:
  assumes "daemon_inv w" and "pings w r \<noteq> None"
  shows "world_ok w (fst (send_ping (ping_at r) v tS list (w, sent) ia))"
  using assms ping_table [OF assms]
  by (cases ia) (auto simp: send_ping_def Let_def world_ok_def split: option.split)

lemma send_pings_ok:
  "daemon_inv (fst ws) \<Longrightarrow> pings (fst ws) r \<noteq> None \<Longrightarrow>
   world_ok (fst ws) (fst (foldl (send_ping (ping_at r) v tS list) ws ts))"
proof (induction ts arbitrary: ws)
  case Nil
  then show ?case by (simp add: world_ok_def)
next
  case (Cons t ts)
  have 1: "world_ok (fst ws) (fst (send_ping (ping_at r) v tS list ws t))"
    using Cons.prems send_ping_ok [of "fst ws" r v tS list "snd ws" t] by simp
  then have "pings (fst (send_ping (ping_at r) v tS list ws t)) r \<noteq> None"
    using Cons.prems(2) by (simp add: world_ok_def grows_def)
  then have "world_ok (fst ws) (fst (foldl (send_ping (ping_at r) v tS list) (send_ping (ping_at r) v tS list ws t) ts))"
    using Cons.IH [of "send_ping (ping_at r) v tS list ws t"] by (intro world_ok_trans [OF 1]) simp
  then show ?case by simp
qed

lemma ping_tick_ok:
  assumes "daemon_inv w" and "pings w r \<noteq> None"
  shows "world_ok w (fst (ping_tick (ping_at r) v prev w))"
proof -
  obtain list self w1 where s: "take_snapshot (world_ops.truncate (ping_at r)) (s_snap v) (s_ord v) w = (list, self, w1)"
    by (metis prod.exhaust)
  have 1: "world_ok w w1" by (rule snapshot_ok [OF assms(1) _ _ s]) simp_all
  then have "pings w1 r \<noteq> None" using assms(2) by (simp add: world_ok_def grows_def)
  then have "world_ok w (fst (foldl (send_ping (ping_at r) v tS list) (w1, []) ts))" for tS ts
    using 1 send_pings_ok [of "(w1, [])" r v tS list ts] by (auto intro: world_ok_trans)
  then show ?thesis using s by (simp add: ping_tick_def Let_def split_beta)
qed

lemma gossip_tick_ok:
  assumes "daemon_inv w"
  shows "world_ok w (fst (gossip_tick (gossip_at r) v prev w))"
proof -
  obtain list self w1 where s: "take_snapshot (world_ops.truncate (gossip_at r)) (s_snap v) (s_ord v) w = (list, self, w1)"
    by (metis prod.exhaust)
  have "world_ok w w1" by (rule snapshot_ok [OF assms _ _ s]) simp_all
  then show ?thesis using s by (simp add: gossip_tick_def Let_def)
qed

text \<open>
  A tick of the manager: since the table it shares with the daemon is empty, its second half never
  acts, and the tick is the scan alone.
\<close>

lemma shared_table_empty: "daemon_inv w \<Longrightarrow> MInflight (sm w) = Some i \<Longrightarrow> tables w i = NewInflight"
  by (auto simp: daemon_inv_def heap_inv_def)

lemma manager_tick_scan:
  assumes "daemon_inv w"
  shows "manager_tick v (sm w) (tables w) (st w) =
     (case scanOnce (t_clock v) (t_snap1 v) (t_ord1 v) (t_now v) (TSuspect (sm w)) (TFail (sm w))
             (TCleanup (sm w)) (st w, failMarks (sm w)) of
        Exited \<Rightarrow> Exited
      | Running (s, marks) \<Rightarrow> Running ((sm w)\<lparr>failMarks := marks\<rparr>, tables w, s))"
proof -
  obtain i where i: "MInflight (sm w) = Some i" "tables w i = NewInflight"
    using assms shared_table_empty by (auto simp: daemon_inv_def heap_inv_def)
  have "(tables w)(i := NewInflight) = tables w" using i(2) by auto
  then show ?thesis
    using i by (auto simp: manager_tick_def reap_empty Let_def split: outcome.split bool.split prod.split)
qed

lemma heap_marks [simp]: "heap_inv (w\<lparr>sm := (sm w)\<lparr>failMarks := n\<rparr>\<rparr>) = heap_inv w"
  by (simp add: heap_inv_def)

lemma scan_world_ok:
  assumes "daemon_inv w" and "scan_world v w = Running w'"
  shows "world_ok w w'"
proof -
  obtain s marks where s: "scanOnce (t_clock v) (t_snap1 v) (t_ord1 v) (t_now v) (TSuspect (sm w)) (TFail (sm w))
      (TCleanup (sm w)) (st w, failMarks (sm w)) = Running (s, marks)"
    and w': "w' = w\<lparr>sm := (sm w)\<lparr>failMarks := marks\<rparr>, tables := tables w, st := s\<rparr>"
    using assms(2) by (auto simp: scan_world_def manager_tick_scan [OF assms(1)] split: outcome.splits)
  have "store_inv s" "selfID s = selfID (st w)"
    using scanOnce_inv [OF s] assms(1) by (simp_all add: daemon_inv_def)
  moreover have "w' = (w\<lparr>sm := (sm w)\<lparr>failMarks := marks\<rparr>\<rparr>)\<lparr>st := s\<rparr>" using w' by simp
  ultimately show ?thesis
    using assms(1) by (simp add: world_ok_def daemon_inv_def grows_def)
qed

lemma rate_ok: "daemon_inv w \<Longrightarrow> world_ok w (w\<lparr>sm := rate_tick (sm w)\<rparr>)"
  by (simp add: world_ok_def daemon_inv_def grows_def rate_tick_def)

text \<open>A committed change of the configuration, pushed into the components if it was accepted.\<close>

lemma committed_ok:
  assumes "daemon_inv w" and "commit = commit_remote d \<or> commit = commit_local d"
  shows "world_ok w (fst (commit w))" and "world_ok w (applyRuntime p c (fst (commit w)))"
proof -
  show 1: "world_ok w (fst (commit w))"
    using assms grows_commit by (auto simp: world_ok_def daemon_inv_def)
  have "daemon_inv (applyRuntime p c (fst (commit w)))"
    using 1 by (simp add: world_ok_def daemon_inv_def heap_intros store_inv_Reconfigure)
  then show "world_ok w (applyRuntime p c (fst (commit w)))"
    using 1 grows_applyRuntime grows_trans by (auto simp: world_ok_def)
qed

text \<open>The local changes: nothing happens unless the change is accepted.\<close>

lemma local_rejected:
  assumes "snd (commit_local d w) \<noteq> Inr True"
  shows "fst (commit_local d w) = w"
proof -
  have "fst (BumpAndApplyLocal (cfg w) d) = cfg w"
    using assms ApplyDTO_version unfolding commit_frames BumpAndApplyLocal_def by blast
  then show ?thesis by (simp add: commit_local_def split_beta)
qed

lemma local_change_fst:
  "fst (local_change d w) =
     (if snd (commit_local d w) = Inr True
      then applyRuntime (cfg w) (cfg (fst (commit_local d w))) (fst (commit_local d w)) else w)"
proof (cases "snd (commit_local d w) = Inr True")
  case True
  then show ?thesis by (simp only: local_change_def Let_def split_beta) simp
next
  case False
  from local_rejected [OF this] False show ?thesis
    by (simp only: local_change_def Let_def split_beta) (simp split: sum.split)
qed

lemma http_fst:
  "fst (http_set file w) = (case loadConfig file of None \<Rightarrow> w | Some d \<Rightarrow> fst (local_change d w))"
  "fst (http_switch body w) =
     (case Option.bind body (\<lambda>req. switch_dto req (cfg w)) of None \<Rightarrow> w | Some d \<Rightarrow> fst (local_change d w))"
  by (simp_all add: http_set_def http_switch_def bind_split split: option.split prod.split sum.split)

lemma local_change_ok: "daemon_inv w \<Longrightarrow> world_ok w (fst (local_change d w))"
  using committed_ok(2) [of w "commit_local d" d] by (simp add: local_change_fst world_ok_def)

lemma http_config_ok:
  "daemon_inv w \<Longrightarrow> world_ok w (fst (http_set file w))" "daemon_inv w \<Longrightarrow> world_ok w (fst (http_switch body w))"
  by (simp_all add: http_fst local_change_ok world_ok_def [of w w] split: option.split)

lemma leave_store_inv:
  "store_inv s \<Longrightarrow> store_inv (leave_store now list s)" "selfID (leave_store now list s) = selfID s"
proof -
  have "store_inv s \<Longrightarrow> store_inv (foldl (\<lambda>s e. if ID e = SelfID s then
      ApplyLocked now s (SelfID s) (Incarnation e + 1) StateLeft else s) s list)" for s
    by (induction list arbitrary: s) (simp_all add: store_inv_intros)
  moreover have "selfID (foldl (\<lambda>s e. if ID e = SelfID s then
      ApplyLocked now s (SelfID s) (Incarnation e + 1) StateLeft else s) s list) = selfID s" for s
    by (induction list arbitrary: s) simp_all
  ultimately show "store_inv s \<Longrightarrow> store_inv (leave_store now list s)"
    "selfID (leave_store now list s) = selfID s"
    by (simp_all add: leave_store_def)
qed

lemma store_step_ok:
  "daemon_inv w \<Longrightarrow> store_inv s \<Longrightarrow> selfID s = selfID (st w) \<Longrightarrow> world_ok w (w\<lparr>st := s\<rparr>)"
  by (simp add: world_ok_def daemon_inv_def grows_store)

lemma snapshot_facts:
  "Snapshot now ord s = (list, self, s') \<Longrightarrow> store_inv s \<Longrightarrow> store_inv s' \<and> selfID s' = selfID s"
  using store_inv_Snapshot [of s now ord] Snapshot_frame [of now ord s] by simp

lemma http_leave_ok: "daemon_inv w \<Longrightarrow> world_ok w (fst (http_leave snap ord now w))"
  using snapshot_facts [of snap ord "st w"]
  by (auto simp: http_leave_def daemon_inv_def leave_store_inv intro!: store_step_ok split: prod.split)

lemma http_lists_ok:
  "daemon_inv w \<Longrightarrow> world_ok w (fst (http_list_mem snap ord w))"
  "daemon_inv w \<Longrightarrow> world_ok w (fst (http_display_suspects snap ord w))"
  using snapshot_facts [of snap ord "st w"]
  by (auto simp: http_list_mem_def http_display_suspects_def daemon_inv_def intro!: store_step_ok
      split: prod.split)

lemma handleJoin_ok:
  assumes "daemon_inv w"
  shows "world_ok w (fst (handleJoin clk snap ord input w))"
proof (cases "Option.bind input DecodeJoinRequest")
  case None
  then show ?thesis using assms by (simp add: handleJoin_def world_ok_def)
next
  case (Some req)
  obtain list self s where s: "Snapshot snap ord (MergeFullList clk (st w) (QList req)) = (list, self, s)"
    by (metis prod.exhaust)
  have "store_inv (MergeFullList clk (st w) (QList req))"
    using assms by (simp add: daemon_inv_def store_inv_Merge)
  then have "store_inv s" "selfID s = selfID (st w)" using snapshot_facts [OF s] by simp_all
  with Some s assms show ?thesis by (simp add: handleJoin_def store_step_ok)
qed

lemma join_request_ok: "daemon_inv w \<Longrightarrow> world_ok w (fst (join_request snap ord w))"
  using snapshot_facts [of snap ord "st w"]
  by (auto simp: join_request_def daemon_inv_def intro!: store_step_ok split: prod.split)

lemma join_response_ok:
  assumes "daemon_inv w"
  shows "world_ok w (fst (join_response input clk w))"
proof -
  have 0: "world_ok w w" using assms by (simp add: world_ok_def)
  have 2: "world_ok w (fst (commit_remote d w))" "world_ok w (applyRuntime p c (fst (commit_remote d w)))" for p c d
    using committed_ok [OF assms, of "commit_remote d" d] by blast+
  have 3: "world_ok w (w3\<lparr>st := MergeFullList clk (st w3) es\<rparr>)" if "world_ok w w3" for w3 es
    using that by (rule world_ok_trans) (simp add: store_step_ok store_inv_Merge daemon_inv_def)
  show ?thesis
    using 0 3 [OF 2(1)] 3 [OF 2(2)]
    by (auto simp: join_response_def Let_def split_beta split: option.split)
qed

lemma join_attempt_ok:
  assumes "daemon_inv w"
  shows "world_ok w (fst (join_attempt connects snap ord answer clk w))"
  using join_request_ok [OF assms, of snap ord] assms
  by (auto simp: join_attempt_def split_beta world_ok_def [of w w]
      intro: world_ok_trans join_response_ok split: option.split)

lemma start_ok: "daemon_inv w \<Longrightarrow> world_ok w (startProtocol c w)"
  by (simp add: world_ok_def daemon_inv_def heap_intros grows_start)

lemma heap_Close:
  assumes "heap_inv w" and "mgr_stop w = Some False"
  shows "heap_inv (Close w)"
  using heap_stopPingAck [OF assms(1)] heap_stopGossip [of "stopPingAck w"] assms(2)
  by (simp add: Close_def Let_def)

lemma Close_ok: "daemon_inv w \<Longrightarrow> mgr_stop w = Some False \<Longrightarrow> world_ok w (Close w)"
  using heap_Close [of w] grows_stop(1) [of w] grows_stop(2) [of "stopPingAck w"]
    grows_trans [of w "stopPingAck w" "stopGossip (stopPingAck w)"]
  by (simp add: world_ok_def daemon_inv_def Close_def Let_def) (simp add: grows_def)

lemma manager_ok: "daemon_inv w \<Longrightarrow> world_ok w (ManagerRun w)" "daemon_inv w \<Longrightarrow> world_ok w (ManagerEnd w)"
  by (simp_all add: ManagerRun_def ManagerEnd_def world_ok_def daemon_inv_def heap_inv_def grows_def)

section \<open>Steps\<close>

text \<open>
  The phases of the main goroutine: in \<open>joinCluster\<close> before a request and waiting for the answer, past it (or an introducer) but before
  \<open>startProtocol\<close>, serving, and after \<open>Close\<close>. The main goroutine waits for a signal before it closes; by
  then the manager's goroutine is taken to have started.
\<close>

datatype phase = Joining | Asked | Booted | Serving | Closed

text \<open>A receive goroutine ends when its step says so, or when it finds \<open>stop\<close> closed at the loop head.\<close>

definition after_ping :: "nat \<Rightarrow> World \<times> 'a received \<Rightarrow> World" where
  "after_ping r wr =
     (let w = fst wr in
      if snd wr = Stopped \<or> \<not> ping_enter (get_ping (ping_at r) w)
      then w\<lparr>ping_threads := ping_threads w - {r}\<rparr> else w)"

definition after_gossip :: "nat \<Rightarrow> World \<times> 'a received \<Rightarrow> World" where
  "after_gossip r wr =
     (let w = fst wr in
      if snd wr = Stopped \<or> \<not> gossip_enter (get_gossip (gossip_at r) w)
      then w\<lparr>gossip_threads := gossip_threads w - {r}\<rparr> else w)"

text \<open>A change of the local values of a sending goroutine.\<close>

definition with_ping_sender :: "nat \<Rightarrow> (sender \<Rightarrow> sender) \<Rightarrow> World \<Rightarrow> World" where
  "with_ping_sender r f w = w\<lparr>ping_senders := (ping_senders w)(r := f (ping_senders w r))\<rparr>"

definition with_gossip_sender :: "nat \<Rightarrow> (sender \<Rightarrow> sender) \<Rightarrow> World \<Rightarrow> World" where
  "with_gossip_sender r f w = w\<lparr>gossip_senders := (gossip_senders w)(r := f (gossip_senders w r))\<rparr>"

inductive dstep :: "Config \<Rightarrow> phase \<times> World \<Rightarrow> phase \<times> World \<Rightarrow> bool" for c0 :: Config where
  scan: "scan_world v w = Running w' \<Longrightarrow> mgr_waits w \<Longrightarrow> dstep c0 (ph, w) (ph, w')"
| rate: "mgr_waits w \<Longrightarrow> dstep c0 (ph, w) (ph, w\<lparr>sm := rate_tick (sm w)\<rparr>)"
| ping_receive: "r \<in> ping_threads w \<Longrightarrow>
    dstep c0 (ph, w) (ph, after_ping r (ping_recv (ping_at r) rv (UDP_Read (net_open w) (input :: string read)) w))"
| ping_begin: "pings w r = Some l \<Longrightarrow>
    dstep c0 (ph, w) (ph, with_ping_sender r (sender_read (PingEvery l)) w)"
| ping_send: "pings w r \<noteq> None \<Longrightarrow> ping_senders w r = Ticking ticker prev \<Longrightarrow>
    ping_tick (ping_at r) sv prev w = (w', out, period) \<Longrightarrow>
    dstep c0 (ph, w) (ph, with_ping_sender r (sender_ticked period) w')"
| ping_quit: "pings w r = Some l \<Longrightarrow> PStop l \<Longrightarrow> dstep c0 (ph, w) (ph, with_ping_sender r sender_stop w)"
| gossip_receive: "r \<in> gossip_threads w \<Longrightarrow>
    dstep c0 (ph, w) (ph, after_gossip r (gossip_recv (gossip_at r) rv (UDP_Read (net_open w) (input :: string read)) w))"
| gossip_begin: "gossips w r = Some g \<Longrightarrow>
    dstep c0 (ph, w) (ph, with_gossip_sender r (sender_read (GossipPeriod g)) w)"
| gossip_send: "gossips w r \<noteq> None \<Longrightarrow> gossip_senders w r = Ticking ticker prev \<Longrightarrow>
    gossip_tick (gossip_at r) sv prev w = (w', out, period) \<Longrightarrow>
    dstep c0 (ph, w) (ph, with_gossip_sender r (sender_ticked period) w')"
| gossip_quit: "gossips w r = Some g \<Longrightarrow> GStop g \<Longrightarrow> dstep c0 (ph, w) (ph, with_gossip_sender r sender_stop w)"
| join_fails: "join_request snap ord w = (w', None) \<Longrightarrow> dstep c0 (Joining, w) (Joining, w')"
| join_asks: "join_request snap ord w = (w', Some j) \<Longrightarrow> dstep c0 (Joining, w) (Asked, w')"
| join_retry: "join_response answer clk w = (w', False) \<Longrightarrow> dstep c0 (Asked, w) (Joining, w')"
| join_done: "join_response answer clk w = (w', True) \<Longrightarrow> dstep c0 (Asked, w) (Booted, w')"
| serve: "dstep c0 (Booted, w) (Serving, startProtocol c0 w)"
| introducer: "cIsIntroducer c0 \<Longrightarrow>
    startIntroducerServer listensTCP (cIntroducerBindAddr c0) w = Running w' \<Longrightarrow> dstep c0 (ph, w) (ph, w')"
| introduce: "cIsIntroducer c0 \<Longrightarrow> accepting w \<Longrightarrow> dstep c0 (ph, w) (ph, fst (handleJoin clk snap ord msg w))"
| set_config: "dstep c0 (Serving, w) (Serving, fst (http_set file w))"
| switch: "dstep c0 (Serving, w) (Serving, fst (http_switch body w))"
| leave: "dstep c0 (Serving, w) (Serving, fst (http_leave snap ord now w))"
| list_mem: "dstep c0 (Serving, w) (Serving, fst (http_list_mem snap ord w))"
| suspects: "dstep c0 (Serving, w) (Serving, fst (http_display_suspects snap ord w))"
| manager: "mgr_stop w = None \<Longrightarrow> dstep c0 (ph, w) (ph, ManagerRun w)"
| manager_end: "mgr_stop w = Some True \<Longrightarrow> dstep c0 (ph, w) (ph, ManagerEnd w)"
| shutdown: "mgr_stop w = Some False \<Longrightarrow> dstep c0 (Serving, w) (Closed, Close w)"

text \<open>\<open>Run\<close> with the configuration \<open>c0\<close>, and every state it can get into.\<close>

inductive reachable :: "Config \<Rightarrow> phase \<times> World \<Rightarrow> bool" for c0 :: Config where
  start: "boot resolver listens t now c0 = Inr w \<Longrightarrow>
    reachable c0 (if cIsIntroducer c0 then Booted else Joining, w)"
| step: "reachable c0 p \<Longrightarrow> dstep c0 p q \<Longrightarrow> reachable c0 q"

lemma after_ok:
  "world_ok w (fst wr) \<Longrightarrow> world_ok w (after_ping r wr)"
  "world_ok w (fst gr) \<Longrightarrow> world_ok w (after_gossip r gr)"
proof -
  have p: "daemon_inv v \<Longrightarrow> daemon_inv (v\<lparr>ping_threads := ping_threads v - {r}\<rparr>)"
    and g: "daemon_inv v \<Longrightarrow> daemon_inv (v\<lparr>gossip_threads := gossip_threads v - {r}\<rparr>)" for v
    by (simp_all add: daemon_inv_def heap_inv_def)
  show "world_ok w (fst wr) \<Longrightarrow> world_ok w (after_ping r wr)"
    using p by (simp add: after_ping_def Let_def world_ok_def grows_def)
  show "world_ok w (fst gr) \<Longrightarrow> world_ok w (after_gossip r gr)"
    using g by (simp add: after_gossip_def Let_def world_ok_def grows_def)
qed

lemma thread_object:
  "daemon_inv w \<Longrightarrow> r \<in> ping_threads w \<Longrightarrow> pings w r \<noteq> None"
  "daemon_inv w \<Longrightarrow> r \<in> gossip_threads w \<Longrightarrow> gossips w r \<noteq> None"
  by (auto simp: daemon_inv_def heap_inv_def)

lemma with_sender_simps [simp]:
  "st (with_ping_sender r f w) = st w" "cfg (with_ping_sender r f w) = cfg w" "pings (with_ping_sender r f w) = pings w"
  "gossips (with_ping_sender r f w) = gossips w" "mgr_stop (with_ping_sender r f w) = mgr_stop w"
  "st (with_gossip_sender r f w) = st w" "cfg (with_gossip_sender r f w) = cfg w" "pings (with_gossip_sender r f w) = pings w"
  "gossips (with_gossip_sender r f w) = gossips w" "mgr_stop (with_gossip_sender r f w) = mgr_stop w"
  by (simp_all add: with_ping_sender_def with_gossip_sender_def)

lemma with_sender_ok [simp]:
  "world_ok w (with_ping_sender r f w') = world_ok w w'" "world_ok w (with_gossip_sender r f w') = world_ok w w'"
  by (simp_all add: world_ok_def daemon_inv_def heap_inv_def grows_def with_ping_sender_def with_gossip_sender_def)

lemma world_ok_refl: "daemon_inv w \<Longrightarrow> world_ok w w"
  by (simp add: world_ok_def)

lemma introducer_ok:
  "daemon_inv w \<Longrightarrow> startIntroducerServer listensTCP s w = Running w' \<Longrightarrow> world_ok w w'"
  by (auto simp: startIntroducerServer_def world_ok_def daemon_inv_def heap_inv_def grows_def split: if_splits)

lemma dstep_ok:
  assumes "dstep c0 p q" and "daemon_inv (snd p)"
  shows "world_ok (snd p) (snd q)"
  using assms
proof (induction rule: dstep.induct)
  case (scan v w w' ph)
  then show ?case by (simp add: scan_world_ok)
next
  case (rate ph w)
  then show ?case by (simp add: rate_ok)
next
  case (ping_receive r w ph rv input)
  then show ?case by (simp add: after_ok ping_recv_ok thread_object)
next
  case (ping_send w r ticker prev sv w' out period ph)
  then show ?case using ping_tick_ok [of w r sv prev] by simp
next
  case (gossip_receive r w ph rv input)
  then show ?case by (simp add: after_ok gossip_recv_ok)
next
  case (gossip_send w r ticker prev sv w' out period ph)
  then show ?case using gossip_tick_ok [of w r sv prev] by simp
next
  case (join_fails snap ord w w')
  then show ?case using join_request_ok [of w snap ord] by simp
next
  case (join_asks snap ord w w' j)
  then show ?case using join_request_ok [of w snap ord] by simp
next
  case (join_retry answer clk w w')
  then show ?case using join_response_ok [of w answer clk] by simp
next
  case (join_done answer clk w w')
  then show ?case using join_response_ok [of w answer clk] by simp
qed (simp_all add: start_ok handleJoin_ok http_config_ok http_leave_ok http_lists_ok Close_ok
    manager_ok world_ok_refl introducer_ok)

lemma boot_inv:
  assumes "boot resolver listens t now c0 = Inr w" and "ValidateClusterParams c0 = None"
  shows "daemon_inv w"
  using assms
  by (auto simp: boot_def Let_def daemon_inv_def heap_inv_def store_inv_New split: sum.splits if_splits)

lemma reachable_inv:
  assumes "reachable c0 p" and "ValidateClusterParams c0 = None"
  shows "daemon_inv (snd p)"
  using assms
proof (induction rule: reachable.induct)
  case (start resolver listens t now w)
  then show ?case by (simp add: boot_inv)
next
  case (step p q)
  then show ?case using dstep_ok by (simp add: world_ok_def)
qed

end
