(* ===== verification/InForce.thy ===== *)
theory InForce
  imports DaemonSteps Samples
begin

text \<open>
  A configuration is in force when every component works with it: the store, the suspicion manager,
  and the one protocol loop of its mode, with its parameters and the DTO it sends along. This theory
  shows when that is the case: after every accepted change, and always for an introducer. The fast
  copy \<open>mode\<close> of the daemon is never read by the program and plays no part.
\<close>

section \<open>Definition\<close>

definition ping_as :: "Config \<Rightarrow> PLoop \<Rightarrow> bool" where
  "ping_as c l \<longleftrightarrow> \<not> PStop l \<and> PingEvery l = cPingEvery c \<and> PTSuspect l = cTSuspect c \<and>
     PingFanout l = cPingFanout c \<and> PDropRateRecv l = cDropRateRecv c \<and> PcfgDTO l = ToDTO c"

definition gossip_as :: "Config \<Rightarrow> GLoop \<Rightarrow> bool" where
  "gossip_as c l \<longleftrightarrow> \<not> GStop l \<and> GossipPeriod l = cGossipPeriod c \<and> GossipFanout l = cGossipFanout c \<and>
     GDropRateRecv l = cDropRateRecv c \<and> GcfgDTO l = ToDTO c"

definition loops_as :: "Config \<Rightarrow> World \<Rightarrow> bool" where
  "loops_as c w \<longleftrightarrow>
     (if cMode c = ModePingAck
      then loopGo w = None \<and> (\<exists>r l. loopPA w = Some r \<and> pings w r = Some l \<and> ping_as c l)
      else loopPA w = None \<and> (\<exists>r l. loopGo w = Some r \<and> gossips w r = Some l \<and> gossip_as c l))"

definition parts_as :: "Config \<Rightarrow> World \<Rightarrow> bool" where
  "parts_as c w \<longleftrightarrow> config (st w) = c \<and> TSuspect (sm w) = cTSuspect c \<and> TFail (sm w) = cTFail c \<and>
     TCleanup (sm w) = cTCleanup c \<and> UsePingTimeout (sm w) = (cMode c = ModePingAck)"

definition in_force :: "Config \<Rightarrow> World \<Rightarrow> bool" where
  "in_force c w \<longleftrightarrow> loops_as c w \<and> parts_as c w"

section \<open>Accepted changes\<close>

lemma mode_cases:
  "ValidateClusterParams c = None \<Longrightarrow> cMode c = ModePingAck \<or> cMode c = ModeGossip"
  by (auto simp: ValidateClusterParams_def split: if_splits)

lemma start_loops:
  assumes "heap_inv w" and "ValidateClusterParams c = None"
  shows "loops_as c (startProtocol c w)"
  using assms(1) mode_cases [OF assms(2)] heap_stopGossip [OF assms(1)] heap_stopPingAck [OF assms(1)]
  by (auto simp: loops_as_def startProtocol_def Let_def ping_as_def gossip_as_def NewPingAck_def
      PingSetConfigDTO_def NewGossip_def GossipSetConfigDTO_def)

text \<open>What the loops are after the first part of \<open>applyRuntime\<close>, up to the DTO.\<close>

definition loops_near :: "Config \<Rightarrow> World \<Rightarrow> bool" where
  "loops_near c w \<longleftrightarrow>
     (if cMode c = ModePingAck
      then loopGo w = None \<and> (\<exists>r l. loopPA w = Some r \<and> pings w r = Some l \<and> ping_as c (l\<lparr>PcfgDTO := ToDTO c\<rparr>))
      else loopPA w = None \<and> (\<exists>r l. loopGo w = Some r \<and> gossips w r = Some l \<and> gossip_as c (l\<lparr>GcfgDTO := ToDTO c\<rparr>)))"

lemma loops_as_near: "loops_as c w \<Longrightarrow> loops_near c w"
  unfolding loops_as_def loops_near_def ping_as_def gossip_as_def by (auto split: if_splits)

lemma loops_near_refresh: "loops_near c w \<Longrightarrow> loops_as c (refreshDTO (ToDTO c) w)"
  by (auto simp: loops_near_def loops_as_def refreshDTO_def Let_def PingSetConfigDTO_def GossipSetConfigDTO_def
      ping_as_def gossip_as_def split: if_splits)

lemma reconfigure_near:
  "heap_inv w \<Longrightarrow> loopPA w \<noteq> None \<Longrightarrow> cMode c = ModePingAck \<Longrightarrow> loops_near c (reconfigurePing c w)"
  "heap_inv w \<Longrightarrow> loopGo w \<noteq> None \<Longrightarrow> cMode c = ModeGossip \<Longrightarrow> loops_near c (reconfigureGossip c w)"
  by (auto simp: heap_inv_def loops_near_def reconfigurePing_def reconfigureGossip_def ping_as_def gossip_as_def
      PingReconfigure_def GossipReconfigure_def)

lemma near_frames [simp]:
  "loops_near c (reconfigureManager d w) = loops_near c w" "loops_near c (w\<lparr>st := s\<rparr>) = loops_near c w"
  by (simp_all add: loops_near_def reconfigureManager_def Let_def)

lemma applyRuntime_in_force:
  assumes "heap_inv w" and "ValidateClusterParams c = None"
  shows "in_force c (applyRuntime p c w)"
proof -
  define w1 where "w1 = (if cMode c = ModePingAck then
                  (if cMode p \<noteq> cMode c \<or> loopPA w = None then startProtocol c w else reconfigurePing c w)
                else if cMode c = ModeGossip then
                  (if cMode p \<noteq> cMode c \<or> loopGo w = None then startProtocol c w else reconfigureGossip c w)
                else w)"
  define w3 where "w3 = (reconfigureManager c w1)\<lparr>st := StoreReconfigure (st (reconfigureManager c w1)) c\<rparr>"
  have r: "applyRuntime p c w = refreshDTO (ToDTO c) w3"
    by (simp add: applyRuntime_def Let_def w1_def w3_def)
  have "loops_near c w1"
    using mode_cases [OF assms(2)] loops_as_near [OF start_loops [OF assms]] reconfigure_near [OF assms(1), of c]
    by (auto simp: w1_def)
  then have "loops_as c (refreshDTO (ToDTO c) w3)" by (intro loops_near_refresh) (simp add: w3_def)
  moreover have "parts_as c (refreshDTO (ToDTO c) w3)"
    by (simp add: parts_as_def w3_def reconfigureManager_def ManagerReconfigure_def Let_def)
  ultimately show ?thesis by (simp add: r in_force_def)
qed

lemma accepted_valid:
  "ApplyRemote c d = (next, Inr True) \<Longrightarrow> ValidateClusterParams c = None \<Longrightarrow> ValidateClusterParams next = None"
  "BumpAndApplyLocal c d = (next, Inr True) \<Longrightarrow> ValidateClusterParams c = None \<Longrightarrow> ValidateClusterParams next = None"
  by (metis fst_conv valid_commits(1)) (metis fst_conv valid_commits(2))

lemma wire_in_force:
  assumes "daemon_inv w" and "ApplyRemote (cfg w) d = (next, Inr True)"
  shows "in_force next (onConfigFromWire d w) \<and> cfg (onConfigFromWire d w) = next"
  using assms accepted_valid(1) [OF assms(2)]
  by (simp add: onConfigFromWire_def commit_remote_def Let_def daemon_inv_def applyRuntime_in_force)

lemma local_in_force:
  assumes "daemon_inv w" and "BumpAndApplyLocal (cfg w) d = (next, Inr True)"
  shows "in_force next (applyRuntime p next (fst (commit_local d w)))"
  using assms accepted_valid(2) [OF assms(2)]
  by (simp add: daemon_inv_def applyRuntime_in_force)

section \<open>Steps that leave the configuration alone\<close>

definition same_config :: "World \<Rightarrow> World \<Rightarrow> bool" where
  "same_config w w' \<longleftrightarrow> cfg w' = cfg w \<and> loopPA w' = loopPA w \<and> loopGo w' = loopGo w \<and> pings w' = pings w \<and>
     gossips w' = gossips w \<and> config (st w') = config (st w) \<and> TSuspect (sm w') = TSuspect (sm w) \<and>
     TFail (sm w') = TFail (sm w) \<and> TCleanup (sm w') = TCleanup (sm w) \<and>
     UsePingTimeout (sm w') = UsePingTimeout (sm w) \<and> ping_threads w' \<subseteq> ping_threads w \<and>
     gossip_threads w' \<subseteq> gossip_threads w"

lemma same_config_refl [simp]: "same_config w w"
  by (simp add: same_config_def)

lemma same_config_trans: "same_config u v \<Longrightarrow> same_config v w \<Longrightarrow> same_config u w"
  unfolding same_config_def by (metis subset_trans)

lemma same_config_in_force: "same_config w w' \<Longrightarrow> in_force c w' = in_force c w"
  by (simp add: same_config_def in_force_def loops_as_def parts_as_def)

lemma same_config_store: "config s = config (st w) \<Longrightarrow> same_config w (w\<lparr>st := s\<rparr>)"
  by (simp add: same_config_def)

lemma Snapshot_config: "Snapshot now ord s = (list, self, s') \<Longrightarrow> config s' = config s"
  using Snapshot_frame(2) [of now ord s] by simp

lemma snapshot_same:
  assumes "get_store ops = st" and "set_store ops = (\<lambda>s w. w\<lparr>st := s\<rparr>)"
    and "take_snapshot ops now ord w = (list, self, w')"
  shows "same_config w w'"
  using assms by (auto simp: take_snapshot_def same_config_def Snapshot_config split: prod.splits)

lemma merge_same:
  "get_store ops = st \<Longrightarrow> set_store ops = (\<lambda>s w. w\<lparr>st := s\<rparr>) \<Longrightarrow> same_config w (merge_list ops clk es w)"
  by (simp add: merge_list_def same_config_store)

lemma table_same: "same_config w (set_table (ping_at r) i m w)"
  by (simp add: ping_at_def same_config_def)

text \<open>A receive step changes the configuration only through the callback.\<close>

lemma gossip_recv_config:
  "\<exists>w1. (w1 = w \<or> (\<exists>d. w1 = onConfigFromWire d w)) \<and> same_config w1 (fst (gossip_recv (gossip_at r) v input w))"
proof (cases "gossip_recv (gossip_at r) v input w = (w, snd (gossip_recv (gossip_at r) v input w))")
  case True
  then have "same_config w (fst (gossip_recv (gossip_at r) v input w))" by (metis fst_conv same_config_refl)
  then show ?thesis by blast
next
  case False
  let ?ops = "world_ops.truncate (gossip_at r)"
  obtain b src msg where i: "input = Datagram b src" "decode_datagram b = Some msg"
    "\<not> drops (GDropRateRecv (get_gossip (gossip_at r) w)) (r_coin v)"
    using False by (auto simp: gossip_recv_def split: read.splits if_splits option.splits)
  let ?w1 = "apply_config ?ops msg w"
  obtain list self w2 where s: "take_snapshot ?ops (r_snap v) (r_ord v) ?w1 = (list, self, w2)"
    by (metis prod.exhaust)
  have 1: "?w1 = w \<or> (\<exists>d. ?w1 = onConfigFromWire d w)"
    by (auto simp: apply_config_def split: option.split)
  have 2: "same_config ?w1 w2" by (rule snapshot_same [OF _ _ s]) simp_all
  then have 3: "same_config ?w1 (merge_list ?ops (r_clk v) (MList msg) w2)"
    by (rule same_config_trans) (rule merge_same, simp_all)
  have "same_config ?w1 (fst (gossip_recv (gossip_at r) v input w))"
    using i s 2 3 by (simp add: gossip_recv_def Let_def)
  with 1 show ?thesis by blast
qed

lemma ping_recv_config:
  "\<exists>w1. (w1 = w \<or> (\<exists>d. w1 = onConfigFromWire d w)) \<and> same_config w1 (fst (ping_recv (ping_at r) v input w))"
proof (cases "ping_recv (ping_at r) v input w = (w, snd (ping_recv (ping_at r) v input w))")
  case True
  then have "same_config w (fst (ping_recv (ping_at r) v input w))" by (metis fst_conv same_config_refl)
  then show ?thesis by blast
next
  case False
  let ?ops = "world_ops.truncate (ping_at r)"
  obtain b src msg where i: "input = Datagram b src" "decode_datagram b = Some msg"
    "\<not> drops (PDropRateRecv (get_ping (ping_at r) w)) (r_coin v)"
    using False by (auto simp: ping_recv_def split: read.splits if_splits option.splits)
  let ?w1 = "apply_config ?ops msg w"
  obtain list self w2 where s: "take_snapshot ?ops (r_snap v) (r_ord v) ?w1 = (list, self, w2)"
    by (metis prod.exhaust)
  let ?w3 = "merge_list ?ops (r_clk v) (MList msg) w2"
  obtain list2 self2 w4 where s2: "take_snapshot ?ops (r_snap2 v) (r_ord2 v) ?w3 = (list2, self2, w4)"
    by (metis prod.exhaust)
  have 1: "?w1 = w \<or> (\<exists>d. ?w1 = onConfigFromWire d w)"
    by (auto simp: apply_config_def split: option.split)
  have 2: "same_config ?w1 w2" by (rule snapshot_same [OF _ _ s]) simp_all
  have m: "same_config u (merge_list ?ops (r_clk v) (MList msg) u)" for u by (rule merge_same) simp_all
  have 3: "same_config ?w1 ?w3" using 2 m by (rule same_config_trans)
  have "same_config ?w3 w4" by (rule snapshot_same [OF _ _ s2]) simp_all
  with 3 have 4: "same_config ?w1 w4" by (rule same_config_trans)
  have 5: "same_config ?w1 (merge_list ?ops (r_clk v) (MList msg) (set_table (ping_at r) i t w2))" for i t
    using same_config_trans [OF same_config_trans [OF 2 table_same] m] .
  have "same_config ?w1 (fst (ping_recv (ping_at r) v input w))"
    using i s s2 2 3 4 5 by (simp add: ping_recv_def Let_def)
  with 1 show ?thesis by blast
qed

lemma send_pings_same: "same_config (fst ws) (fst (foldl (send_ping (ping_at r) v tS list) ws ts))"
proof (induction ts arbitrary: ws)
  case Nil
  then show ?case by simp
next
  case (Cons t ts)
  have "same_config (fst ws) (fst (send_ping (ping_at r) v tS list ws t))"
    by (cases ws; cases t) (auto simp: send_ping_def Let_def table_same split: option.split)
  then show ?case unfolding foldl.simps using Cons.IH by (rule same_config_trans)
qed

lemma ticks_same:
  "same_config w (fst (ping_tick (ping_at r) v prev w))" "same_config w (fst (gossip_tick (gossip_at r) v prev w))"
proof -
  obtain list self w1 where s: "take_snapshot (world_ops.truncate (ping_at r)) (s_snap v) (s_ord v) w = (list, self, w1)"
    by (metis prod.exhaust)
  have "same_config w w1" by (rule snapshot_same [OF _ _ s]) simp_all
  then have "same_config w (fst (foldl (send_ping (ping_at r) v tS list) (w1, []) ts))" for tS ts
    by (rule same_config_trans [OF _ send_pings_same [of "(w1, [])", unfolded fst_conv]])
  then show "same_config w (fst (ping_tick (ping_at r) v prev w))"
    using s by (simp add: ping_tick_def Let_def split_beta)
  obtain list self w1 where s: "take_snapshot (world_ops.truncate (gossip_at r)) (s_snap v) (s_ord v) w = (list, self, w1)"
    by (metis prod.exhaust)
  have "same_config w w1" by (rule snapshot_same [OF _ _ s]) simp_all
  then show "same_config w (fst (gossip_tick (gossip_at r) v prev w))"
    using s by (simp add: gossip_tick_def Let_def)
qed

lemma sender_same [simp]:
  "same_config w (with_ping_sender r f w') = same_config w w'"
  "same_config w (with_gossip_sender r f w') = same_config w w'"
  by (simp_all add: same_config_def with_ping_sender_def with_gossip_sender_def)

lemma introducer_same: "startIntroducerServer listensTCP s w = Running w' \<Longrightarrow> same_config w w'"
  by (auto simp: startIntroducerServer_def same_config_def split: if_splits)

lemma ticks_same_sender:
  "ping_tick (ping_at r) v prev w = (w', out, period) \<Longrightarrow> same_config w (with_ping_sender r f w')"
  "gossip_tick (gossip_at r) v prev w = (w', out, period) \<Longrightarrow> same_config w (with_gossip_sender r f w')"
  using ticks_same [of w r v prev] by simp_all

lemma scan_same:
  assumes "daemon_inv w" and "scan_world v w = Running w'"
  shows "same_config w w'"
proof -
  obtain s marks where s: "scanOnce (t_clock v) (t_snap1 v) (t_ord1 v) (t_now v) (TSuspect (sm w)) (TFail (sm w))
      (TCleanup (sm w)) (st w, failMarks (sm w)) = Running (s, marks)"
    and w': "w' = w\<lparr>sm := (sm w)\<lparr>failMarks := marks\<rparr>, tables := tables w, st := s\<rparr>"
    using assms(2) by (auto simp: scan_world_def manager_tick_scan [OF assms(1)] split: outcome.splits)
  have "config s = config (st w)" using scanOnce_inv(3) [OF s] by simp
  then show ?thesis using w' by (simp add: same_config_def)
qed

lemma leave_store_config: "config (leave_store now list s) = config s"
proof -
  have "config (foldl (\<lambda>s e. if ID e = SelfID s then
      ApplyLocked now s (SelfID s) (Incarnation e + 1) StateLeft else s) s list) = config s" for s
    by (induction list arbitrary: s) simp_all
  then show ?thesis by (simp add: leave_store_def)
qed

lemma handlers_same:
  "same_config w (fst (http_leave snap ord now w))" "same_config w (fst (http_list_mem snap ord w))"
  "same_config w (fst (http_display_suspects snap ord w))" "same_config w (fst (handleJoin clk snap ord msg w))"
  by (auto simp: http_leave_def http_list_mem_def http_display_suspects_def handleJoin_def same_config_def
      leave_store_config Let_def dest: Snapshot_config split: prod.split option.split)

section \<open>The introducer\<close>

text \<open>An introducer that has not started its protocol yet: nothing but the boot configuration.\<close>

definition fresh_boot :: "Config \<Rightarrow> World \<Rightarrow> bool" where
  "fresh_boot c w \<longleftrightarrow> cfg w = c \<and> parts_as c w \<and> loopPA w = None \<and> loopGo w = None \<and>
     (\<forall>r. pings w r = None) \<and> (\<forall>r. gossips w r = None) \<and> ping_threads w = {} \<and> gossip_threads w = {}"

lemma boot_fresh: "boot resolver listens t now c = Inr w \<Longrightarrow> fresh_boot c w"
  by (auto simp: boot_def fresh_boot_def parts_as_def NewStore_def Let_def split: sum.splits if_splits)

definition in_force_at :: "Config \<Rightarrow> phase \<times> World \<Rightarrow> bool" where
  "in_force_at c0 p \<longleftrightarrow>
     (case fst p of
        Joining \<Rightarrow> False | Asked \<Rightarrow> False | Booted \<Rightarrow> fresh_boot c0 (snd p) | Serving \<Rightarrow> in_force (cfg (snd p)) (snd p)
      | Closed \<Rightarrow> True)"

lemma after_same:
  "same_config (fst wr) (after_ping r wr)" "same_config (fst gr) (after_gossip r gr)"
  by (auto simp: after_ping_def after_gossip_def Let_def same_config_def)

lemma callback_in_force:
  assumes "daemon_inv w" and "in_force (cfg w) w"
  shows "in_force (cfg (onConfigFromWire d w)) (onConfigFromWire d w)"
proof (cases "snd (ApplyRemote (cfg w) d) = Inr True")
  case True
  then have "ApplyRemote (cfg w) d = (fst (ApplyRemote (cfg w) d), Inr True)" by (simp add: prod_eq_iff)
  from wire_in_force [OF assms(1) this] show ?thesis by simp
next
  case False
  then have "fst (ApplyRemote (cfg w) d) = cfg w"
    using ApplyDTO_version unfolding ApplyRemote_def by blast
  then have "onConfigFromWire d w = w"
    using False by (simp add: onConfigFromWire_def commit_remote_def Let_def split_beta)
  then show ?thesis using assms(2) by simp
qed

lemma recv_in_force:
  assumes "daemon_inv w" and "in_force (cfg w) w" and "w1 = w \<or> (\<exists>d. w1 = onConfigFromWire d w)"
    and "same_config w1 w2"
  shows "in_force (cfg w2) w2"
proof -
  have "in_force (cfg w1) w1" using assms(1-3) callback_in_force by blast
  moreover have "cfg w2 = cfg w1" using assms(4) by (simp add: same_config_def)
  ultimately show ?thesis using same_config_in_force [OF assms(4)] by simp
qed

lemma local_accepted:
  assumes "daemon_inv w" and "snd (commit_local d w) = Inr True"
  shows "in_force (cfg (fst (commit_local d w))) (applyRuntime p (cfg (fst (commit_local d w))) (fst (commit_local d w)))"
proof -
  have "BumpAndApplyLocal (cfg w) d = (fst (BumpAndApplyLocal (cfg w) d), Inr True)"
    using assms(2) by (simp add: prod_eq_iff)
  from local_in_force [OF assms(1) this, of p] show ?thesis by simp
qed

lemma local_change_in_force:
  assumes "daemon_inv w" and "in_force (cfg w) w"
  shows "in_force (cfg (fst (local_change d w))) (fst (local_change d w))"
  using assms local_accepted [OF assms(1), of d "cfg w"] by (simp only: local_change_fst applyRuntime_frames if_split) simp

lemma http_config_in_force:
  assumes "daemon_inv w" and "in_force (cfg w) w"
  shows "in_force (cfg (fst (http_set file w))) (fst (http_set file w))"
    and "in_force (cfg (fst (http_switch body w))) (fst (http_switch body w))"
  using assms local_change_in_force [OF assms] by (simp_all add: http_fst split: option.split)

text \<open>
  Every step of an introducer keeps its configuration in force; the inversion rules of the steps that
  change the phase tell which operations are possible when.
\<close>

lemma fresh_same: "fresh_boot c w \<Longrightarrow> same_config w w' \<Longrightarrow> fresh_boot c w'"
  by (simp add: fresh_boot_def same_config_def parts_as_def)

lemma manager_same: "same_config w (ManagerRun w)" "same_config w (ManagerEnd w)"
  by (simp_all add: same_config_def ManagerRun_def ManagerEnd_def)

lemma rate_same: "same_config w (w\<lparr>sm := rate_tick (sm w)\<rparr>)"
  by (simp add: same_config_def rate_tick_def)

lemma keep_in_force:
  assumes "same_config w w'" and "in_force (cfg w) w"
  shows "in_force (cfg w') w'"
proof -
  have "cfg w' = cfg w" using assms(1) by (simp add: same_config_def)
  then show ?thesis using assms(2) same_config_in_force [OF assms(1)] by simp
qed

lemma in_force_at_same:
  assumes "in_force_at c0 (ph, w)" and "same_config w w'"
  shows "in_force_at c0 (ph, w')"
proof (cases ph)
  case Booted
  then show ?thesis using assms(1) fresh_same [OF _ assms(2)] by (simp add: in_force_at_def)
next
  case Serving
  then show ?thesis using assms(1) keep_in_force [OF assms(2)] by (simp add: in_force_at_def)
qed (use assms(1) in \<open>simp_all add: in_force_at_def\<close>)

lemma fresh_start:
  assumes "fresh_boot c w" and "heap_inv w" and "ValidateClusterParams c = None"
  shows "in_force (cfg (startProtocol c w)) (startProtocol c w)"
  using assms start_loops [OF assms(2,3)]
  by (simp add: fresh_boot_def in_force_def parts_as_def)

lemma dstep_in_force:
  assumes "dstep c0 p q" and "daemon_inv (snd p)" and "in_force_at c0 p" and "ValidateClusterParams c0 = None"
  shows "in_force_at c0 q"
  using assms
proof (induction rule: dstep.induct)
  case (scan v w w' ph)
  then have "same_config w w'" using scan_same by simp
  then show ?case
    using scan.prems(2) by (intro in_force_at_same [of c0 ph w w'])
next
  case (rate ph w)
  then show ?case by (intro in_force_at_same [OF _ rate_same])
next
  case (ping_receive r w ph rv input)
  obtain w1 where w1: "w1 = w \<or> (\<exists>d. w1 = onConfigFromWire d w)"
    "same_config w1 (fst (ping_recv (ping_at r) rv (UDP_Read (net_open w) input) w))"
    using ping_recv_config [of w r rv "UDP_Read (net_open w) input"] by metis
  have "same_config w1 (after_ping r (ping_recv (ping_at r) rv (UDP_Read (net_open w) input) w))"
    using same_config_trans [OF w1(2) after_same(1)] .
  then show ?case
    using ping_receive recv_in_force [OF _ _ w1(1)]
    by (cases ph) (simp_all add: in_force_at_def fresh_boot_def)
next
  case (ping_send w r ticker prev sv w' out period ph)
  show ?case by (rule in_force_at_same [OF ping_send.prems(2) ticks_same_sender(1) [OF ping_send.hyps(3)]])
next
  case (gossip_receive r w ph rv input)
  obtain w1 where w1: "w1 = w \<or> (\<exists>d. w1 = onConfigFromWire d w)"
    "same_config w1 (fst (gossip_recv (gossip_at r) rv (UDP_Read (net_open w) input) w))"
    using gossip_recv_config [of w r rv "UDP_Read (net_open w) input"] by metis
  have "same_config w1 (after_gossip r (gossip_recv (gossip_at r) rv (UDP_Read (net_open w) input) w))"
    using same_config_trans [OF w1(2) after_same(2)] .
  then show ?case
    using gossip_receive recv_in_force [OF _ _ w1(1)]
    by (cases ph) (simp_all add: in_force_at_def fresh_boot_def)
next
  case (gossip_send w r ticker prev sv w' out period ph)
  show ?case by (rule in_force_at_same [OF gossip_send.prems(2) ticks_same_sender(2) [OF gossip_send.hyps(3)]])
next
  case (serve w)
  then show ?case using fresh_start [of c0 w] by (simp add: in_force_at_def daemon_inv_def)
next
  case (ping_begin w r l ph)
  show ?case by (rule in_force_at_same [OF ping_begin.prems(2)], simp)
next
  case (ping_quit w r l ph)
  show ?case by (rule in_force_at_same [OF ping_quit.prems(2)], simp)
next
  case (gossip_begin w r g ph)
  show ?case by (rule in_force_at_same [OF gossip_begin.prems(2)], simp)
next
  case (gossip_quit w r g ph)
  show ?case by (rule in_force_at_same [OF gossip_quit.prems(2)], simp)
next
  case (introducer listensTCP w w' ph)
  show ?case by (rule in_force_at_same [OF introducer.prems(2) introducer_same [OF introducer.hyps(2)]])
next
  case (introduce w ph clk snap ord msg)
  then show ?case by (intro in_force_at_same [OF _ handlers_same(4)])
next
  case (set_config f w)
  then show ?case using http_config_in_force(1) by (simp add: in_force_at_def)
next
  case (switch body w)
  then show ?case using http_config_in_force(2) by (simp add: in_force_at_def)
next
  case (leave snap ord now w)
  then show ?case by (intro in_force_at_same [OF _ handlers_same(1)]) simp_all
next
  case (list_mem snap ord w)
  then show ?case by (intro in_force_at_same [OF _ handlers_same(2)]) simp_all
next
  case (suspects snap ord w)
  then show ?case by (intro in_force_at_same [OF _ handlers_same(3)]) simp_all
next
  case (manager w ph)
  then show ?case by (intro in_force_at_same [OF _ manager_same(1)]) simp_all
next
  case (manager_end w ph)
  then show ?case by (intro in_force_at_same [OF _ manager_same(2)]) simp_all
qed (simp_all add: in_force_at_def)

lemma introducer_in_force:
  assumes "reachable c0 p" and "cIsIntroducer c0" and "ValidateClusterParams c0 = None"
  shows "in_force_at c0 p"
  using assms
proof (induction rule: reachable.induct)
  case (start resolver listens t now w)
  then show ?case by (simp add: in_force_at_def boot_fresh)
next
  case (step p q)
  then show ?case using dstep_in_force reachable_inv by blast
qed

end
