(* ===== verification/DaemonProps.thy ===== *)
theory DaemonProps
  imports InForce SuspicionProps
begin

text \<open>
  The properties of the daemon (\<open>src/pkg/daemon/daemon.go\<close>): what holds in every reachable state, and
  when a configuration is in force and when it is not.
\<close>

section \<open>A sample process\<close>

text \<open>The process that \<open>Run\<close> builds for the sample node \<open>h\<close>, before it joins or starts its protocol.\<close>

definition sample_world :: "u8 \<Rightarrow> Config \<Rightarrow> World" where
  "sample_world h c =
     \<lparr>st = NewStore (at_wall 5) (node h 7) c, cfg = c, mode = cMode c, loopPA = None, loopGo = None,
      sm = \<lparr>TSuspect = cTSuspect c, TFail = cTFail c, TCleanup = cTCleanup c,
            UsePingTimeout = (cMode c = ModePingAck), MInflight = Some 0, failMarks = 0\<rparr>,
      inflight = 0, pings = (\<lambda>_. None), gossips = (\<lambda>_. None), tables = (\<lambda>_. NewInflight),
      next_ref = 1, ping_threads = {}, gossip_threads = {}, ping_senders = (\<lambda>_. Unstarted),
      gossip_senders = (\<lambda>_. Unstarted), mgr_stop = None, mgr_ended = False, accepting = False, net_open = True, panicked = False\<rparr>"

lemma boot_sample:
  "boot (\<lambda>_. Some (Some [10, 0, 0, h], 5000)) (\<lambda>_. True) 7 (at_wall 5) c = Inr (sample_world h c)"
  by (simp add: boot_def resolveAddrPortUDP_def AddrFromSlice_def NewNodeID_def Let_def sample_world_def node_def)

lemma sample_world_inv [simp]: "ValidateClusterParams c = None \<Longrightarrow> daemon_inv (sample_world h c)"
  using boot_sample by (rule boot_inv)

lemma sample_world_simps [simp]:
  "st (sample_world h c) = NewStore (at_wall 5) (node h 7) c" "cfg (sample_world h c) = c"
  "sm (sample_world h c) = \<lparr>TSuspect = cTSuspect c, TFail = cTFail c, TCleanup = cTCleanup c,
     UsePingTimeout = (cMode c = ModePingAck), MInflight = Some 0, failMarks = 0\<rparr>"
  "tables (sample_world h c) = (\<lambda>_. NewInflight)" "loopPA (sample_world h c) = None"
  "loopGo (sample_world h c) = None"
  by (simp_all add: sample_world_def)

lemma valid_Defaults [simp]: "ValidateClusterParams (Defaults h) = None"
  using cfg_ok_Defaults [of h] by (simp add: cfg_ok_def)

lemma valid_upd [simp]:
  "ValidateClusterParams (c\<lparr>cIsIntroducer := b\<rparr>) = ValidateClusterParams c"
  "ValidateClusterParams (c\<lparr>cVersion := v\<rparr>) = ValidateClusterParams c"
  by (simp_all add: ValidateClusterParams_def)

lemma reachable_sample:
  "reachable c (if cIsIntroducer c then Booted else Joining, sample_world h c)"
  using boot_sample by (rule reachable.start)

lemma sample_joiner: "reachable (Defaults h) (Joining, sample_world n (Defaults h))"
proof -
  have "\<not> cIsIntroducer (Defaults h)" by (simp add: Defaults_def)
  then show ?thesis using reachable_sample [of "Defaults h" n] by simp
qed

lemma reachable_serving:
  "cIsIntroducer c \<Longrightarrow> reachable c (Serving, startProtocol c (sample_world h c))"
  using reachable_sample [of c h] by (auto intro: reachable.step dstep.serve)

section \<open>Every reachable state\<close>

text \<open>
  The invariant of the process when its operations are atomic. Whatever the network, the clocks and the
  administrator do, a daemon started with a valid configuration never closes a channel twice (which
  would panic), always has a valid configuration, files every member under its own endpoint, and has
  at most one protocol loop installed, which is not stopped.
\<close>

theorem daemon_invariant:
  assumes "reachable c0 (ph, w)" and "ValidateClusterParams c0 = None"
  shows "\<not> panicked w \<and> ValidateClusterParams (cfg w) = None \<and> store_inv (st w) \<and>
     (loopPA w = None \<or> loopGo w = None) \<and>
     (\<forall>r. loopPA w = Some r \<longrightarrow> (\<exists>l. pings w r = Some l \<and> \<not> PStop l)) \<and>
     (\<forall>r. loopGo w = Some r \<longrightarrow> (\<exists>l. gossips w r = Some l \<and> \<not> GStop l))"
  using reachable_inv [OF assms] by (simp add: daemon_inv_def heap_inv_def)

theorem daemon_invariant_witness:
  "\<not> panicked (sample_world 1 (Defaults ''h''))"
  using daemon_invariant [OF sample_joiner [of "''h''" 1] valid_Defaults] by simp

text \<open>
  Progress of the configuration. No step of the process, local or remote, ever lowers the version
  of the configuration, and the identity of the node never changes.
\<close>

theorem config_version_monotone:
  assumes "reachable c0 (ph, w)" and "ValidateClusterParams c0 = None" and "dstep c0 (ph, w) (ph', w')"
  shows "cVersion (cfg w) \<le> cVersion (cfg w') \<and> SelfID (st w') = SelfID (st w)"
  using dstep_ok [OF assms(3)] reachable_inv [OF assms(1,2)]
  by (simp add: world_ok_def grows_def SelfID_def)

theorem config_version_monotone_witness:
  "cVersion (Defaults ''h'') \<le> cVersion (cfg (fst (http_set None (startProtocol
      ((Defaults ''h'')\<lparr>cIsIntroducer := True\<rparr>) (sample_world 1 ((Defaults ''h'')\<lparr>cIsIntroducer := True\<rparr>))))))"
proof -
  let ?c = "(Defaults ''h'')\<lparr>cIsIntroducer := True\<rparr>"
  have v: "ValidateClusterParams ?c = None" by simp
  show ?thesis
    using config_version_monotone [OF reachable_serving [of ?c 1] v dstep.set_config [of ?c _ None]] by simp
qed

text \<open>
  C31. Ping timeouts never have an effect. In every reachable state the table of pings that the
  suspicion manager watches is empty, because each ping loop registers its pings in a table of its
  own; a tick of the manager, with the handling of unanswered pings enabled or not, is its scan.
\<close>

theorem ping_timeouts_never_act:
  assumes "reachable c0 (ph, w)" and "ValidateClusterParams c0 = None"
  shows "manager_tick v (sm w) (tables w) (st w) =
     (case scanOnce (t_clock v) (t_snap1 v) (t_ord1 v) (t_now v) (TSuspect (sm w)) (TFail (sm w))
             (TCleanup (sm w)) (st w, failMarks (sm w)) of
        Exited \<Rightarrow> Exited
      | Running (s, marks) \<Rightarrow> Running ((sm w)\<lparr>failMarks := marks\<rparr>, tables w, s))"
  using reachable_inv [OF assms] by (simp add: manager_tick_scan)

theorem ping_timeouts_never_act_witness:
  "let w = sample_world 1 (Defaults ''h'')
   in \<forall>v. manager_tick v (sm w) (tables w) (st w) =
     (case scanOnce (t_clock v) (t_snap1 v) (t_ord1 v) (t_now v) (TSuspect (sm w)) (TFail (sm w))
             (TCleanup (sm w)) (st w, failMarks (sm w)) of
        Exited \<Rightarrow> Exited
      | Running (s, marks) \<Rightarrow> Running ((sm w)\<lparr>failMarks := marks\<rparr>, tables w, s))"
  unfolding Let_def by (intro allI ping_timeouts_never_act [OF sample_joiner]) simp

section \<open>The configuration in force\<close>

text \<open>
  An accepted change takes effect everywhere. When a message brings a configuration that is
  adopted, then after the callback the store, the suspicion manager and exactly one protocol loop,
  that of the new mode, work with the new configuration, and the loop sends it along.
\<close>

theorem accepted_config_in_force:
  assumes "reachable c0 (ph, w)" and "ValidateClusterParams c0 = None"
    and "ApplyRemote (cfg w) dto = (next, Inr True)"
  shows "cfg (onConfigFromWire dto w) = next \<and> in_force next (onConfigFromWire dto w)"
  using wire_in_force [OF _ assms(3)] reachable_inv [OF assms(1,2)] by simp

theorem accepted_config_in_force_witness:
  "let c = Defaults ''h''; c' = c\<lparr>cVersion := 2, cMode := ModeGossip\<rparr>
   in in_force (adopt c c') (onConfigFromWire (ToDTO c') (sample_world 1 c))"
proof -
  let ?c = "Defaults ''h''"
  let ?c' = "?c\<lparr>cVersion := 2, cMode := ModeGossip\<rparr>"
  have "cfg_ok ?c'"
    by (simp add: cfg_ok_def Defaults_def ValidateClusterParams_def cfg_ints_def int64_defs ms_def drop_rate_bad_def)
  moreover have "cVersion ?c = 1" by (simp add: Defaults_def)
  ultimately have "ApplyRemote ?c (ToDTO ?c') = (adopt ?c ?c', Inr True)"
    by (simp add: ApplyRemote_def ApplyDTO_ToDTO)
  then show ?thesis
    unfolding Let_def using accepted_config_in_force [OF sample_joiner, of "''h''" 1 "ToDTO ?c'" "adopt ?c ?c'"] by simp
qed

text \<open>
  When operations are atomic, the configuration is always in force for an introducer: in every reachable state in which it
  serves, the current configuration is the one that the store, the manager and the only installed
  loop work with, whatever changes arrived from peers or from the administrator.
\<close>

theorem introducer_config_in_force:
  assumes "reachable c0 (Serving, w)" and "cIsIntroducer c0" and "ValidateClusterParams c0 = None"
  shows "in_force (cfg w) w"
  using introducer_in_force [OF assms] by (simp add: in_force_at_def)

theorem introducer_config_in_force_witness:
  "let c = (Defaults ''h'')\<lparr>cIsIntroducer := True\<rparr> in in_force c (startProtocol c (sample_world 1 c))"
proof -
  let ?c = "(Defaults ''h'')\<lparr>cIsIntroducer := True\<rparr>"
  have v: "ValidateClusterParams ?c = None" by simp
  show ?thesis
    unfolding Let_def using introducer_config_in_force [OF reachable_serving [of ?c 1] _ v] by simp
qed

lemma in_force_unique: "in_force c w \<Longrightarrow> in_force d w \<Longrightarrow> c = d"
  by (simp add: in_force_def parts_as_def)

text \<open>
  C40. Two changes that overlap can leave the older one in force. The configuration is stored under the
  lock but pushed into the components after it is released: if a second change is stored and pushed
  between these two parts of the first, the components end up with the first configuration, of the
  lower version, while the daemon reports the second.
\<close>

theorem overlapping_changes:
  assumes "daemon_inv w"
    and "commit_remote d1 w = (w1, Inr True)" and "commit_local d2 w1 = (w2, Inr True)"
    and "w3 = applyRuntime (cfg w1) (cfg w2) w2"
  shows "let w4 = applyRuntime (cfg w) (cfg w1) w3 in
     cfg w4 = cfg w2 \<and> in_force (cfg w1) w4 \<and> \<not> in_force (cfg w4) w4 \<and> cVersion (cfg w1) < cVersion (cfg w4)"
proof -
  have w1: "w1 = fst (commit_remote d1 w)" "snd (ApplyRemote (cfg w) d1) = Inr True"
    and w2: "w2 = fst (commit_local d2 w1)" "snd (BumpAndApplyLocal (cfg w1) d2) = Inr True"
    using commit_frames(7) [of d1 w] commit_frames(8) [of d2 w1] assms(2,3) by simp_all
  have i1: "daemon_inv w1" using committed_ok(1) [of w "commit_remote d1" d1] assms(1) w1 by (simp add: world_ok_def)
  have i2: "daemon_inv w2" using committed_ok(1) [of w1 "commit_local d2" d2] i1 w2 by (simp add: world_ok_def)
  have "heap_inv w3" using i2 assms(4) by (simp add: daemon_inv_def heap_intros)
  then have f: "in_force (cfg w1) (applyRuntime (cfg w) (cfg w1) w3)"
    using i1 by (simp add: daemon_inv_def applyRuntime_in_force)
  have c: "cfg (applyRuntime (cfg w) (cfg w1) w3) = cfg w2" using assms(4) by simp
  have lt: "cVersion (cfg w1) < cVersion (cfg w2)"
    using w2 ApplyDTO_version unfolding w2(1) commit_frames BumpAndApplyLocal_def by blast
  have "\<not> in_force (cfg w2) (applyRuntime (cfg w) (cfg w1) w3)"
  proof
    assume "in_force (cfg w2) (applyRuntime (cfg w) (cfg w1) w3)"
    from in_force_unique [OF f this] lt show False by simp
  qed
  then show ?thesis using f c lt by (simp add: Let_def)
qed

lemma two_cfg_ok: "cfg_ok ((Defaults h)\<lparr>cVersion := 2, cMode := ModeGossip\<rparr>)"
  by (simp add: cfg_ok_def Defaults_def ValidateClusterParams_def cfg_ints_def int64_defs ms_def drop_rate_bad_def)

theorem overlapping_changes_witness:
  "let c = Defaults ''h''; c' = c\<lparr>cVersion := 2, cMode := ModeGossip\<rparr>; w = sample_world 1 c;
       w1 = fst (commit_remote (ToDTO c') w); w2 = fst (commit_local (ToDTO c) w1);
       w4 = applyRuntime c (cfg w1) (applyRuntime (cfg w1) (cfg w2) w2)
   in \<not> in_force (cfg w4) w4"
proof -
  let ?c = "Defaults ''h''"
  let ?c' = "?c\<lparr>cVersion := 2, cMode := ModeGossip\<rparr>" and ?w = "sample_world 1 ?c"
  let ?w1 = "fst (commit_remote (ToDTO ?c') ?w)"
  let ?w2 = "fst (commit_local (ToDTO ?c) ?w1)"
  have v: "cVersion ?c = 1" by (simp add: Defaults_def)
  have 1: "ApplyRemote ?c (ToDTO ?c') = (adopt ?c ?c', Inr True)"
    using v ApplyDTO_ToDTO [OF two_cfg_ok] by (simp add: ApplyRemote_def)
  have c1: "cfg ?w1 = adopt ?c ?c'" by (simp add: 1)
  have dto: "(ToDTO ?c)\<lparr>dVersion := 3\<rparr> = ToDTO (?c\<lparr>cVersion := 3\<rparr>)" by (simp add: ToDTO_def)
  have "cfg_ok (?c\<lparr>cVersion := 3\<rparr>)"
    using cfg_ok_Defaults [of "''h''"] by (simp add: cfg_ok_def cfg_ints_def int64_defs)
  then have "ApplyDTO (adopt ?c ?c') (ToDTO (?c\<lparr>cVersion := 3\<rparr>)) = (adopt (adopt ?c ?c') (?c\<lparr>cVersion := 3\<rparr>), Inr True)"
    by (intro ApplyDTO_ToDTO) simp_all
  then have 2: "BumpAndApplyLocal (adopt ?c ?c') (ToDTO ?c) = (adopt (adopt ?c ?c') (?c\<lparr>cVersion := 3\<rparr>), Inr True)"
    using v by (simp add: BumpAndApplyLocal_def dto int64_defs)
  have s1: "commit_remote (ToDTO ?c') ?w = (?w1, Inr True)" by (simp add: prod_eq_iff 1)
  have s2: "commit_local (ToDTO ?c) ?w1 = (?w2, Inr True)" by (simp add: prod_eq_iff 1 2)
  have "daemon_inv ?w" by simp
  from overlapping_changes [OF this s1 s2 refl] show ?thesis
    unfolding Let_def sample_world_simps(2) by blast
qed

end
