(* ===== verification/JoinProps.thy ===== *)
theory JoinProps
  imports DaemonProps
begin

text \<open>
  The properties of joining (\<open>handleJoin\<close>, \<open>joinCluster\<close> and the second half of \<open>Run\<close> in
  \<open>src/pkg/daemon/daemon.go\<close>): what one exchange with the introducer achieves, and what \<open>Run\<close> does with
  the answer.
\<close>

section \<open>The handshake\<close>

lemma update_dom: "dom (entries (updateMemberEntry now s e)) = insert (key_of (ID e)) (dom (entries s))"
proof (cases "entries s (key_of (ID e))")
  case None
  then show ?thesis by (simp add: updateMemberEntry_def put_entry_def)
next
  case (Some d)
  then have k: "insert (key_of (ID e)) (dom (entries s)) = dom (entries s)" by (simp add: insert_absorb domI)
  have b: "ID e = selfID s \<Longrightarrow> dom (entries (selfBumpIncarnation now s)) = insert (key_of (ID e)) (dom (entries s))"
    using Some by (simp add: selfBumpIncarnation_def)
  have k': "ID e = selfID s \<Longrightarrow> insert (key_of (selfID s)) (dom (entries s)) = dom (entries s)" using k by simp
  show ?thesis using Some k k' b by (simp add: updateMemberEntry_def put_entry_def normalizeBoot_def)
qed

lemma merge_dom: "dom (entries (MergeFullList clk s es)) = dom (entries s) \<union> (\<lambda>e. key_of (ID e)) ` set es"
  by (induction es arbitrary: clk s) (auto simp: update_dom)

lemma snapshot_keys_dom:
  assumes "store_inv s" and "iteration ord (entries s)"
  shows "(\<lambda>e. key_of (ID e)) ` set (fst (Snapshot snap ord s)) = dom (entries s)"
  using Snapshot_keys [OF assms, of snap] assms(2) by (metis (no_types) iteration_def list.set_map)

lemma request_decodes:
  assumes "timely l" and "all_ipv4 l"
  shows "\<exists>j. EncodeJoinRequest \<lparr>QList = l\<rparr> = Some j \<and> DecodeJoinRequest j = Some \<lparr>QList = map on_wire l\<rparr>"
proof -
  have "Option.bind (EncodeJoinRequest \<lparr>QList = l\<rparr>) DecodeJoinRequest = Some \<lparr>QList = map on_wire l\<rparr>"
    using join_decodes [of "\<lparr>RConfigDTO = ToDTO (Defaults []), RList = []\<rparr>" "\<lparr>QList = l\<rparr>"] assms
    by (simp add: timely_def)
  then show ?thesis by (auto simp: bind_eq_Some_conv)
qed

lemma response_decodes:
  assumes "sane_dto d" and "timely l" and "all_ipv4 l"
  shows "\<exists>j. EncodeJoinResponse \<lparr>RConfigDTO = d, RList = l\<rparr> = Some j \<and>
     DecodeJoinResponse j = Some \<lparr>RConfigDTO = d, RList = map on_wire l\<rparr>"
proof -
  have "Option.bind (EncodeJoinResponse \<lparr>RConfigDTO = d, RList = l\<rparr>) DecodeJoinResponse =
      Some \<lparr>RConfigDTO = d, RList = map on_wire l\<rparr>"
    using join_decodes [of "\<lparr>RConfigDTO = d, RList = l\<rparr>" "\<lparr>QList = []\<rparr>"] assms by (simp add: timely_def)
  then show ?thesis by (auto simp: bind_eq_Some_conv)
qed

lemma join_attempt_eq:
  assumes "Snapshot snap ord (st w) = (list, self, s)" and "EncodeJoinRequest \<lparr>QList = list\<rparr> = Some j"
    and "Option.bind (answer j) DecodeJoinResponse = Some resp"
  shows "snd (join_attempt True snap ord answer clk w)"
    and "cfg (fst (join_attempt True snap ord answer clk w)) = fst (ApplyRemote (cfg w) (RConfigDTO resp))"
    and "dom (entries (st (fst (join_attempt True snap ord answer clk w)))) =
      dom (entries s) \<union> (\<lambda>e. key_of (ID e)) ` set (RList resp)"
  using assms
  by (auto simp: join_attempt_def join_request_def join_response_def Let_def split_beta merge_dom)

text \<open>
  C13. The join handshake. If all identities are IPv4 and all heartbeats have years that JSON can express,
  one exchange with the introducer succeeds, and afterwards both nodes list every member that either
  of them listed before. The introducer's configuration is adopted only if its version is strictly
  newer: with equal versions the joiner keeps its own, although the comments say that the
  introducer's always wins.
\<close>

theorem join_handshake:
  assumes "daemon_inv wj" and "daemon_inv wi" and "cfg_ok (cfg wi)" and "cDropRateRecv (cfg wi) \<noteq> NaN"
    and "iteration ordj (entries (st wj))"
    and "l = fst (Snapshot snapj ordj (st wj))" and "timely l" and "all_ipv4 l"
    and "si = MergeFullList clki (st wi) (map on_wire l)" and "iteration ordi (entries si)"
    and "timely (fst (Snapshot snapi ordi si))" and "all_ipv4 (fst (Snapshot snapi ordi si))"
  shows "\<exists>j. EncodeJoinRequest \<lparr>QList = l\<rparr> = Some j \<and>
     (let hi = handleJoin clki snapi ordi (Some j) wi;
          hj = join_attempt True snapj ordj (\<lambda>_. snd hi) clkj wj in
      snd hj \<and>
      dom (entries (st (fst hi))) = dom (entries (st wi)) \<union> dom (entries (st wj)) \<and>
      dom (entries (st (fst hj))) = dom (entries (st wi)) \<union> dom (entries (st wj)) \<and>
      cfg (fst hj) = (if cVersion (cfg wj) < cVersion (cfg wi) then adopt (cfg wj) (cfg wi) else cfg wj))"
proof -
  obtain j where j: "EncodeJoinRequest \<lparr>QList = l\<rparr> = Some j" "DecodeJoinRequest j = Some \<lparr>QList = map on_wire l\<rparr>"
    using request_decodes [OF assms(7,8)] by blast
  obtain m where m: "EncodeJoinResponse \<lparr>RConfigDTO = ToDTO (cfg wi), RList = fst (Snapshot snapi ordi si)\<rparr> = Some m"
    "DecodeJoinResponse m = Some \<lparr>RConfigDTO = ToDTO (cfg wi), RList = map on_wire (fst (Snapshot snapi ordi si))\<rparr>"
    using response_decodes [OF sane_ToDTO [OF assms(3,4)] assms(11,12)] by blast
  have ij: "store_inv (st wj)" and ii: "store_inv si"
    using assms(1,2,9) by (simp_all add: daemon_inv_def store_inv_Merge)
  have dl: "(\<lambda>e. key_of (ID e)) ` set l = dom (entries (st wj))"
    using snapshot_keys_dom [OF ij assms(5)] assms(6) by simp
  have di: "dom (entries si) = dom (entries (st wi)) \<union> dom (entries (st wj))"
    using dl by (auto simp: assms(9) merge_dom image_image)
  have dm: "(\<lambda>e. key_of (ID e)) ` set (map on_wire (fst (Snapshot snapi ordi si))) = dom (entries si)"
    using snapshot_keys_dom [OF ii assms(10)] by (simp add: image_image)
  obtain s where s: "Snapshot snapj ordj (st wj) = (l, selfID (st wj), s)" "dom (entries s) = dom (entries (st wj))"
    using Snapshot_store [where now = snapj and ord = ordj and s = "st wj"] assms(5,6)
    by (cases "Snapshot snapj ordj (st wj)") auto
  let ?hi = "handleJoin clki snapi ordi (Some j) wi"
  have hi: "snd ?hi = Some m" "st (fst ?hi) = snd (snd (Snapshot snapi ordi si))"
    using j(2) m(1) assms(9) by (simp_all add: handleJoin_def split_beta)
  have "dom (entries (st (fst ?hi))) = dom (entries si)"
    using assms(10) by (simp add: hi(2))
  moreover note a = join_attempt_eq [OF s(1) j(1), of "\<lambda>_. snd ?hi"
      "\<lparr>RConfigDTO = ToDTO (cfg wi), RList = map on_wire (fst (Snapshot snapi ordi si))\<rparr>" clkj]
  have "Option.bind (snd ?hi) DecodeJoinResponse =
      Some \<lparr>RConfigDTO = ToDTO (cfg wi), RList = map on_wire (fst (Snapshot snapi ordi si))\<rparr>"
    using hi(1) m(2) by simp
  note b = a [OF this]
  have "fst (ApplyRemote (cfg wj) (ToDTO (cfg wi))) =
      (if cVersion (cfg wj) < cVersion (cfg wi) then adopt (cfg wj) (cfg wi) else cfg wj)"
    using ApplyDTO_ToDTO [OF assms(3), of "cfg wj"] by (simp add: ApplyRemote_def ApplyDTO_def)
  then show ?thesis
    using j(1) b di dm s(2) \<open>dom (entries (st (fst ?hi))) = dom (entries si)\<close>
    by (intro exI [of _ j]) (simp add: Let_def, blast)
qed

text \<open>The snapshot of a sample process, as a list of samples.\<close>

lemma sample_entries [simp]:
  "entries (NewStore (at_wall 5) (node h 7) c) = [key_of (node h 7) \<mapsto> sample h 100 StateAlive 5]"
  by (simp add: NewStore_def sample_def)

lemma touch_sample [simp]: "touch (at_wall t) (node h 7) (sample h i StateAlive u) = sample h i StateAlive t"
  by (simp add: touch_def sample_def)

lemma new_selfID [simp]: "selfID (NewStore now n c) = n" "config (NewStore now n c) = c"
  by (simp_all add: NewStore_def)

lemma iteration_single [simp]: "iteration [k] [k \<mapsto> e]"
  by (simp add: iteration_def)

lemma sample_snapshot [simp]:
  "fst (Snapshot (at_wall t) [key_of (node h 7)] (NewStore (at_wall 5) (node h 7) c)) = [sample h 100 StateAlive t]"
  "fst (snd (Snapshot (at_wall t) [key_of (node h 7)] (NewStore (at_wall 5) (node h 7) c))) = node h 7"
  by (subst Snapshot_eq, simp_all)+

lemma sample_timely: "0 \<le> t \<Longrightarrow> t \<le> 100 \<Longrightarrow> timely [sample h i x t]"
  by (simp add: timely_def first_instant_def last_instant_def)

theorem join_handshake_witness:
  "let c = Defaults ''h''; wj = sample_world 2 c; wi = sample_world 1 c
   in \<exists>j. EncodeJoinRequest \<lparr>QList = [sample 2 100 StateAlive 6]\<rparr> = Some j \<and>
     (let hi = handleJoin (\<lambda>_. at_wall 7) (at_wall 8) two_keys (Some j) wi;
          hj = join_attempt True (at_wall 6) [key_of (node 2 7)] (\<lambda>_. snd hi) (\<lambda>_. at_wall 9) wj in
      snd hj \<and> dom (entries (st (fst hj))) = {key_of (node 2 7), key_of (node 1 7)} \<and> cfg (fst hj) = c)"
proof -
  let ?c = "Defaults ''h''"
  let ?si = "MergeFullList (\<lambda>_. at_wall 7) (st (sample_world 1 ?c)) (map on_wire [sample 2 100 StateAlive 6])"
  have l: "[sample 2 100 StateAlive 6] = fst (Snapshot (at_wall 6) [key_of (node 2 7)] (st (sample_world 2 ?c)))"
    by simp
  have si: "entries ?si = [key_of (node 1 7) \<mapsto> sample 1 100 StateAlive 5, key_of (node 2 7) \<mapsto> sample 2 100 StateAlive 6]"
    by (simp add: updateMemberEntry_def put_entry_def)
  have i: "iteration two_keys (entries ?si)" unfolding si by (auto simp: iteration_def two_keys_def)
  have s: "fst (Snapshot (at_wall 8) two_keys ?si) = [sample 1 100 StateAlive 8, sample 2 100 StateAlive 6]"
    unfolding Snapshot_eq [OF i] si by (simp add: two_keys_def)
  have t: "timely (fst (Snapshot (at_wall 8) two_keys ?si))" "all_ipv4 (fst (Snapshot (at_wall 8) two_keys ?si))"
    unfolding s by (simp_all add: timely_def all_ipv4_def first_instant_def last_instant_def)
  have d: "daemon_inv (sample_world 2 ?c)" "daemon_inv (sample_world 1 ?c)" by simp_all
  have f: "cfg_ok (cfg (sample_world 1 ?c))" "cDropRateRecv (cfg (sample_world 1 ?c)) \<noteq> NaN"
    by (simp_all, simp add: Defaults_def)
  have o: "iteration [key_of (node 2 7)] (entries (st (sample_world 2 ?c)))" by simp
  from join_handshake [OF d f o l sample_timely _ refl i t, where clkj = "\<lambda>_. at_wall 9"]
  show ?thesis by (auto simp add: all_ipv4_def Let_def)
qed

section \<open>What Run does with the answer\<close>

text \<open>
  C36. A joining node ends up with the wrong protocol. \<open>Run\<close> starts the protocol with the configuration
  of the command line even when the introducer has just answered with a newer one: the process then
  reports the introducer's configuration, but its loop runs with the boot configuration, in its mode,
  and sends its old DTO along. Since the versions are equal, no peer corrects this.
\<close>

theorem join_starts_boot_config:
  assumes "daemon_inv w" and "cfg w = c0"
    and "join_attempt connects snap ord answer clk w = (w1, True)" and "cVersion c0 < cVersion (cfg w1)"
  shows "let w2 = startProtocol c0 w1 in
     cfg w2 = cfg w1 \<and> loops_as c0 w2 \<and> \<not> in_force (cfg w2) w2 \<and>
     (\<forall>dto. dVersion dto = cVersion (cfg w1) \<longrightarrow> onConfigFromWire dto w2 = w2)"
proof -
  let ?w2 = "startProtocol c0 w1"
  have i: "daemon_inv w1" using join_attempt_ok [OF assms(1), of connects snap ord answer clk] assms(3)
    by (simp add: world_ok_def)
  have l: "loops_as c0 ?w2"
    using i assms(1,2) by (auto simp: daemon_inv_def intro: start_loops)
  have "ToDTO c0 \<noteq> ToDTO (cfg w1)"
  proof
    assume "ToDTO c0 = ToDTO (cfg w1)"
    then have "dVersion (ToDTO c0) = dVersion (ToDTO (cfg w1))" by simp
    with assms(4) show False by simp
  qed
  then have "\<not> in_force (cfg w1) ?w2"
    using l by (auto simp: in_force_def loops_as_def ping_as_def gossip_as_def split: if_splits)
  moreover have "onConfigFromWire dto ?w2 = ?w2" if "dVersion dto = cVersion (cfg w1)" for dto
    using that by (simp add: onConfigFromWire_def commit_remote_def ApplyRemote_def ApplyDTO_def Let_def)
  ultimately show ?thesis using l by (simp add: Let_def)
qed

theorem join_starts_boot_config_witness:
  "let c = Defaults ''h''; c' = c\<lparr>cVersion := 2, cMode := ModeGossip\<rparr>;
       answer = (\<lambda>_. EncodeJoinResponse \<lparr>RConfigDTO = ToDTO c', RList = [sample 1 100 StateAlive 4]\<rparr>);
       w1 = fst (join_attempt True (at_wall 6) [key_of (node 2 7)] answer (\<lambda>_. at_wall 9) (sample_world 2 c))
   in cfg w1 = adopt c c' \<and> \<not> in_force (adopt c c') (startProtocol c w1)"
proof -
  let ?c = "Defaults ''h''"
  let ?c' = "?c\<lparr>cVersion := 2, cMode := ModeGossip\<rparr>" and ?w = "sample_world 2 ?c"
  let ?answer = "\<lambda>_. EncodeJoinResponse \<lparr>RConfigDTO = ToDTO ?c', RList = [sample 1 100 StateAlive 4]\<rparr>"
  let ?a = "join_attempt True (at_wall 6) [key_of (node 2 7)] ?answer (\<lambda>_. at_wall 9) ?w"
  have sane: "sane_dto (ToDTO ?c')" by (rule sane_ToDTO [OF two_cfg_ok]) (simp add: Defaults_def)
  obtain s where s: "Snapshot (at_wall 6) [key_of (node 2 7)] (st ?w) = ([sample 2 100 StateAlive 6], node 2 7, s)"
    using sample_snapshot [of 6 2 ?c] unfolding sample_world_simps by (metis prod.collapse)
  obtain j where j: "EncodeJoinRequest \<lparr>QList = [sample 2 100 StateAlive 6]\<rparr> = Some j"
    using request_decodes [OF sample_timely [of 6 2 100 StateAlive]] by auto
  have r: "Option.bind (?answer j) DecodeJoinResponse =
      Some \<lparr>RConfigDTO = ToDTO ?c', RList = [sample 1 100 StateAlive 4]\<rparr>"
    using response_decodes [OF sane, of "[sample 1 100 StateAlive 4]"] by auto
  note b = join_attempt_eq [OF s j r, of "\<lambda>_. at_wall 9"]
  have v: "cVersion ?c = 1" by (simp add: Defaults_def)
  have c1: "cfg (fst ?a) = adopt ?c ?c'"
    using b(2) ApplyDTO_ToDTO [OF two_cfg_ok, of ?c "''h''"] v by (simp add: ApplyRemote_def)
  have a: "?a = (fst ?a, True)" using b(1) by (simp add: prod_eq_iff)
  have "daemon_inv ?w" "cfg ?w = ?c" by simp_all
  from join_starts_boot_config [OF this a] show ?thesis
    using c1 v by (simp add: Let_def)
qed

end
