(* ===== verification/LoopLife.thy ===== *)
theory LoopLife
  imports InForce
begin

text \<open>
  The life of a loop object. A stopped loop stays stopped and keeps its table of pings; a receive
  goroutine that has ended is never restarted, since new loops get new addresses; the periods of the
  tickers stay positive. One relation, \<open>evolves\<close>, states this for every step of the process.
\<close>

section \<open>The relation\<close>

text \<open>What \<open>time.NewTicker\<close> requires of the loops (it panics otherwise), and a use for every tick.\<close>

definition tuned :: "World \<Rightarrow> bool" where
  "tuned w \<longleftrightarrow>
     (\<forall>r l. pings w r = Some l \<longrightarrow> 0 < PingEvery l \<and> 0 < PingFanout l) \<and>
     (\<forall>r l. gossips w r = Some l \<longrightarrow> 0 < GossipPeriod l \<and> 0 < GossipFanout l)"

definition ping_later :: "PLoop \<Rightarrow> PLoop \<Rightarrow> bool" where
  "ping_later l l' \<longleftrightarrow> PInflight l' = PInflight l \<and> (PStop l \<longrightarrow> PStop l')"

definition gossip_later :: "GLoop \<Rightarrow> GLoop \<Rightarrow> bool" where
  "gossip_later l l' \<longleftrightarrow> (GStop l \<longrightarrow> GStop l')"

definition evolves :: "World \<Rightarrow> World \<Rightarrow> bool" where
  "evolves w w' \<longleftrightarrow>
     (\<forall>r l. pings w r = Some l \<longrightarrow> (\<exists>l'. pings w' r = Some l' \<and> ping_later l l')) \<and>
     (\<forall>r l. gossips w r = Some l \<longrightarrow> (\<exists>l'. gossips w' r = Some l' \<and> gossip_later l l')) \<and>
     (\<forall>r. pings w r \<noteq> None \<longrightarrow> r \<in> ping_threads w' \<longrightarrow> r \<in> ping_threads w) \<and>
     (\<forall>r. gossips w r \<noteq> None \<longrightarrow> r \<in> gossip_threads w' \<longrightarrow> r \<in> gossip_threads w) \<and>
     (tuned w \<longrightarrow> tuned w')"

lemma later_refl [simp]: "ping_later l l" "gossip_later g g"
  by (simp_all add: ping_later_def gossip_later_def)

lemma later_trans:
  "ping_later l l' \<Longrightarrow> ping_later l' l'' \<Longrightarrow> ping_later l l''"
  "gossip_later g g' \<Longrightarrow> gossip_later g' g'' \<Longrightarrow> gossip_later g g''"
  by (simp_all add: ping_later_def gossip_later_def)

lemma evolves_refl [simp]: "evolves w w"
  by (simp add: evolves_def)

lemma evolvesD:
  assumes "evolves w w'"
  shows "pings w r = Some l \<Longrightarrow> \<exists>l'. pings w' r = Some l' \<and> ping_later l l'"
    and "gossips w r = Some g \<Longrightarrow> \<exists>g'. gossips w' r = Some g' \<and> gossip_later g g'"
    and "pings w r = Some l \<Longrightarrow> r \<in> ping_threads w' \<Longrightarrow> r \<in> ping_threads w"
    and "gossips w r = Some g \<Longrightarrow> r \<in> gossip_threads w' \<Longrightarrow> r \<in> gossip_threads w"
    and "tuned w \<Longrightarrow> tuned w'"
  using assms by (auto simp: evolves_def)

lemma evolves_trans:
  assumes "evolves u v" and "evolves v w"
  shows "evolves u w"
proof -
  note u = evolvesD [OF assms(1)] and v = evolvesD [OF assms(2)]
  have "\<exists>l'. pings w r = Some l' \<and> ping_later l l'" if "pings u r = Some l" for r l
    using u(1) [OF that] v(1) later_trans(1) by blast
  moreover have "\<exists>l'. gossips w r = Some l' \<and> gossip_later l l'" if "gossips u r = Some l" for r l
    using u(2) [OF that] v(2) later_trans(2) by blast
  moreover have "r \<in> ping_threads u" if "pings u r = Some l" "r \<in> ping_threads w" for r l
    using u(1,3) [OF that(1)] v(3) that(2) by blast
  moreover have "r \<in> gossip_threads u" if "gossips u r = Some l" "r \<in> gossip_threads w" for r l
    using u(2,4) [OF that(1)] v(4) that(2) by blast
  ultimately show ?thesis using u(5) v(5) by (auto simp: evolves_def)
qed

lemma evolves_same: "same_config w w' \<Longrightarrow> evolves w w'"
  by (auto simp: evolves_def same_config_def tuned_def)

text \<open>The frame of all that \<open>evolves\<close> looks at.\<close>

lemma evolves_frame:
  assumes "pings w' = pings w" and "gossips w' = gossips w" and "ping_threads w' = ping_threads w"
    and "gossip_threads w' = gossip_threads w"
  shows "evolves w w'"
  using assms by (simp add: evolves_def tuned_def)

section \<open>The operations on the loops\<close>

lemma evolves_update_ping:
  assumes "\<And>l. ping_later l (f l)" and "\<And>l. 0 < PingEvery l \<and> 0 < PingFanout l \<Longrightarrow> 0 < PingEvery (f l) \<and> 0 < PingFanout (f l)"
    and "h = pings w"
  shows "evolves w (w\<lparr>pings := h(r := map_option f (h r))\<rparr>)"
  using assms by (auto simp: evolves_def tuned_def)

lemma evolves_update_gossip:
  assumes "\<And>l. gossip_later l (f l)" and "\<And>l. 0 < GossipPeriod l \<and> 0 < GossipFanout l \<Longrightarrow> 0 < GossipPeriod (f l) \<and> 0 < GossipFanout (f l)"
  shows "evolves w (w\<lparr>gossips := (gossips w)(r := map_option f (gossips w r))\<rparr>)"
  using assms by (auto simp: evolves_def tuned_def)

lemma valid_knobs:
  "ValidateClusterParams c = None \<Longrightarrow>
   0 < cPingEvery c \<and> 0 < cPingFanout c \<and> 0 < cGossipPeriod c \<and> 0 < cGossipFanout c"
  by (auto simp: ValidateClusterParams_def split: if_splits)

lemma evolves_stop: "evolves w (stopPingAck w)" "evolves w (stopGossip w)"
  by (auto simp: evolves_def tuned_def stopPingAck_def stopGossip_def PingClose_def GossipClose_def ping_later_def
      gossip_later_def Option.bind_eq_Some_conv split: option.splits if_splits)

lemma evolves_reconfigure:
  assumes "ValidateClusterParams c = None"
  shows "evolves w (reconfigurePing c w)" and "evolves w (reconfigureGossip c w)"
  using valid_knobs [OF assms]
  by (auto simp: reconfigurePing_def reconfigureGossip_def PingReconfigure_def GossipReconfigure_def
      ping_later_def gossip_later_def intro!: evolves_update_ping evolves_update_gossip split: option.split)

lemma evolves_refresh: "evolves w (refreshDTO d w)"
proof -
  have g: "evolves w (case loopGo w of None \<Rightarrow> w
      | Some r \<Rightarrow> w\<lparr>gossips := (gossips w)(r := map_option (GossipSetConfigDTO d) (gossips w r))\<rparr>)" (is "evolves w ?w1")
    by (auto simp: GossipSetConfigDTO_def gossip_later_def intro!: evolves_update_gossip split: option.split)
  have "evolves ?w1 (refreshDTO d w)"
    unfolding refreshDTO_def Let_def
    by (auto simp: PingSetConfigDTO_def ping_later_def intro!: evolves_update_ping split: option.split)
  with g show ?thesis by (rule evolves_trans)
qed

lemma evolves_manager: "evolves w (reconfigureManager c w)"
  by (rule evolves_frame) (simp_all add: reconfigureManager_def Let_def)

text \<open>A new loop gets an address at which there was none.\<close>

lemma evolves_new_ping:
  assumes "pings w r = None" and "0 < PingEvery l" and "0 < PingFanout l" and "h = pings w" and "T = ping_threads w"
  shows "evolves w (w\<lparr>tables := t, pings := h(r \<mapsto> l), loopPA := p, next_ref := n, ping_threads := insert r T, mode := m\<rparr>)"
  using assms by (auto simp: evolves_def tuned_def)

lemma evolves_new_gossip:
  assumes "gossips w r = None" and "0 < GossipPeriod l" and "0 < GossipFanout l" and "h = gossips w" and "T = gossip_threads w"
  shows "evolves w (w\<lparr>gossips := h(r \<mapsto> l), loopGo := p, next_ref := n, gossip_threads := insert r T, mode := m\<rparr>)"
  using assms by (auto simp: evolves_def tuned_def)

lemma heap_fresh:
  assumes "heap_inv w" and "next_ref w \<le> r"
  shows "pings w r = None" and "gossips w r = None"
  using assms by (auto simp: heap_inv_def) (metis leD not_None_eq)+

lemma evolves_start:
  assumes "heap_inv w" and "ValidateClusterParams c = None"
  shows "evolves w (startProtocol c w)"
proof (cases "cMode c = ModePingAck")
  case True
  have h: "heap_inv (stopGossip w)" using heap_stopGossip [OF assms(1)] by simp
  have "evolves (stopGossip w) (startProtocol c w)"
    unfolding startProtocol_def Let_def if_P [OF True] PingSetConfigDTO_def NewPingAck_def
    using valid_knobs [OF assms(2)] heap_fresh(1) [OF h] by simp (intro evolves_new_ping; simp)
  with evolves_stop(2) show ?thesis by (rule evolves_trans)
next
  case False
  then have g: "cMode c = ModeGossip" using mode_cases [OF assms(2)] by simp
  have h: "heap_inv (stopPingAck w)" using heap_stopPingAck [OF assms(1)] by simp
  have "evolves (stopPingAck w) (startProtocol c w)"
    unfolding startProtocol_def Let_def if_not_P [OF False] if_P [OF g] GossipSetConfigDTO_def NewGossip_def
    using valid_knobs [OF assms(2)] heap_fresh(2) [OF h] by simp (intro evolves_new_gossip; simp)
  with evolves_stop(1) show ?thesis by (rule evolves_trans)
qed

lemma evolves_applyRuntime:
  assumes "heap_inv w" and "ValidateClusterParams c = None"
  shows "evolves w (applyRuntime p c w)"
proof -
  define w1 where "w1 = (if cMode c = ModePingAck then
                  (if cMode p \<noteq> cMode c \<or> loopPA w = None then startProtocol c w else reconfigurePing c w)
                else if cMode c = ModeGossip then
                  (if cMode p \<noteq> cMode c \<or> loopGo w = None then startProtocol c w else reconfigureGossip c w)
                else w)"
  define w2 where "w2 = reconfigureManager c w1"
  have 1: "evolves w w1" using evolves_start [OF assms] evolves_reconfigure [OF assms(2)] by (simp add: w1_def)
  have 2: "evolves w1 w2" unfolding w2_def by (rule evolves_manager)
  have 3: "evolves w2 (w2\<lparr>st := StoreReconfigure (st w2) c\<rparr>)" by (rule evolves_frame) simp_all
  have r: "applyRuntime p c w = refreshDTO (ToDTO c) (w2\<lparr>st := StoreReconfigure (st w2) c\<rparr>)"
    by (simp add: applyRuntime_def Let_def w1_def w2_def)
  show ?thesis
    unfolding r using evolves_trans [OF evolves_trans [OF evolves_trans [OF 1 2] 3] evolves_refresh] .
qed

section \<open>The steps\<close>

lemma evolves_commit:
  "evolves w (fst (commit_remote d w))" "evolves w (fst (commit_local d w))"
  by (rule evolves_frame, simp_all add: commit_remote_def commit_local_def split_beta)+

lemma evolves_committed:
  assumes "daemon_inv w" and "commit = commit_remote d \<or> commit = commit_local d"
  shows "evolves w (applyRuntime p (cfg (fst (commit w))) (fst (commit w)))"
proof -
  have "daemon_inv (fst (commit w))" using committed_ok(1) [OF assms] by (simp add: world_ok_def)
  then have "evolves (fst (commit w)) (applyRuntime p (cfg (fst (commit w))) (fst (commit w)))"
    by (intro evolves_applyRuntime) (simp_all add: daemon_inv_def)
  moreover have "evolves w (fst (commit w))" using assms(2) evolves_commit by auto
  ultimately show ?thesis by (metis evolves_trans)
qed

lemma evolves_callback: "daemon_inv w \<Longrightarrow> evolves w (onConfigFromWire d w)"
  using evolves_committed [of w "commit_remote d" d] evolves_commit(1)
  by (auto simp: onConfigFromWire_def Let_def split_beta)

lemma evolves_recv:
  assumes "daemon_inv w" and "w1 = w \<or> (\<exists>d. w1 = onConfigFromWire d w)" and "same_config w1 w2"
  shows "evolves w w2"
  using assms evolves_callback evolves_same evolves_trans by (metis evolves_refl)

lemma evolves_http:
  assumes "daemon_inv w"
  shows "evolves w (fst (http_set file w))" and "evolves w (fst (http_switch body w))"
proof -
  have "evolves w (fst (local_change d w))" for d
    using evolves_committed [OF assms, of "commit_local d" d] by (simp add: local_change_fst)
  then show "evolves w (fst (http_set file w))" and "evolves w (fst (http_switch body w))"
    by (simp_all add: http_fst split: option.split)
qed

lemma evolves_Close: "evolves w (Close w)"
proof -
  have "evolves w (stopGossip (stopPingAck w))" by (rule evolves_trans [OF evolves_stop])
  moreover have "evolves (stopGossip (stopPingAck w)) (Close w)"
    by (rule evolves_frame) (simp_all add: Close_def Let_def split: option.split)
  ultimately show ?thesis by (rule evolves_trans)
qed

lemma evolves_join:
  assumes "daemon_inv w"
  shows "evolves w (fst (join_request snap ord w))" and "evolves w (fst (join_response answer clk w))"
proof -
  show "evolves w (fst (join_request snap ord w))"
    by (rule evolves_frame) (simp_all add: join_request_def split_beta)
  have 2: "evolves w (fst (commit_remote d w))"
    "evolves w (applyRuntime p (cfg (fst (commit_remote d w))) (fst (commit_remote d w)))" for d p
    using evolves_commit(1) evolves_committed [OF assms] by blast+
  have 3: "evolves w (w3\<lparr>st := s3\<rparr>)" if "evolves w w3" for w3 s3
    by (rule evolves_trans [OF that], rule evolves_frame) simp_all
  show "evolves w (fst (join_response answer clk w))"
    using 3 [OF 2(1)] 3 [OF 2(2)]
    by (auto simp only: join_response_def Let_def split_beta fst_conv snd_conv evolves_refl
        split: option.split if_split)
qed

lemma dstep_evolves:
  assumes "dstep c0 p q" and "daemon_inv (snd p)" and "ValidateClusterParams c0 = None"
  shows "evolves (snd p) (snd q)"
  using assms
proof (induction rule: dstep.induct)
  case (scan v w w' ph)
  then show ?case using scan_same evolves_same by simp
next
  case (rate ph w)
  then show ?case by (simp add: rate_same evolves_same)
next
  case (ping_receive r w ph rv input)
  obtain w1 where w1: "w1 = w \<or> (\<exists>d. w1 = onConfigFromWire d w)"
    "same_config w1 (fst (ping_recv (ping_at r) rv (UDP_Read (net_open w) input) w))"
    using ping_recv_config [of w r rv "UDP_Read (net_open w) input"] by metis
  from evolves_recv [OF _ w1(1) same_config_trans [OF w1(2) after_same(1)]] ping_receive.prems
  show ?case by simp
next
  case (gossip_receive r w ph rv input)
  obtain w1 where w1: "w1 = w \<or> (\<exists>d. w1 = onConfigFromWire d w)"
    "same_config w1 (fst (gossip_recv (gossip_at r) rv (UDP_Read (net_open w) input) w))"
    using gossip_recv_config [of w r rv "UDP_Read (net_open w) input"] by metis
  from evolves_recv [OF _ w1(1) same_config_trans [OF w1(2) after_same(2)]] gossip_receive.prems
  show ?case by simp
next
  case (ping_send w r ticker prev sv w' out period ph)
  then show ?case using evolves_same [OF ticks_same_sender(1) [OF ping_send.hyps(3)]] by simp
next
  case (gossip_send w r ticker prev sv w' out period ph)
  then show ?case using evolves_same [OF ticks_same_sender(2) [OF gossip_send.hyps(3)]] by simp
next
  case (join_fails snap ord w w')
  then show ?case using evolves_join(1) [of w snap ord] by simp
next
  case (join_asks snap ord w w' j)
  then show ?case using evolves_join(1) [of w snap ord] by simp
next
  case (join_retry answer clk w w')
  then show ?case using evolves_join(2) [of w answer clk] by simp
next
  case (join_done answer clk w w')
  then show ?case using evolves_join(2) [of w answer clk] by simp
qed (simp_all add: evolves_start daemon_inv_def evolves_http evolves_same ticks_same handlers_same
    evolves_Close manager_same introducer_same)

lemma dsteps_evolve:
  assumes "(dstep c0)\<^sup>*\<^sup>* p q" and "reachable c0 p" and "ValidateClusterParams c0 = None"
  shows "evolves (snd p) (snd q) \<and> reachable c0 q"
  using assms
proof (induction rule: rtranclp_induct)
  case base
  then show ?case by simp
next
  case (step q q')
  then have "reachable c0 q" "evolves (snd p) (snd q)" by auto
  moreover have "evolves (snd q) (snd q')"
    using dstep_evolves [OF step.hyps(2)] reachable_inv [OF \<open>reachable c0 q\<close> step.prems(2)] step.prems(2) by blast
  ultimately show ?case using evolves_trans reachable.step [OF _ step.hyps(2)] by blast
qed

lemma boot_tuned: "boot resolver listens t now c = Inr w \<Longrightarrow> tuned w"
  by (auto simp: boot_def tuned_def Let_def split: sum.splits if_splits)

lemma reachable_tuned:
  assumes "reachable c0 p" and "ValidateClusterParams c0 = None"
  shows "tuned (snd p)"
  using assms
proof (induction rule: reachable.induct)
  case (start resolver listens t now w)
  then show ?case by (simp add: boot_tuned)
next
  case (step p q)
  then show ?case using dstep_evolves [OF step.hyps(2)] reachable_inv by (auto simp: evolves_def)
qed

end
