(* ===== verification/LoopProps.thy ===== *)
theory LoopProps
  imports LoopLife JoinProps
begin

text \<open>
  The properties of the protocol loops (\<open>src/pkg/protocol/gossip/loop.go\<close>,
  \<open>src/pkg/protocol/pingack/loop.go\<close>) inside the daemon: their tickers, their end, what they send and
  to whom, how pings are answered and settled, and what leaving does to them.
\<close>

section \<open>Tickers and the end of a loop\<close>

text \<open>
  The tickers never panic. In every reachable state every loop object, stopped or not, has a
  positive period, so that \<open>time.NewTicker\<close> accepts it, and a positive fan-out.
\<close>

theorem tickers_positive:
  assumes "reachable c0 (ph, w)" and "ValidateClusterParams c0 = None"
  shows "(pings w r = Some l \<longrightarrow> 0 < PingEvery l \<and> 0 < PingFanout l) \<and>
     (gossips w r = Some g \<longrightarrow> 0 < GossipPeriod g \<and> 0 < GossipFanout g)"
  using reachable_tuned [OF assms] by (simp add: tuned_def)

lemma sample_serving:
  "reachable ((Defaults h)\<lparr>cIsIntroducer := True\<rparr>)
     (Serving, startProtocol ((Defaults h)\<lparr>cIsIntroducer := True\<rparr>) (sample_world 1 ((Defaults h)\<lparr>cIsIntroducer := True\<rparr>)))"
  by (rule reachable_serving) simp

lemma sample_loop:
  "pings (startProtocol ((Defaults h)\<lparr>cIsIntroducer := True\<rparr>) (sample_world 1 c)) 2 =
     Some \<lparr>PingEvery = ms 200, PTSuspect = 0, PingFanout = 1, PDropRateRecv = Fin 0, PInflight = 1, PStop = False,
       PcfgDTO = ToDTO (Defaults h)\<rparr>"
  "2 \<in> ping_threads (startProtocol ((Defaults h)\<lparr>cIsIntroducer := True\<rparr>) (sample_world 1 c))"
  "loopPA (startProtocol ((Defaults h)\<lparr>cIsIntroducer := True\<rparr>) (sample_world 1 c)) = Some 2"
  by (simp_all add: startProtocol_def Let_def Defaults_def sample_world_def stopGossip_def NewPingAck_def
      PingSetConfigDTO_def ToDTO_def ms_def)

theorem tickers_positive_witness:
  "\<exists>l. pings (startProtocol ((Defaults ''h'')\<lparr>cIsIntroducer := True\<rparr>) (sample_world 1
      ((Defaults ''h'')\<lparr>cIsIntroducer := True\<rparr>))) 2 = Some l \<and> 0 < PingEvery l"
  using tickers_positive [OF sample_serving [of "''h''"], where r = 2]
    sample_loop(1) [of "''h''" "(Defaults ''h'')\<lparr>cIsIntroducer := True\<rparr>"] by fastforce

text \<open>
  C20. A stopped loop comes to its end. Closing the channel does not wake a receive goroutine that waits
  for a datagram, so it handles one more, or the error of a socket that was closed; after that one the goroutine is gone, and in no later state of
  the process is there a goroutine for this loop again.
\<close>

theorem stopped_loop_drains:
  assumes "reachable c0 (ph, w)" and "ValidateClusterParams c0 = None"
    and "pings w r = Some l" and "PStop l" and "r \<in> ping_threads w"
    and "w1 = after_ping r (ping_recv (ping_at r) v (UDP_Read (net_open w) (input :: string read)) w)"
    and "(dstep c0)\<^sup>*\<^sup>* (ph, w1) (ph', w')"
  shows "r \<notin> ping_threads w1 \<and> r \<notin> ping_threads w' \<and> (\<exists>l'. pings w' r = Some l' \<and> PStop l')"
proof -
  have d: "dstep c0 (ph, w) (ph, w1)" unfolding assms(6) using assms(5) by (rule dstep.ping_receive)
  then have "evolves w w1" using dstep_evolves [OF d] reachable_inv [OF assms(1,2)] assms(2) by simp
  then obtain l1 where l1: "pings w1 r = Some l1" "PStop l1"
    using assms(3,4) evolvesD(1) ping_later_def by blast
  have "pings (fst (ping_recv (ping_at r) v (UDP_Read (net_open w) input) w)) r = pings w1 r"
    by (simp add: assms(6) after_ping_def Let_def)
  then have "\<not> ping_enter (get_ping (ping_at r) (fst (ping_recv (ping_at r) v (UDP_Read (net_open w) input) w)))"
    using l1 by (simp add: ping_enter_def ping_at_def)
  then have gone: "r \<notin> ping_threads w1" by (simp add: assms(6) after_ping_def Let_def)
  have "evolves w1 w'"
    using dsteps_evolve [OF assms(7) reachable.step [OF assms(1) d] assms(2)] by simp
  then show ?thesis using gone l1 evolvesD(1,3) ping_later_def by blast
qed

lemma closed_sample:
  "let c = (Defaults h)\<lparr>cIsIntroducer := True\<rparr>; w = Close (ManagerRun (startProtocol c (sample_world 1 c)))
   in pings w 2 = Some ((the (pings (startProtocol c (sample_world 1 c)) 2))\<lparr>PStop := True\<rparr>) \<and> 2 \<in> ping_threads w \<and>
      reachable c (Closed, w)"
proof -
  let ?c = "(Defaults h)\<lparr>cIsIntroducer := True\<rparr>"
  let ?w = "startProtocol ?c (sample_world 1 ?c)"
  have m: "mgr_stop ?w = None" by (simp add: sample_world_def)
  have g: "loopGo ?w = None" by (simp add: startProtocol_def Let_def Defaults_def stopGossip_def)
  have "reachable ?c (Serving, ManagerRun ?w)"
    by (rule reachable.step [OF sample_serving dstep.manager [OF m]])
  moreover have "mgr_stop (ManagerRun ?w) = Some False" by (simp add: ManagerRun_def)
  ultimately have "reachable ?c (Closed, Close (ManagerRun ?w))"
    by (blast intro: reachable.step dstep.shutdown)
  then show ?thesis
    using sample_loop [of h ?c] g
    by (simp add: Let_def Close_def ManagerRun_def stopPingAck_def PingClose_def stopGossip_def)
qed

theorem stopped_loop_drains_witness:
  "let c = (Defaults ''h'')\<lparr>cIsIntroducer := True\<rparr>; w = Close (ManagerRun (startProtocol c (sample_world 1 c)));
       v = \<lparr>r_coin = 0, r_snap = at_wall 6, r_ord = [], r_clk = (\<lambda>_. at_wall 6), r_snap2 = at_wall 6, r_ord2 = []\<rparr>
   in 2 \<in> ping_threads w \<and> 2 \<notin> ping_threads (after_ping 2 (ping_recv (ping_at 2) v (UDP_Read (net_open w) (Datagram None ''a'')) w))"
proof -
  let ?c = "(Defaults ''h'')\<lparr>cIsIntroducer := True\<rparr>"
  let ?w = "Close (ManagerRun (startProtocol ?c (sample_world 1 ?c)))"
  have r: "reachable ?c (Closed, ?w)" and t: "2 \<in> ping_threads ?w"
    and p: "pings ?w 2 = Some ((the (pings (startProtocol ?c (sample_world 1 ?c)) 2))\<lparr>PStop := True\<rparr>)"
    using closed_sample [of "''h''"] by (simp_all add: Let_def)
  show ?thesis
    unfolding Let_def using stopped_loop_drains [OF r _ p _ t refl rtranclp.rtrancl_refl] t by simp
qed

section \<open>Leaving\<close>

lemma leave_foldl:
  assumes "distinct (map (\<lambda>e. key_of (ID e)) list)"
  shows "leave_store now list s =
     (case find (\<lambda>e. ID e = selfID s) list of
        None \<Rightarrow> s | Some e \<Rightarrow> ApplyLocked now s (selfID s) (Incarnation e + 1) StateLeft)"
proof -
  have idle: "foldl (\<lambda>s e. if ID e = selfID s then ApplyLocked now s (selfID s) (Incarnation e + 1) StateLeft else s) s es = s"
    if "\<forall>e \<in> set es. ID e \<noteq> selfID s" for s es
    using that by (induction es) simp_all
  have "foldl (\<lambda>s e. if ID e = selfID s then ApplyLocked now s (selfID s) (Incarnation e + 1) StateLeft else s) s es =
      (case find (\<lambda>e. ID e = selfID s) es of
        None \<Rightarrow> s | Some e \<Rightarrow> ApplyLocked now s (selfID s) (Incarnation e + 1) StateLeft)"
    if "distinct (map (\<lambda>e. key_of (ID e)) es)" for es
    using that
  proof (induction es)
    case Nil
    then show ?case by simp
  next
    case (Cons a es)
    have "\<forall>e \<in> set es. ID e \<noteq> ID a" using Cons.prems by (auto simp: image_iff)
    then show ?case
      using Cons idle [of es "ApplyLocked now s (selfID s) (Incarnation a + 1) StateLeft"]
      by (cases "ID a = selfID s") simp_all
  qed
  from this [OF assms] show ?thesis unfolding leave_store_def SelfID_def .
qed

lemma find_self:
  assumes "store_inv s" and "iteration ord (entries s)" and "entries s (key_of (selfID s)) = Some e" and "ID e = selfID s"
  shows "find (\<lambda>e. ID e = selfID s) (fst (Snapshot now ord s)) = Some (touch now (selfID s) e)"
proof -
  have "touch now (selfID s) e \<in> set (fst (Snapshot now ord s))"
    using assms(3) Snapshot_list_set [OF assms(2)] by (metis option.simps(9) touched_simps(5))
  moreover have "d = touch now (selfID s) e" if d: "d \<in> set (fst (Snapshot now ord s))" "ID d = selfID s" for d
  proof -
    obtain k z where z: "entries s k = Some z" "d = touch now (selfID s) z"
      using d(1) Snapshot_list_set [OF assms(2), of d now] by auto
    then have "k = key_of (selfID s)" using store_invD [OF assms(1) z(1)] d(2) by simp
    with z assms(3) show ?thesis by simp
  qed
  ultimately obtain d where "find (\<lambda>e. ID e = selfID s) (fst (Snapshot now ord s)) = Some d"
    using assms(4) by (cases "find (\<lambda>e. ID e = selfID s) (fst (Snapshot now ord s))") (auto simp: find_None_iff)
  moreover from this have "d \<in> set (fst (Snapshot now ord s)) \<and> ID d = selfID s"
    by (auto simp: find_Some_iff)
  ultimately show ?thesis
    using \<open>\<And>d. d \<in> set (fst (Snapshot now ord s)) \<Longrightarrow> ID d = selfID s \<Longrightarrow> d = touch now (selfID s) e\<close> by metis
qed

lemma leave_entries:
  assumes "store_inv (st w)" and "iteration ord (entries (st w))"
    and "entries (st w) (key_of (selfID (st w))) = Some e" and "ID e = selfID (st w)"
  shows "entries (st (fst (http_leave snap ord now w))) = (entries (st w))(key_of (selfID (st w)) \<mapsto>
     e\<lparr>Incarnation := Incarnation e + 1, EState := StateLeft, LastUpdate := now\<rparr>)"
proof -
  have s: "Snapshot snap ord (st w) = (fst (Snapshot snap ord (st w)), selfID (st w), touched snap (st w))"
    using Snapshot_store [where now = snap and ord = ord and s = "st w"] assms(2) by (simp add: prod_eq_iff)
  have d: "distinct (map (\<lambda>e. key_of (ID e)) (fst (Snapshot snap ord (st w))))"
    using Snapshot_keys [OF assms(1,2)] assms(2) by (simp add: iteration_def)
  have o: "map_option (touch snap (selfID (st w))) (entries (st w) k) = entries (st w) k"
    if "k \<noteq> key_of (selfID (st w))" for k
  proof (cases "entries (st w) k")
    case (Some a)
    then have "ID a \<noteq> selfID (st w)" using that store_invD [OF assms(1) Some] by auto
    then show ?thesis using Some by simp
  qed simp
  have "st (fst (http_leave snap ord now w)) = leave_store now (fst (Snapshot snap ord (st w))) (touched snap (st w))"
    by (subst http_leave_def, subst s) simp
  also have "\<dots> = ApplyLocked now (touched snap (st w)) (selfID (st w)) (Incarnation e + 1) StateLeft"
    using find_self [OF assms, of snap] by (subst leave_foldl [OF d]) simp
  finally show ?thesis
    using assms(3) o by (auto simp: ApplyLocked_def apply_entry_def Let_def fun_eq_iff touch_def)
qed

definition has_left :: "Store \<Rightarrow> bool" where
  "has_left s \<longleftrightarrow> (\<exists>e. entries s (key_of (selfID s)) = Some e \<and> ID e = selfID s \<and> EState e = StateLeft)"

text \<open>
  One iteration of a receive loop, of either kind, and the datagrams that it passes over without a look at
  the list. An iteration of a node that has left merges nothing, and the loop ends unless the datagram is
  passed over.
\<close>

definition receives :: "(nat + nat) \<times> recv_env \<times> string read \<Rightarrow> World \<Rightarrow> World \<times> string received" where
  "receives x w = (case x of (Inl r, v, input) \<Rightarrow> ping_recv (ping_at r) v input w
     | (Inr r, v, input) \<Rightarrow> gossip_recv (gossip_at r) v input w)"

definition passed_over :: "(nat + nat) \<times> recv_env \<times> string read \<Rightarrow> World \<Rightarrow> bool" where
  "passed_over x w = (case x of (g, v, ReadError) \<Rightarrow> False
     | (g, v, Datagram b src) \<Rightarrow> decode_datagram b = None \<or>
         drops (case g of Inl r \<Rightarrow> PDropRateRecv (get_ping (ping_at r) w) | Inr r \<Rightarrow> GDropRateRecv (get_gossip (gossip_at r) w)) (r_coin v))"

lemma left_touched: "store_inv s \<Longrightarrow> has_left s \<Longrightarrow> entries (touched now s) = entries s"
proof
  fix k
  assume i: "store_inv s" and l: "has_left s"
  show "entries (touched now s) k = entries s k"
  proof (cases "entries s k")
    case (Some a)
    have "touch now (selfID s) a = a"
      using l Some store_invD [OF i Some] by (auto simp: has_left_def touch_def)
    then show ?thesis using Some by simp
  qed simp
qed

lemma left_stops:
  assumes "store_inv (st w)" and "has_left (st w)" and "iteration (r_ord v) (entries (st w))"
  shows "let w' = fst (receives (g, v, input) w) in
      entries (st w') = entries (st w) \<and> selfID (st w') = selfID (st w) \<and>
      (snd (receives (g, v, input) w) = Stopped \<or>
       receives (g, v, input) w = (w, Continue []) \<and> passed_over (g, v, input) w)"
proof -
  have s: "\<exists>w2 l. take_snapshot ops (r_snap v) (r_ord v) (apply_config ops m w) = (l, selfID (st w), w2) \<and>
      lists_self_left l (selfID (st w)) \<and> entries (st w2) = entries (st w) \<and> selfID (st w2) = selfID (st w)"
    if ops: "loop_world ops" "get_store ops = st" "set_store ops = (\<lambda>s w. w\<lparr>st := s\<rparr>)" "on_config ops = Some onConfigFromWire" for ops m
  proof -
    let ?w1 = "apply_config ops m w"
    have e: "entries (st ?w1) = entries (st w)" "selfID (st ?w1) = selfID (st w)"
      using loop_world.config_keeps_entries [OF ops(1), of m w] loop_world.config_keeps_self [OF ops(1), of m w]
      by (simp_all add: ops(2))
    have i: "store_inv (st ?w1)" "has_left (st ?w1)" "iteration (r_ord v) (entries (st ?w1))"
      using assms e by (simp_all add: store_inv_def has_left_def)
    show ?thesis
      using loop_world.snapshot_store [OF ops(1), of "r_ord v" ?w1 "r_snap v"] e
        loop_world.left_listed [OF ops(1), of ?w1 "r_ord v" "r_snap v"] i left_touched [OF i(1,2)]
      by (simp add: ops has_left_def)
  qed
  show ?thesis
  proof (cases input)
    case ReadError
    then show ?thesis by (cases g) (simp_all add: receives_def ping_recv_def gossip_recv_def)
  next
    case i: (Datagram b src)
    show ?thesis
    proof (cases g)
      case (Inl r)
      show ?thesis
      proof (cases "decode_datagram b")
        case None
        then show ?thesis using Inl i by (simp add: receives_def ping_recv_def passed_over_def)
      next
        case (Some m)
        obtain w2 l where "take_snapshot (world_ops.truncate (ping_at r)) (r_snap v) (r_ord v)
            (apply_config (world_ops.truncate (ping_at r)) m w) = (l, selfID (st w), w2)"
          "lists_self_left l (selfID (st w))" "entries (st w2) = entries (st w)" "selfID (st w2) = selfID (st w)"
          using s [OF ping_world.loop_world_axioms, of r m] by auto
        then show ?thesis
          using Inl i Some by (simp add: receives_def ping_recv_def passed_over_def)
      qed
    next
      case (Inr r)
      show ?thesis
      proof (cases "decode_datagram b")
        case None
        then show ?thesis using Inr i by (simp add: receives_def gossip_recv_def passed_over_def)
      next
        case (Some m)
        obtain w2 l where "take_snapshot (world_ops.truncate (gossip_at r)) (r_snap v) (r_ord v)
            (apply_config (world_ops.truncate (gossip_at r)) m w) = (l, selfID (st w), w2)"
          "lists_self_left l (selfID (st w))" "entries (st w2) = entries (st w)" "selfID (st w2) = selfID (st w)"
          using s [OF gossip_world.loop_world_axioms, of r m] by auto
        then show ?thesis
          using Inr i Some by (simp add: receives_def gossip_recv_def passed_over_def)
      qed
    qed
  qed
qed

lemma left_run:
  assumes "store_inv (st w)" and "has_left (st w)" and "list_all (\<lambda>(g, v, i). iteration (r_ord v) (entries (st w))) xs"
    and "w' = foldl (\<lambda>u x. fst (receives x u)) w xs"
  shows "entries (st w') = entries (st w) \<and> selfID (st w') = selfID (st w)"
  using assms
proof (induction xs arbitrary: w)
  case (Cons x xs)
  obtain g v i where x: "x = (g, v, i)" by (cases x)
  let ?u = "fst (receives x w)"
  have u: "entries (st ?u) = entries (st w)" "selfID (st ?u) = selfID (st w)"
    using left_stops [OF Cons.prems(1,2), of v g i] Cons.prems(3) x by (simp_all add: Let_def)
  have "entries (st w') = entries (st ?u) \<and> selfID (st w') = selfID (st ?u)"
    by (rule Cons.IH) (use Cons.prems u in \<open>simp_all add: store_inv_def has_left_def\<close>)
  then show ?case using u by simp
qed simp

text \<open>
  C19. Leaving takes effect. A node that is asked to leave marks its own entry Left at the next incarnation
  and changes no other entry. However many datagrams its receive loops then take, of either kind and in
  any order, the list stays exactly as the leave made it; and every loop that takes a datagram then ends
  with it, unless it drops the datagram or cannot decode it. (Handlers and iterations are taken one
  after the other here: an iteration that has looked at the list just before the leave still merges its
  datagram after it, and an introducer that has left still merges the lists of nodes that join.)
\<close>

theorem leave_takes_effect:
  assumes "daemon_inv w" and "iteration ord (entries (st w))"
    and "entries (st w) (key_of (selfID (st w))) = Some e" and "ID e = selfID (st w)"
    and "w1 = fst (http_leave snap ord now w)"
    and "list_all (\<lambda>(g, v, i). iteration (r_ord v) (entries (st w))) (xs @ [x])"
    and "w2 = foldl (\<lambda>u y. fst (receives y u)) w1 xs"
  shows "entries (st w1) = (entries (st w))(key_of (selfID (st w)) \<mapsto>
       e\<lparr>Incarnation := Incarnation e + 1, EState := StateLeft, LastUpdate := now\<rparr>) \<and>
     entries (st w2) = entries (st w1) \<and> entries (st (fst (receives x w2))) = entries (st w1) \<and>
     (snd (receives x w2) = Stopped \<or> receives x w2 = (w2, Continue []) \<and> passed_over x w2)"
proof -
  have e: "entries (st w1) = (entries (st w))(key_of (selfID (st w)) \<mapsto>
      e\<lparr>Incarnation := Incarnation e + 1, EState := StateLeft, LastUpdate := now\<rparr>)"
    using leave_entries [OF _ assms(2-4)] assms(1,5) by (simp add: daemon_inv_def)
  have w1: "store_inv (st w1)" "selfID (st w1) = selfID (st w)"
    using http_leave_ok [OF assms(1), of snap ord now] assms(5)
    by (simp_all add: world_ok_def daemon_inv_def grows_def)
  have "dom (entries (st w1)) = dom (entries (st w))" using e assms(3) by auto
  then have i: "list_all (\<lambda>(g, v, i). iteration (r_ord v) (entries (st w1))) (xs @ [x])"
    using assms(6) by (simp add: iteration_def)
  have l: "has_left (st w1)" using e w1(2) assms(4) by (simp add: has_left_def)
  have w2: "entries (st w2) = entries (st w1)" "selfID (st w2) = selfID (st w1)"
    using left_run [OF w1(1) l _ assms(7)] i by simp_all
  obtain g v j where x: "x = (g, v, j)" by (cases x)
  have "store_inv (st w2)" "has_left (st w2)" "iteration (r_ord v) (entries (st w2))"
    using w1 l w2 i x by (simp_all add: store_inv_def has_left_def)
  from left_stops [OF this, of g j] w2 e x show ?thesis by (simp add: Let_def)
qed

theorem leave_takes_effect_witness:
  "let w = sample_world 1 (Defaults ''h''); w1 = fst (http_leave (at_wall 6) [key_of (node 1 7)] (at_wall 7) w)
   in entries (st w1) = [key_of (node 1 7) \<mapsto> sample 1 101 StateLeft 7]"
proof -
  let ?w = "sample_world 1 (Defaults ''h'')"
  have e: "entries (st ?w) = [key_of (node 1 7) \<mapsto> sample 1 100 StateAlive 5]" "selfID (st ?w) = node 1 7"
    by (simp_all add: NewStore_def sample_def)
  have i: "iteration [key_of (node 1 7)] (entries (st ?w))" by simp
  have s: "entries (st ?w) (key_of (selfID (st ?w))) = Some (sample 1 100 StateAlive 5)"
    "ID (sample 1 100 StateAlive 5) = selfID (st ?w)"
    using e by simp_all
  have d: "daemon_inv ?w" by simp
  let ?v = "\<lparr>r_coin = 0, r_snap = at_wall 6, r_ord = [key_of (node 1 7)], r_clk = (\<lambda>_. at_wall 6), r_snap2 = at_wall 6, r_ord2 = []\<rparr>"
  let ?x = "(Inl 1, ?v, ReadError) :: (nat + nat) \<times> recv_env \<times> string read"
  have j: "list_all (\<lambda>(g, v, i). iteration (r_ord v) (entries (st ?w))) ([] @ [?x])" using i by simp
  have "entries (st (fst (http_leave (at_wall 6) [key_of (node 1 7)] (at_wall 7) ?w))) = (entries (st ?w))(key_of (selfID (st ?w)) \<mapsto>
      (sample 1 100 StateAlive 5)\<lparr>Incarnation := Incarnation (sample 1 100 StateAlive 5) + 1, EState := StateLeft, LastUpdate := at_wall 7\<rparr>)"
    using leave_takes_effect [OF d i s refl j refl, of "at_wall 6" "at_wall 7"] by (rule conjunct1)
  also have "\<dots> = [key_of (node 1 7) \<mapsto> sample 1 101 StateLeft 7]"
    unfolding e by (simp add: sample_def)
  finally show ?thesis unfolding Let_def .
qed

end
