(* ===== verification/TalkProps.thy ===== *)
theory TalkProps
  imports LoopProps StoreProps
begin

text \<open>
  The properties of the conversation between the loops (\<open>src/pkg/protocol/pingack/loop.go\<close> and
  \<open>src/pkg/protocol/gossip/loop.go\<close>): how a ping is answered, how its ack settles it, and what a tick of
  either loop sends to whom.
\<close>

section \<open>Sample processes\<close>

text \<open>The introducer of the samples, serving with a ping loop at address 2, and its peer.\<close>

definition sample_cfg :: Config where
  "sample_cfg = (Defaults ''h'')\<lparr>cIsIntroducer := True\<rparr>"

definition serving :: World where
  "serving = startProtocol sample_cfg (sample_world 1 sample_cfg)"

lemma serving_simps [simp]:
  "st serving = NewStore (at_wall 5) (node 1 7) sample_cfg"
  "pings serving 2 = Some \<lparr>PingEvery = ms 200, PTSuspect = 0, PingFanout = 1, PDropRateRecv = Fin 0, PInflight = 1,
     PStop = False, PcfgDTO = ToDTO (Defaults ''h'')\<rparr>"
  "inflight serving = 0" "tables serving 1 = NewInflight"
  using sample_loop [of "''h''" sample_cfg]
  by (simp_all add: serving_def sample_cfg_def sample_world_def startProtocol_def Let_def Defaults_def stopGossip_def)

lemma serving_inv [simp]: "daemon_inv serving"
  using start_ok [of "sample_world 1 sample_cfg" sample_cfg] by (simp add: serving_def world_ok_def sample_cfg_def)

lemma not_left_new [simp]: "\<not> has_left (NewStore (at_wall 5) (node 1 7) c)"
  by (simp add: has_left_def)

lemma no_drops [simp]: "\<not> drops (Fin 0) coin"
  by (simp add: drops_def)

lemma decode_sample:
  "\<exists>b. EncodeMessage \<lparr>MType = t, MNonce = n, MList = [sample 2 100 StateAlive 6], MCfg = None\<rparr> = Some b \<and>
     decode_datagram (Some b) = Some \<lparr>MType = t, MNonce = n, MList = [sample 2 100 StateAlive 6], MCfg = None\<rparr>"
  using message_decodes [of "\<lparr>MType = t, MNonce = n, MList = [sample 2 100 StateAlive 6], MCfg = None\<rparr>"] sample_timely [of 6 2 100 StateAlive]
  by (auto simp: decode_datagram_def split: option.splits)

definition sample_recv :: recv_env where
  "sample_recv = \<lparr>r_coin = 0, r_snap = at_wall 6, r_ord = [key_of (node 1 7)], r_clk = (\<lambda>_. at_wall 7),
     r_snap2 = at_wall 8, r_ord2 = two_keys\<rparr>"

text \<open>The serving sample process when it knows a second member, and the environment of a tick.\<close>

definition meshed :: World where
  "meshed = serving\<lparr>st := two_nodes sample_cfg StateAlive 6\<rparr>"

definition sample_send :: send_env where
  "sample_send = \<lparr>s_snap = at_wall 8, s_ord = two_keys, s_perm = [0], s_resolves = (\<lambda>_. True), s_nonces = of_nat,
     s_clk = (\<lambda>_. at_wall 8)\<rparr>"

lemma meshed_simps [simp]:
  "st meshed = two_nodes sample_cfg StateAlive 6" "pings meshed = pings serving" "daemon_inv meshed"
  using serving_inv by (simp_all add: meshed_def daemon_inv_def)

lemma sample_send_simps [simp]:
  "s_snap sample_send = at_wall 8" "s_ord sample_send = two_keys" "s_perm sample_send = [0]"
  "s_resolves sample_send a" "s_nonces sample_send i = of_nat i"
  by (simp_all add: sample_send_def)

lemma meshed_list: "[sample 1 100 StateAlive 8, sample 2 100 StateAlive 6] = fst (Snapshot (at_wall 8) two_keys (two_nodes c StateAlive 6))"
proof -
  have "iteration two_keys (entries (two_nodes c StateAlive 6))" by simp
  from Snapshot_eq [OF this] show ?thesis
    by (simp add: two_nodes_entries two_keys_def touch_def sample_def)
qed

lemma meshed_others: "{key_of (node 2 7)} = {k. \<exists>e. entries (two_nodes c x t) k = Some e \<and> ID e \<noteq> node 1 7}"
  by (auto simp: two_nodes_entries split: if_splits)

lemma sample_perm: "permutes_indices [0] (card {x})"
  by (auto simp: permutes_indices_def)

lemma meshed_timely: "timely [sample 1 100 StateAlive 8, sample 2 100 StateAlive 6]" 
  "all_ipv4 [sample 1 100 StateAlive 8, sample 2 100 StateAlive 6]"
  by (simp_all add: timely_def all_ipv4_def first_instant_def last_instant_def)

definition gossiping :: World where
  "gossiping = meshed\<lparr>gossips := (gossips meshed)(1 \<mapsto> GossipSetConfigDTO (ToDTO (Defaults ''h'')) (NewGossip (ms 300) 3))\<rparr>"

lemma gossiping_inv: "daemon_inv gossiping"
proof -
  have "next_ref meshed = 3" 
    by (simp add: meshed_def serving_def sample_cfg_def sample_world_def startProtocol_def Let_def Defaults_def stopGossip_def)
  then show ?thesis
    using meshed_simps(3) by (simp add: gossiping_def daemon_inv_def heap_inv_def GossipSetConfigDTO_def NewGossip_def)
qed

section \<open>Answering a ping\<close>

text \<open>What both receive loops do first: the configuration, the snapshot, and, for a member, no exit.\<close>

lemma applied_config:
  "apply_config (world_ops.truncate (ping_at r)) m w = (case MCfg m of None \<Rightarrow> w | Some d \<Rightarrow> onConfigFromWire d w)"
  "apply_config (world_ops.truncate (gossip_at r)) m w = (case MCfg m of None \<Rightarrow> w | Some d \<Rightarrow> onConfigFromWire d w)"
  by (simp_all add: apply_config_def split: option.split)

definition after_config :: "Message \<Rightarrow> World \<Rightarrow> World" where
  "after_config m w = (case MCfg m of None \<Rightarrow> w | Some d \<Rightarrow> onConfigFromWire d w)"

lemma after_config_frames [simp]:
  "entries (st (after_config m w)) = entries (st w)" "selfID (st (after_config m w)) = selfID (st w)"
  by (simp_all add: after_config_def split: option.split)

lemma after_config_inv: "daemon_inv w \<Longrightarrow> daemon_inv (after_config m w)"
  by (simp add: after_config_def daemon_onConfig split: option.split)

lemma not_left_snapshot:
  assumes "daemon_inv w" and "\<not> has_left (st w)" and "iteration ord (entries (st w))"
  shows "take_snapshot (world_ops.truncate (ping_at r)) now ord (after_config m w) =
      (fst (Snapshot now ord (st (after_config m w))), selfID (st w), (after_config m w)\<lparr>st := touched now (st (after_config m w))\<rparr>)"
    and "take_snapshot (world_ops.truncate (gossip_at r)) now ord (after_config m w) =
      (fst (Snapshot now ord (st (after_config m w))), selfID (st w), (after_config m w)\<lparr>st := touched now (st (after_config m w))\<rparr>)"
    and "\<not> lists_self_left (fst (Snapshot now ord (st (after_config m w)))) (selfID (st w))"
proof -
  have i: "store_inv (st (after_config m w))" using after_config_inv [OF assms(1)] by (simp add: daemon_inv_def)
  show "take_snapshot (world_ops.truncate (ping_at r)) now ord (after_config m w) =
      (fst (Snapshot now ord (st (after_config m w))), selfID (st w), (after_config m w)\<lparr>st := touched now (st (after_config m w))\<rparr>)"
    using ping_world.snapshot_store [of ord r "after_config m w" now] assms(3) by simp
  show "take_snapshot (world_ops.truncate (gossip_at r)) now ord (after_config m w) =
      (fst (Snapshot now ord (st (after_config m w))), selfID (st w), (after_config m w)\<lparr>st := touched now (st (after_config m w))\<rparr>)"
    using gossip_world.snapshot_store [of ord r "after_config m w" now] assms(3) by simp
  show "\<not> lists_self_left (fst (Snapshot now ord (st (after_config m w)))) (selfID (st w))"
    using ping_world.left_listed [of r "after_config m w" ord now] assms(2,3) i by (simp add: has_left_def)
qed

text \<open>
  C14. Every ping is answered. A node that has not left answers a ping that it does not drop with one ack
  to the sender: the ack echoes the nonce, lists every member that the node or the ping knows, and
  carries the configuration the loop has after adopting that of the ping, and the sender can decode it.
\<close>

theorem ping_answered:
  assumes "daemon_inv w" and "decode_datagram b = Some m" and "MType m = MsgPing"
    and "\<not> drops (PDropRateRecv (get_ping (ping_at r) w)) (r_coin v)" and "\<not> has_left (st w)"
    and "w1 = after_config m w" and "s1 = MergeFullList (r_clk v) (touched (r_snap v) (st w1)) (MList m)"
    and "iteration (r_ord v) (entries (st w))" and "iteration (r_ord2 v) (entries s1)"
    and "l = fst (Snapshot (r_snap2 v) (r_ord2 v) s1)" and "timely l" and "all_ipv4 l"
    and "d = PcfgDTO (get_ping (ping_at r) w1)" and "sane_dto d"
  shows "\<exists>j. ping_recv (ping_at r) v (Datagram b src) w = (w1\<lparr>st := touched (r_snap2 v) s1\<rparr>, Continue [(j, src)]) \<and>
     DecodeMessage j = Some \<lparr>MType = MsgAck, MNonce = MNonce m, MList = map on_wire l, MCfg = Some d\<rparr> \<and>
     (\<lambda>e. key_of (ID e)) ` set l = dom (entries (st w)) \<union> (\<lambda>e. key_of (ID e)) ` set (MList m)"
proof -
  let ?ack = "\<lparr>MType = MsgAck, MNonce = MNonce m, MList = l, MCfg = Some d\<rparr>"
  obtain j where j: "EncodeMessage ?ack = Some j"
    "DecodeMessage j = Some \<lparr>MType = MsgAck, MNonce = MNonce m, MList = map on_wire l, MCfg = Some d\<rparr>"
    using message_decodes [of ?ack] assms(11,12,14) by (auto split: option.splits)
  have a: "apply_config (world_ops.truncate (ping_at r)) m w = w1"
    by (simp add: applied_config assms(6) after_config_def)
  have w1: "store_inv (st w1)" using after_config_inv [OF assms(1)] assms(6) by (simp add: daemon_inv_def)
  note s = not_left_snapshot [OF assms(1,5,8), where now = "r_snap v" and m = m, folded assms(6)]
  have s2: "take_snapshot (world_ops.truncate (ping_at r)) (r_snap2 v) (r_ord2 v) (w1\<lparr>st := s1\<rparr>) =
      (l, selfID (st w1), w1\<lparr>st := touched (r_snap2 v) s1\<rparr>)"
    using ping_world.snapshot_store [of "r_ord2 v" r "w1\<lparr>st := s1\<rparr>" "r_snap2 v"] assms(9,10)
    by (simp add: assms(7))
  have d: "PcfgDTO (get_ping (ping_at r) (w1\<lparr>st := x\<rparr>)) = d" for x
    by (simp add: assms(13) ping_at_def)
  have "ping_recv (ping_at r) v (Datagram b src) w = (w1\<lparr>st := touched (r_snap2 v) s1\<rparr>, Continue [(j, src)])"
    using assms(2-4) s s2 d j(1) a
    by (simp add: ping_recv_def Let_def merge_list_def assms(7) [symmetric])
  moreover have "dom (entries s1) = dom (entries (st w)) \<union> (\<lambda>e. key_of (ID e)) ` set (MList m)"
    by (simp add: assms(6,7) merge_dom)
  moreover have "store_inv s1" using w1 by (simp add: assms(7) store_inv_intros)
  ultimately show ?thesis
    using j(2) snapshot_keys_dom [of s1 "r_ord2 v" "r_snap2 v"] assms(9,10) by simp
qed

theorem ping_answered_witness:
  "\<exists>b j w'. EncodeMessage \<lparr>MType = MsgPing, MNonce = 9, MList = [sample 2 100 StateAlive 6], MCfg = None\<rparr> = Some b \<and>
     ping_recv (ping_at 2) sample_recv (Datagram (Some b) ''a'') serving = (w', Continue [(j, ''a'')]) \<and>
     DecodeMessage j = Some \<lparr>MType = MsgAck, MNonce = 9,
       MList = [sample 1 100 StateAlive 8, sample 2 100 StateAlive 6], MCfg = Some (ToDTO (Defaults ''h''))\<rparr>"
proof -
  let ?m = "\<lparr>MType = MsgPing, MNonce = 9, MList = [sample 2 100 StateAlive 6], MCfg = None\<rparr>"
  obtain b where b: "EncodeMessage ?m = Some b" "decode_datagram (Some b) = Some ?m" using decode_sample by blast
  let ?s1 = "MergeFullList (r_clk sample_recv) (touched (r_snap sample_recv) (st (after_config ?m serving))) (MList ?m)"
  have w1: "after_config ?m serving = serving" by (simp add: after_config_def)
  have si: "entries ?s1 = [key_of (node 1 7) \<mapsto> sample 1 100 StateAlive 6, key_of (node 2 7) \<mapsto> sample 2 100 StateAlive 6]"
    unfolding w1 by (simp add: updateMemberEntry_def put_entry_def sample_recv_def fun_eq_iff)
  have i: "iteration two_keys (entries ?s1)" unfolding si by (auto simp: iteration_def two_keys_def)
  have j: "iteration (r_ord sample_recv) (entries (st serving))" by (simp add: sample_recv_def)
  have n: "selfID ?s1 = node 1 7" by simp
  have l: "fst (Snapshot (r_snap2 sample_recv) two_keys ?s1) = [sample 1 100 StateAlive 8, sample 2 100 StateAlive 6]"
    unfolding Snapshot_eq [OF i] si n by (simp add: two_keys_def sample_recv_def)
  have t: "timely [sample 1 100 StateAlive 8, sample 2 100 StateAlive 6]" "all_ipv4 [sample 1 100 StateAlive 8, sample 2 100 StateAlive 6]"
    by (simp_all add: timely_def all_ipv4_def first_instant_def last_instant_def)
  have d: "PcfgDTO (get_ping (ping_at 2) serving) = ToDTO (Defaults ''h'')" "\<not> drops (PDropRateRecv (get_ping (ping_at 2) serving)) (r_coin sample_recv)"
    by (simp_all add: ping_at_def)
  have o: "r_ord2 sample_recv = two_keys" by (simp add: sample_recv_def)
  have i': "iteration (r_ord2 sample_recv) (entries ?s1)" using i by (simp add: o)
  have m: "MType ?m = MsgPing" "MNonce ?m = 9" and h: "\<not> has_left (st serving)" by simp_all
  have c: "PcfgDTO (get_ping (ping_at 2) (after_config ?m serving)) = ToDTO (Defaults ''h'')" using d(1) w1 by simp
  note l' = l [folded o]
  note a = ping_answered [OF serving_inv b(2) m(1) d(2) h refl refl j i' refl, unfolded l' c m(2), OF t refl sane_Defaults, of "''a''"]
  then show ?thesis using b(1) by (elim exE conjE) (intro exI [of _ b] exI conjI, assumption+, simp)
qed

section \<open>Settling a ping\<close>

lemma stop_heaps [simp]:
  "tables (stopPingAck w) = tables w" "next_ref (stopPingAck w) = next_ref w"
  "tables (stopGossip w) = tables w" "next_ref (stopGossip w) = next_ref w"
  by (simp_all add: stopPingAck_def stopGossip_def split: option.split)

lemma own_table:
  assumes "i < next_ref w" and "i \<noteq> inflight w"
  shows "tables (applyRuntime p c w) i = tables w i"
proof -
  have s: "tables (startProtocol c w) i = tables w i" using assms(1) by (simp add: startProtocol_def Let_def)
  have r: "tables (reconfigurePing c w) = tables w" "tables (reconfigureGossip c w) = tables w"
    "inflight (reconfigurePing c w) = inflight w" "inflight (reconfigureGossip c w) = inflight w"
    by (simp_all add: reconfigurePing_def reconfigureGossip_def split: option.split)
  have m: "tables (reconfigureManager c u) i = tables u i" if "inflight u = inflight w" for u
    using that assms(2) by (simp add: reconfigureManager_def Let_def)
  have f: "tables (refreshDTO d u) = tables u" for d u
    by (simp add: refreshDTO_def Let_def split: option.split)
  show ?thesis by (simp add: applyRuntime_def Let_def f m s r)
qed

lemma own_table_config:
  assumes "daemon_inv w" and "pings w r = Some l"
  shows "tables (after_config m w) (PInflight l) = tables w (PInflight l) \<and>
     (\<exists>l'. pings (after_config m w) r = Some l' \<and> PInflight l' = PInflight l)"
proof -
  have h: "PInflight l < next_ref w" "PInflight l \<noteq> inflight w"
    using assms by (auto simp: daemon_inv_def heap_inv_def)
  have "tables (onConfigFromWire d w) (PInflight l) = tables w (PInflight l)" for d
    using own_table [of "PInflight l" "fst (commit_remote d w)"] h
    by (simp add: onConfigFromWire_def Let_def split_beta) (simp add: commit_remote_def split_beta)
  moreover have "\<exists>l'. pings (onConfigFromWire d w) r = Some l' \<and> PInflight l' = PInflight l" for d
    using evolvesD(1) [OF evolves_callback [OF assms(1)] assms(2)] by (auto simp: ping_later_def)
  ultimately show ?thesis using assms(2) by (simp add: after_config_def split: option.split)
qed

text \<open>
  C15. An ack settles its ping. A node that has not left and receives an ack forgets the ping of that nonce,
  keeps all other pings in flight, knows every member that the ack lists, and sends nothing, also when
  the configuration in the ack has replaced the loop by one of the other protocol in between.
\<close>

theorem ack_settles_ping:
  assumes "daemon_inv w" and "pings w r = Some l" and "decode_datagram b = Some m" and "MType m = MsgAck"
    and "\<not> drops (PDropRateRecv l) (r_coin v)" and "\<not> has_left (st w)" and "iteration (r_ord v) (entries (st w))"
    and "ping_recv (ping_at r) v (Datagram b (src :: string)) w = (w', out)"
  shows "out = Continue [] \<and> tables w' (PInflight l) = (tables w (PInflight l))(MNonce m := None) \<and>
     dom (entries (st w')) = dom (entries (st w)) \<union> (\<lambda>e. key_of (ID e)) ` set (MList m)"
proof -
  let ?w1 = "after_config m w"
  let ?w2 = "?w1\<lparr>st := touched (r_snap v) (st ?w1)\<rparr>"
  obtain l' where l': "pings ?w1 r = Some l'" "PInflight l' = PInflight l"
    and t: "tables ?w1 (PInflight l) = tables w (PInflight l)"
    using own_table_config [OF assms(1,2), of m] by blast
  have a: "apply_config (world_ops.truncate (ping_at r)) m w = ?w1"
    by (simp add: applied_config after_config_def)
  have g: "PInflight (get_ping (ping_at r) ?w2) = PInflight l" "get_table (ping_at r) (PInflight l) ?w2 = tables w (PInflight l)"
    using l' t by (simp_all add: ping_at_def)
  have d: "\<not> drops (PDropRateRecv (get_ping (ping_at r) w)) (r_coin v)" using assms(2,5) by (simp add: ping_at_def)
  note s = not_left_snapshot [OF assms(1,6,7), where now = "r_snap v" and m = m]
  have "ping_recv (ping_at r) v (Datagram b src) w =
      (merge_list (world_ops.truncate (ping_at r)) (r_clk v) (MList m)
         (set_table (ping_at r) (PInflight l) (fst (Done (MNonce m) (tables w (PInflight l)))) ?w2), Continue [])"
    using assms(3,4) d s g a by (simp add: ping_recv_def Let_def)
  then have w': "w' = merge_list (world_ops.truncate (ping_at r)) (r_clk v) (MList m)
         (set_table (ping_at r) (PInflight l) (fst (Done (MNonce m) (tables w (PInflight l)))) ?w2)" "out = Continue []"
    using assms(8) by simp_all
  have t: "set_table (ping_at r) i x u = u\<lparr>tables := (tables u)(i := x)\<rparr>" for i x u
    by (simp add: ping_at_def)
  show ?thesis unfolding w' t by (simp add: merge_list_def Done_def merge_dom)
qed

theorem ack_settles_ping_witness:
  "\<exists>b. EncodeMessage \<lparr>MType = MsgAck, MNonce = 9, MList = [sample 2 100 StateAlive 6], MCfg = None\<rparr> = Some b \<and>
     tables (fst (ping_recv (ping_at 2) sample_recv (Datagram (Some b) ''a'')
       (serving\<lparr>tables := (tables serving)(1 := [9 \<mapsto> \<lparr>dl = at_wall 9, addr = ''10.0.0.2:5000''\<rparr>])\<rparr>))) 1 = NewInflight"
proof -
  let ?m = "\<lparr>MType = MsgAck, MNonce = 9, MList = [sample 2 100 StateAlive 6], MCfg = None\<rparr>"
  let ?w = "serving\<lparr>tables := (tables serving)(1 := [9 \<mapsto> \<lparr>dl = at_wall 9, addr = ''10.0.0.2:5000''\<rparr>])\<rparr>"
  obtain b where b: "EncodeMessage ?m = Some b" "decode_datagram (Some b) = Some ?m" using decode_sample by blast
  have i: "daemon_inv ?w" using serving_inv heap_table [of serving 1] by (simp add: daemon_inv_def)
  have p: "pings ?w 2 = Some (the (pings serving 2))" by simp
  have d: "\<not> drops (PDropRateRecv (the (pings serving 2))) (r_coin sample_recv)" by simp
  have l: "\<not> has_left (st ?w)" by simp
  have o: "iteration (r_ord sample_recv) (entries (st ?w))" by (simp add: sample_recv_def)
  obtain w' out where r: "ping_recv (ping_at 2) sample_recv (Datagram (Some b) ''a'') ?w = (w', out)" by fastforce
  have "MType ?m = MsgAck" by simp
  from ack_settles_ping [OF i p b(2) this d l o r] have "tables w' 1 = NewInflight" by (simp add: NewInflight_def)
  then show ?thesis using b(1) r by (intro exI [of _ b]) simp
qed

section \<open>What a tick sends\<close>

text \<open>The peers of a snapshot: the endpoints of the other members, each once.\<close>

lemma peers_facts:
  assumes "store_inv s" and "iteration ord (entries s)" and "ps = ResolvePeersFromMemberList (fst (Snapshot now ord s)) (selfID s)"
  shows "distinct ps" and "set ps = {k. \<exists>e. entries s k = Some e \<and> ID e \<noteq> selfID s}"
    and "length ps = card {k. \<exists>e. entries s k = Some e \<and> ID e \<noteq> selfID s}"
  using peers_of_snapshot [OF assms(1,2), of now] assms(3) by (auto simp: SelfID_def distinct_card [symmetric])

text \<open>A gossip tick in terms of the message it encodes and the peers it chooses.\<close>

definition gossip_of :: "MemberEntry list \<Rightarrow> ConfigDTO \<Rightarrow> Message" where
  "gossip_of l d = \<lparr>MType = MsgGossip, MNonce = 0, MList = l, MCfg = Some d\<rparr>"

lemma gossip_encodes:
  assumes "timely l" and "all_ipv4 l" and "sane_dto d"
  shows "\<exists>b. EncodeMessage (gossip_of l d) = Some b \<and> DecodeMessage b = Some (gossip_of (map on_wire l) d)"
  using message_decodes [of "gossip_of l d"] assms by (auto simp: gossip_of_def split: option.splits)

lemma gossip_tick_result:
  assumes "gossips w r = Some g" and "iteration (s_ord v) (entries (st w))"
    and "l = fst (Snapshot (s_snap v) (s_ord v) (st w))" and "EncodeMessage (gossip_of l (GcfgDTO g)) = Some b"
    and "ps = ResolvePeersFromMemberList l (selfID (st w))"
    and "gossip_tick (gossip_at r) v prev w = (w', sent, p)"
  shows "w' = w\<lparr>st := touched (s_snap v) (st w)\<rparr>"
    and "sent = map (\<lambda>a. (b, a)) (if ps = [] then [] else filter (s_resolves v) (chosen_peers (GossipFanout g) (s_perm v) ps))"
proof -
  have s: "take_snapshot (world_ops.truncate (gossip_at r)) (s_snap v) (s_ord v) w =
      (l, selfID (st w), w\<lparr>st := touched (s_snap v) (st w)\<rparr>)"
    using gossip_world.snapshot_store [of "s_ord v" r w "s_snap v"] assms(2,3) by simp
  have g: "get_gossip (gossip_at r) w = g" "get_gossip (gossip_at r) (w\<lparr>st := x\<rparr>) = g" for x
    using assms(1) by (simp_all add: gossip_at_def)
  show "w' = w\<lparr>st := touched (s_snap v) (st w)\<rparr>"
    and "sent = map (\<lambda>a. (b, a)) (if ps = [] then [] else filter (s_resolves v) (chosen_peers (GossipFanout g) (s_perm v) ps))"
    using assms(6) s g assms(4) by (auto simp: gossip_tick_def Let_def gossip_of_def assms(5) [symmetric])
qed

text \<open>
  C17. A gossip tick. The tick sends the same message, with the complete member list and the configuration,
  to pairwise different members other than the node itself, to at most \<open>fanout\<close> of them, and to exactly
  that many, or to all if there are fewer, when all their addresses resolve.
\<close>

theorem gossip_tick_sends:
  assumes "daemon_inv w" and "gossips w r = Some g" and "iteration (s_ord v) (entries (st w))"
    and "l = fst (Snapshot (s_snap v) (s_ord v) (st w))" and "timely l" and "all_ipv4 l" and "sane_dto (GcfgDTO g)"
    and "others = {k. \<exists>e. entries (st w) k = Some e \<and> ID e \<noteq> selfID (st w)}"
    and "permutes_indices (s_perm v) (card others)"
    and "gossip_tick (gossip_at r) v prev w = (w', sent, p)"
  shows "distinct (map snd sent) \<and> snd ` set sent \<subseteq> others \<and> length sent \<le> nat (GossipFanout g) \<and>
     ((\<forall>a \<in> others. s_resolves v a) \<longrightarrow> length sent = min (nat (GossipFanout g)) (card others)) \<and>
     (\<forall>(b, a) \<in> set sent. DecodeMessage b =
        Some \<lparr>MType = MsgGossip, MNonce = 0, MList = map on_wire l, MCfg = Some (GcfgDTO g)\<rparr>)"
proof -
  obtain b where b: "EncodeMessage (gossip_of l (GcfgDTO g)) = Some b"
    "DecodeMessage b = Some (gossip_of (map on_wire l) (GcfgDTO g))"
    using gossip_encodes [OF assms(5-7)] by blast
  define ps where "ps = ResolvePeersFromMemberList l (selfID (st w))"
  have i: "store_inv (st w)" using assms(1) by (simp add: daemon_inv_def)
  note ps = peers_facts [OF i assms(3) ps_def [unfolded assms(4)], folded assms(8)]
  have perm: "permutes_indices (s_perm v) (length ps)" using assms(9) ps(3) by simp
  let ?t = "chosen_peers (GossipFanout g) (s_perm v) ps"
  note t = chosen_peers_distinct [OF perm ps(1), of "GossipFanout g"] chosen_peers_length [OF perm, of "GossipFanout g"]
  have "ps = [] \<Longrightarrow> ?t = []" using t(3) by simp
  then have sent: "sent = map (\<lambda>a. (b, a)) (filter (s_resolves v) ?t)"
    using gossip_tick_result(2) [OF assms(2-4) b(1) ps_def assms(10)] by auto
  have "length sent \<le> nat (GossipFanout g)"
    using t(3) length_filter_le [of "s_resolves v" ?t] by (simp add: sent)
  moreover have "length sent = min (nat (GossipFanout g)) (card others)" if "\<forall>a \<in> others. s_resolves v a"
  proof -
    have "filter (s_resolves v) ?t = ?t" using that t(2) ps(2) by (intro filter_True) auto
    then show ?thesis using t(3) ps(3) by (simp add: sent)
  qed
  moreover have "distinct (map snd sent)" "snd ` set sent \<subseteq> others"
    using t(1,2) ps(2) by (auto simp: sent comp_def)
  ultimately show ?thesis using b(2) by (auto simp: sent gossip_of_def)
qed

theorem gossip_tick_sends_witness:
  "\<exists>b w' q. gossip_tick (gossip_at 1) sample_send 0 gossiping = (w', [(b, key_of (node 2 7))], q) \<and>
     DecodeMessage b = Some \<lparr>MType = MsgGossip, MNonce = 0,
        MList = [sample 1 100 StateAlive 8, sample 2 100 StateAlive 6], MCfg = Some (ToDTO (Defaults ''h''))\<rparr>"
proof -
  obtain w' sent q where t: "gossip_tick (gossip_at 1) sample_send 0 gossiping = (w', sent, q)" by (metis prod.exhaust)
  let ?g = "GossipSetConfigDTO (ToDTO (Defaults ''h'')) (NewGossip (ms 300) 3)"
  have m: "st gossiping = st meshed" by (simp add: gossiping_def)
  have g: "gossips gossiping 1 = Some ?g" by (simp add: gossiping_def)
  have f: "GossipFanout ?g = 3" "GcfgDTO ?g = ToDTO (Defaults ''h'')" by (simp_all add: GossipSetConfigDTO_def NewGossip_def)
  have i: "iteration (s_ord sample_send) (entries (st gossiping))" by (simp add: m)
  have l: "[sample 1 100 StateAlive 8, sample 2 100 StateAlive 6] = fst (Snapshot (s_snap sample_send) (s_ord sample_send) (st gossiping))"
    by (simp add: meshed_list m)
  have o: "{key_of (node 2 7)} = {k. \<exists>e. entries (st gossiping) k = Some e \<and> ID e \<noteq> selfID (st gossiping)}"
    by (simp add: meshed_others [symmetric] m)
  have d: "sane_dto (GcfgDTO ?g)" by (simp add: f)
  have perm: "permutes_indices (s_perm sample_send) (card {key_of (node 2 7)})" using sample_perm by simp
  note a = gossip_tick_sends [OF gossiping_inv g i l meshed_timely d o perm t, unfolded f]
  then have "length sent = 1" by simp
  then obtain b x where s: "sent = [(b, x)]" by (metis One_nat_def length_0_conv length_Suc_conv surj_pair)
  with a show ?thesis using t by auto
qed

section \<open>One round of gossip between two processes\<close>

lemma gossip_received:
  assumes "daemon_inv w" and "decode_datagram b = Some m" and "MType m = MsgGossip"
    and "\<not> drops (GDropRateRecv (get_gossip (gossip_at r) w)) (r_coin v)" and "\<not> has_left (st w)"
    and "iteration (r_ord v) (entries (st w))"
  shows "gossip_recv (gossip_at r) v (Datagram b src) w =
     ((after_config m w)\<lparr>st := MergeFullList (r_clk v) (touched (r_snap v) (st (after_config m w))) (MList m)\<rparr>, Continue [])"
proof -
  have a: "apply_config (world_ops.truncate (gossip_at r)) m w = after_config m w"
    by (simp add: applied_config after_config_def)
  note s = not_left_snapshot [OF assms(1,5,6), where now = "r_snap v" and m = m]
  show ?thesis using assms(2-4) s a by (simp add: gossip_recv_def Let_def merge_list_def)
qed

text \<open>
  C18. One round of gossip. Whatever a gossip tick of one process sends, and any other process receives,
  arrives: afterwards the receiver knows every member that the sender knows, with a heartbeat and an
  incarnation at least as recent, also when the configuration that comes along replaces the
  receiver's loop. This is for two nodes that agree on the boots of the members and for a sender
  that does not accuse the receiver.
\<close>

theorem gossip_round:
  assumes "gossips wa ra = Some g" and "iteration (s_ord va) (entries (st wa))"
    and "l = fst (Snapshot (s_snap va) (s_ord va) (st wa))" and "timely l" and "all_ipv4 l" and "sane_dto (GcfgDTO g)"
    and "gossip_tick (gossip_at ra) va prev wa = (wa', sent, p)" and "(b, a) \<in> set sent"
    and "calm {selfID (st wb)} B (entries (st wa))"
    and "\<forall>k d. entries (st wb) k = Some d \<longrightarrow> TimeStamp (ID d) = B k"
    and "daemon_inv wb" and "\<not> drops (GDropRateRecv (get_gossip (gossip_at rb) wb)) (r_coin vb)"
    and "\<not> has_left (st wb)" and "iteration (r_ord vb) (entries (st wb))"
    and "gossip_recv (gossip_at rb) vb (Datagram (Some b) src) wb = (wb', out)"
    and "entries (st wa') k = Some e"
  shows "\<exists>d. entries (st wb') k = Some d \<and> rank_of (cTSuspect (config (st wb'))) e \<le> rank_of (cTSuspect (config (st wb'))) d"
proof -
  let ?m = "gossip_of (sent_list (s_snap va) (s_ord va) (st wa)) (GcfgDTO g)"
  obtain b' where b': "EncodeMessage (gossip_of l (GcfgDTO g)) = Some b'" "DecodeMessage b' = Some ?m"
    using gossip_encodes [OF assms(4-6)] by (auto simp: assms(3) sent_list_def)
  note tick = gossip_tick_result [OF assms(1-3) b'(1) refl assms(7)]
  have "decode_datagram (Some b) = Some ?m"
    using assms(8) b'(2) by (auto simp: tick(2) decode_datagram_def split: if_splits)
  note r = gossip_received [OF assms(11) this _ assms(12-14), of src]
  let ?s = "touched (r_snap vb) (st (after_config ?m wb))"
  have wb': "wb' = (after_config ?m wb)\<lparr>st := MergeFullList (r_clk vb) ?s (MList ?m)\<rparr>"
    using r assms(15) by (simp add: gossip_of_def)
  define t where "t = cTSuspect (config (st wb'))"
  have p: "peer_store (selfID (st wb)) t B ?s"
    using assms(10) by (auto simp: peer_store_def t_def wb' split: option.splits)
  have es: "list_all (peer_entry (selfID (st wb)) B) (MList ?m)"
    using sent_calm [OF assms(2,9)] by (simp add: gossip_of_def)
  obtain f where f: "f \<in> set (MList ?m)" "key_of (ID f) = k" "f = on_wire e"
    using sent_rank(1) [OF assms(2,9), of "s_snap va" k e] assms(16) by (auto simp: tick(1) gossip_of_def)
  then have "f \<in> mrg.candidates ?s (MList ?m) k" by (simp add: mrg.candidates_def)
  from merge_rank_above [OF p es this, of "r_clk vb"]
  have "\<exists>d. entries (st wb') k = Some d \<and> rank_of t f \<le> rank_of t d" by (simp add: wb')
  then show ?thesis unfolding t_def [symmetric] using f(3) by simp
qed

text \<open>A second sample process, node 3, that has not heard of the others.\<close>

definition listening :: World where
  "listening = (sample_world 3 (Defaults ''h''))\<lparr>gossips := [1 \<mapsto> GossipSetConfigDTO (ToDTO (Defaults ''h'')) (NewGossip (ms 300) 3)],
     next_ref := 2\<rparr>"

lemma listening_simps [simp]:
  "st listening = NewStore (at_wall 5) (node 3 7) (Defaults ''h'')" "daemon_inv listening"
  using sample_world_inv [OF valid_Defaults, of 3 "''h''"]
  by (simp_all add: listening_def daemon_inv_def heap_inv_def sample_world_def GossipSetConfigDTO_def NewGossip_def)

theorem gossip_round_witness:
  "let v = sample_recv\<lparr>r_ord := [key_of (node 3 7)]\<rparr>;
       b = fst (hd (fst (snd (gossip_tick (gossip_at 1) sample_send 0 gossiping))))
   in \<exists>d. entries (st (fst (gossip_recv (gossip_at 1) v (Datagram (Some b) ''a'') listening))) (key_of (node 2 7)) = Some d"
proof -
  let ?v = "sample_recv\<lparr>r_ord := [key_of (node 3 7)]\<rparr>"
  let ?g = "GossipSetConfigDTO (ToDTO (Defaults ''h'')) (NewGossip (ms 300) 3)"
  let ?l = "[sample 1 100 StateAlive 8, sample 2 100 StateAlive 6]"
  obtain wa sent q where t: "gossip_tick (gossip_at 1) sample_send 0 gossiping = (wa, sent, q)" by (metis prod.exhaust)
  have st: "st gossiping = two_nodes sample_cfg StateAlive 6" by (simp add: gossiping_def)
  have g: "gossips gossiping 1 = Some ?g" by (simp add: gossiping_def)
  have f: "GcfgDTO ?g = ToDTO (Defaults ''h'')" "GossipFanout ?g = 3" by (simp_all add: GossipSetConfigDTO_def NewGossip_def)
  have i: "iteration (s_ord sample_send) (entries (st gossiping))" by (simp add: st)
  have l: "?l = fst (Snapshot (s_snap sample_send) (s_ord sample_send) (st gossiping))" by (simp add: meshed_list st)
  have d: "sane_dto (GcfgDTO ?g)" by (simp add: f)
  obtain c where c: "EncodeMessage (gossip_of ?l (GcfgDTO ?g)) = Some c" using gossip_encodes [OF meshed_timely d] by blast
  have ps: "ResolvePeersFromMemberList ?l (selfID (st gossiping)) = [key_of (node 2 7)]" by (simp add: st)
  note tick = gossip_tick_result [OF g i l c refl t]
  have s: "sent = [(c, key_of (node 2 7))]"
    using tick(2) ps by (simp add: f chosen_peers_def)
  have m: "(c, key_of (node 2 7)) \<in> set sent" by (simp add: s)
  have calm: "calm {selfID (st listening)} (\<lambda>_. 7) (entries (st gossiping))"
    by (auto simp: calm_def st two_nodes_entries split: if_splits)
  have boots: "\<forall>k d. entries (st listening) k = Some d \<longrightarrow> TimeStamp (ID d) = 7" by auto
  have dr: "\<not> drops (GDropRateRecv (get_gossip (gossip_at 1) listening)) (r_coin ?v)"
    by (simp add: gossip_at_def listening_def GossipSetConfigDTO_def NewGossip_def)
  have nl: "\<not> has_left (st listening)" by (simp add: has_left_def)
  have o: "iteration (r_ord ?v) (entries (st listening))" by simp
  obtain wb out where r: "gossip_recv (gossip_at 1) ?v (Datagram (Some c) ''a'') listening = (wb, out)" by fastforce
  have e: "entries (st wa) (key_of (node 2 7)) = Some (sample 2 100 StateAlive 6)"
    by (simp add: tick(1) st touch_def)
  from gossip_round [where B = "\<lambda>_. 7", OF g i l meshed_timely d t m calm boots listening_simps(2) dr nl o r e]
  show ?thesis unfolding Let_def t using r s by auto
qed

text \<open>The fold that sends the pings: its effect on the table, and the datagrams.\<close>

definition ping_of :: "MemberEntry list \<Rightarrow> ConfigDTO \<Rightarrow> u64 \<Rightarrow> Message" where
  "ping_of l d n = \<lparr>MType = MsgPing, MNonce = n, MList = l, MCfg = Some d\<rparr>"

definition enter_ping :: "send_env \<Rightarrow> Duration \<Rightarrow> Inflight \<Rightarrow> nat \<times> string \<Rightarrow> Inflight" where
  "enter_ping v tS t ia = (if s_resolves v (snd ia) then Add (s_clk v (fst ia)) (s_nonces v (fst ia)) tS (snd ia) t else t)"

lemma send_pings_eq:
  assumes "\<And>n. EncodeMessage (ping_of l (PcfgDTO p) n) = Some (enc n)" and "pings w r = Some p"
  shows "foldl (send_ping (ping_at r) v tS l) (w, sent) ias =
     (w\<lparr>tables := (tables w)(PInflight p := foldl (enter_ping v tS) (tables w (PInflight p)) ias)\<rparr>,
      sent @ map (\<lambda>(i, a). (enc (s_nonces v i), a)) (filter (\<lambda>ia. s_resolves v (snd ia)) ias))"
  using assms(2)
proof (induction ias arbitrary: w sent)
  case Nil
  then show ?case by simp
next
  case (Cons ia ias)
  obtain i a where ia: "ia = (i, a)" by force
  have e: "EncodeMessage \<lparr>MType = MsgPing, MNonce = n, MList = l, MCfg = Some (PcfgDTO p)\<rparr> = Some (enc n)" for n
    using assms(1) [of n] by (simp add: ping_of_def)
  have "send_ping (ping_at r) v tS l (w, sent) ia =
      (w\<lparr>tables := (tables w)(PInflight p := enter_ping v tS (tables w (PInflight p)) ia)\<rparr>,
       sent @ (if s_resolves v a then [(enc (s_nonces v i), a)] else []))"
    using Cons.prems e by (simp add: ia send_ping_def Let_def ping_at_def enter_ping_def)
  then show ?case using Cons.IH [of "w\<lparr>tables := t\<rparr>" for t] Cons.prems
    by (simp add: ia cong: if_cong)
qed

lemma enter_pings_keep:
  "\<forall>ia \<in> set ias. s_nonces v (fst ia) \<noteq> n \<Longrightarrow> foldl (enter_ping v tS) t ias n = t n"
  by (induction ias arbitrary: t) (auto simp: enter_ping_def Add_def)

lemma enter_pings_lookup:
  assumes "inj_on (s_nonces v) (fst ` set ias)" and "distinct (map fst ias)" and "(i, a) \<in> set ias" and "s_resolves v a"
  shows "foldl (enter_ping v tS) t ias (s_nonces v i) = Some \<lparr>dl = time_Add (s_clk v i) tS, addr = a\<rparr>"
  using assms(1-3)
proof (induction ias arbitrary: t)
  case Nil
  then show ?case by simp
next
  case (Cons x ias)
  show ?case
  proof (cases "x = (i, a)")
    case True
    have "\<forall>ia \<in> set ias. s_nonces v (fst ia) \<noteq> s_nonces v i"
      using Cons.prems(1,2) True by (force simp: inj_on_def)
    then have "foldl (enter_ping v tS) (enter_ping v tS t x) ias (s_nonces v i) = enter_ping v tS t x (s_nonces v i)"
      by (rule enter_pings_keep)
    moreover have "enter_ping v tS t x (s_nonces v i) = Some \<lparr>dl = time_Add (s_clk v i) tS, addr = a\<rparr>"
      using True assms(4) by (simp add: enter_ping_def Add_def)
    ultimately show ?thesis by simp
  next
    case False
    have "inj_on (s_nonces v) (fst ` set ias)" using Cons.prems(1) by (rule inj_on_subset) auto
    with False show ?thesis using Cons by auto
  qed
qed

text \<open>A whole tick in these terms: the targets \<open>ts\<close> are chosen from the peers, then pinged in order.\<close>

lemma ping_tick_result:
  assumes "pings w r = Some p" and "iteration (s_ord v) (entries (st w))"
    and "l = fst (Snapshot (s_snap v) (s_ord v) (st w))" and "\<And>n. EncodeMessage (ping_of l (PcfgDTO p) n) = Some (enc n)"
    and "ps = ResolvePeersFromMemberList l (selfID (st w))" and "permutes_indices (s_perm v) (length ps)"
    and "ts = enumerate 0 (chosen_peers (PingFanout p) (s_perm v) ps)"
    and "ping_tick (ping_at r) v prev w = (w', sent, q)"
  shows "sent = map (\<lambda>(i, a). (enc (s_nonces v i), a)) (filter (\<lambda>ia. s_resolves v (snd ia)) ts)"
    and "tables w' (PInflight p) = foldl (enter_ping v (PTSuspect p)) (tables w (PInflight p)) ts"
proof -
  let ?w1 = "w\<lparr>st := touched (s_snap v) (st w)\<rparr>"
  have s: "take_snapshot (world_ops.truncate (ping_at r)) (s_snap v) (s_ord v) w = (l, selfID (st w), ?w1)"
    using ping_world.snapshot_store [of "s_ord v" r w "s_snap v"] assms(2,3) by simp
  have p: "get_ping (ping_at r) w = p" and p1: "pings ?w1 r = Some p"
    using assms(1) by (simp_all add: ping_at_def)
  have none: "ps = [] \<Longrightarrow> ts = []" using chosen_peers_length [OF assms(6), of "PingFanout p"] assms(7) by simp
  have "(w', sent) = foldl (send_ping (ping_at r) v (PTSuspect p) l) (?w1, []) ts"
    using assms(8) s p none by (auto simp: ping_tick_def Let_def assms(5) [symmetric] assms(7) split_beta)
  then show "sent = map (\<lambda>(i, a). (enc (s_nonces v i), a)) (filter (\<lambda>ia. s_resolves v (snd ia)) ts)"
    and "tables w' (PInflight p) = foldl (enter_ping v (PTSuspect p)) (tables w (PInflight p)) ts"
    using send_pings_eq [OF assms(4) p1] by simp_all
qed

text \<open>Where the pings go: what the choice of the targets says about the datagrams.\<close>

lemma sent_targets:
  assumes "sent = map (\<lambda>(i, a). (f i, a)) (filter (\<lambda>ia. R (snd ia)) (enumerate 0 t))" and "distinct t" and "set t \<subseteq> A"
  shows "distinct (map snd sent)" and "snd ` set sent \<subseteq> A" and "length sent \<le> length t"
    and "\<forall>a \<in> A. R a \<Longrightarrow> length sent = length t"
proof -
  let ?r = "filter (\<lambda>ia. R (snd ia)) (enumerate 0 t)"
  have snd: "map snd sent = map snd ?r" by (simp add: assms(1) comp_def split_beta)
  show "distinct (map snd sent)"
    unfolding snd using assms(2) by (intro distinct_map_filter) simp
  have "set (map snd ?r) \<subseteq> set (map snd (enumerate 0 t))"
    unfolding set_map by (rule image_mono) (rule filter_is_subset)
  then have "set (map snd ?r) \<subseteq> set t" by (simp only: map_snd_enumerate)
  then show "snd ` set sent \<subseteq> A"
    using assms(3) unfolding set_map [symmetric] snd by blast
  show "length sent \<le> length t"
    using length_filter_le [of "\<lambda>ia. R (snd ia)" "enumerate 0 t"] by (simp add: assms(1))
  assume "\<forall>a \<in> A. R a"
  then have "?r = enumerate 0 t"
    using assms(3) by (intro filter_True) (auto simp: in_set_enumerate_eq dest!: nth_mem)
  then show "length sent = length t" by (simp add: assms(1))
qed

text \<open>
  C16. A tick of the ping loop. The tick pings pairwise different members other than the node itself, at
  most \<open>fanout\<close> of them, each with the complete member list, the configuration and a nonce of its
  own; each ping that is sent is entered in the loop's table under its nonce with the address it went
  to and the deadline \<open>tSuspect\<close> from then.
\<close>

theorem ping_tick_sends:
  assumes "daemon_inv w" and "pings w r = Some p" and "iteration (s_ord v) (entries (st w))"
    and "l = fst (Snapshot (s_snap v) (s_ord v) (st w))" and "timely l" and "all_ipv4 l" and "sane_dto (PcfgDTO p)"
    and "others = {k. \<exists>e. entries (st w) k = Some e \<and> ID e \<noteq> selfID (st w)}"
    and "permutes_indices (s_perm v) (card others)" and "inj_on (s_nonces v) {..<card others}"
    and "ping_tick (ping_at r) v prev w = (w', sent, q)"
  shows "distinct (map snd sent) \<and> snd ` set sent \<subseteq> others \<and> length sent \<le> nat (PingFanout p) \<and>
     ((\<forall>a \<in> others. s_resolves v a) \<longrightarrow> length sent = min (nat (PingFanout p)) (card others)) \<and>
     (\<forall>(b, a) \<in> set sent. \<exists>n now. DecodeMessage b =
          Some \<lparr>MType = MsgPing, MNonce = n, MList = map on_wire l, MCfg = Some (PcfgDTO p)\<rparr> \<and>
        tables w' (PInflight p) n = Some \<lparr>dl = time_Add now (PTSuspect p), addr = a\<rparr>)"
proof -
  have "\<exists>b. EncodeMessage (ping_of l (PcfgDTO p) n) = Some b \<and>
      DecodeMessage b = Some (ping_of (map on_wire l) (PcfgDTO p) n)" for n
    using message_decodes [of "ping_of l (PcfgDTO p) n"] assms(5-7) by (auto simp: ping_of_def split: option.splits)
  then obtain enc where enc: "\<And>n. EncodeMessage (ping_of l (PcfgDTO p) n) = Some (enc n)"
    "\<And>n. DecodeMessage (enc n) = Some (ping_of (map on_wire l) (PcfgDTO p) n)" by metis
  define ps where "ps = ResolvePeersFromMemberList l (selfID (st w))"
  have i: "store_inv (st w)" using assms(1) by (simp add: daemon_inv_def)
  note ps = peers_facts [OF i assms(3) ps_def [unfolded assms(4)], folded assms(8)]
  have perm: "permutes_indices (s_perm v) (length ps)" using assms(9) ps(3) by simp
  let ?t = "chosen_peers (PingFanout p) (s_perm v) ps"
  note t = chosen_peers_distinct [OF perm ps(1), of "PingFanout p"]
  have len: "length ?t = min (nat (PingFanout p)) (card others)"
    using chosen_peers_length [OF perm, of "PingFanout p"] ps(3) by simp
  note r = ping_tick_result [OF assms(2-4) enc(1) ps_def perm refl assms(11)]
  note sent = sent_targets [OF r(1) t(1), of others]
  have "fst ` set (enumerate 0 ?t) \<subseteq> {..<card others}" using len by (auto simp: in_set_enumerate_eq)
  with assms(10) have inj: "inj_on (s_nonces v) (fst ` set (enumerate 0 ?t))" by (rule inj_on_subset)
  have "\<exists>n now. DecodeMessage b = Some (ping_of (map on_wire l) (PcfgDTO p) n) \<and>
      tables w' (PInflight p) n = Some \<lparr>dl = time_Add now (PTSuspect p), addr = a\<rparr>" if m: "(b, a) \<in> set sent" for b a
  proof -
    obtain i where i: "(i, a) \<in> set (enumerate 0 ?t)" "s_resolves v a" "b = enc (s_nonces v i)"
      using m by (auto simp: r(1))
    have "tables w' (PInflight p) (s_nonces v i) = Some \<lparr>dl = time_Add (s_clk v i) (PTSuspect p), addr = a\<rparr>"
      unfolding r(2) by (rule enter_pings_lookup [OF inj _ i(1,2)]) simp
    then show ?thesis using enc(2) i(3) by blast
  qed
  then show ?thesis using sent t(2) ps(2) len by (auto simp: ping_of_def)
qed

theorem ping_tick_sends_witness:
  "\<exists>b w' q. ping_tick (ping_at 2) sample_send 0 meshed = (w', [(b, key_of (node 2 7))], q) \<and>
     (\<exists>n. DecodeMessage b = Some \<lparr>MType = MsgPing, MNonce = n,
        MList = [sample 1 100 StateAlive 8, sample 2 100 StateAlive 6], MCfg = Some (ToDTO (Defaults ''h''))\<rparr>)"
proof -
  obtain w' sent q where t: "ping_tick (ping_at 2) sample_send 0 meshed = (w', sent, q)" by (metis prod.exhaust)
  let ?p = "the (pings serving 2)"
  have p: "pings meshed 2 = Some ?p" by simp
  have i: "iteration (s_ord sample_send) (entries (st meshed))" by simp
  have l: "[sample 1 100 StateAlive 8, sample 2 100 StateAlive 6] = fst (Snapshot (s_snap sample_send) (s_ord sample_send) (st meshed))"
    by (simp add: meshed_list)
  have o: "{key_of (node 2 7)} = {k. \<exists>e. entries (st meshed) k = Some e \<and> ID e \<noteq> selfID (st meshed)}"
    by (simp add: meshed_others [symmetric])
  have d: "sane_dto (PcfgDTO ?p)" by simp
  have perm: "permutes_indices (s_perm sample_send) (card {key_of (node 2 7)})" using sample_perm by simp
  have n: "inj_on (s_nonces sample_send) {..<card {key_of (node 2 7)}}" by (simp add: inj_on_def)
  note a = ping_tick_sends [OF meshed_simps(3) p i l meshed_timely d o perm n t]
  then have "length sent = 1" by simp
  then obtain b x where s: "sent = [(b, x)]" by (metis One_nat_def length_0_conv length_Suc_conv surj_pair)
  with a show ?thesis using t by auto
qed

end
