(* ===== verification/AdminProps.thy ===== *)
theory AdminProps
  imports DaemonProps
begin

text \<open>
  The properties of the administrator's \<open>/switch\<close> request (\<open>adminHTTP\<close> in \<open>src/pkg/daemon/daemon.go\<close>):
  which requests are accepted, that an accepted one changes what it names and nothing else, and that it
  undoes a change that is accepted while it is being handled.
\<close>

section \<open>Switching the protocol\<close>

text \<open>What a request asks for, if it is well formed: the protocol and the suspicion time.\<close>

definition switch_wish :: "switchReq \<Rightarrow> (string \<times> Duration) option" where
  "switch_wish req =
     (let p = ToLower (TrimSpace (Protocol req)); s = ToLower (TrimSpace (SuspicionMode req)) in
      if p \<notin> {ModeGossip, ModePingAck} then None
      else if s = ''disabled'' then Some (p, 0)
      else if s = ''enabled'' then
        Option.bind (ParseDuration (TrimSpace (SuspicionTime req))) (\<lambda>d. if 0 < d then Some (p, d) else None)
      else None)"

definition switched :: "Config \<Rightarrow> string \<times> Duration \<Rightarrow> Config" where
  "switched c m = c\<lparr>cMode := fst m, cTSuspect := snd m\<rparr>"

lemma component_0ms: "parse_component ''0ms'' = Some (0, [])"
  by (simp add: parse_component_def parse_fraction_def is_digit_def digit_val_def unit_char_def unitMap_def micro_unit_def
      unit_defs)

lemma parse_0ms [simp]: "ParseDuration ''0ms'' = Some 0"
proof -
  have "parse_components 0 ''0ms'' = Some 0"
    by (subst parse_components.simps) (simp add: component_0ms parse_components.simps [of 0 "[]"])
  then show ?thesis by (simp add: ParseDuration_def)
qed

lemma switch_dto_wish:
  "switch_dto req c = map_option (\<lambda>m. (ToDTO (switched c m))\<lparr>dTSuspect := (if snd m = 0 then ''0ms'' else Duration_String (snd m))\<rparr>)
     (switch_wish req)"
  by (auto simp: switch_dto_def switch_wish_def switched_def ToDTO_def Let_def ModeGossip_def ModePingAck_def
      split: option.split)

lemma wish_valid:
  assumes "switch_wish req = Some m"
  shows "fst m = ModePingAck \<or> fst m = ModeGossip" and "0 \<le> snd m" and "in64 (snd m)"
  using assms ParseDuration_in64
  by (auto simp: switch_wish_def Let_def bind_eq_Some_conv int64_defs split: if_splits)

text \<open>
  The DTO is built from the configuration \<open>c\<close> that the handler reads, and committed to the configuration
  \<open>p\<close> that it finds when it takes the lock.
\<close>

lemma switch_commit:
  assumes "cfg_ok c" and "switch_wish req = Some m" and "switch_dto req c = Some d"
    and "in64 (cVersion p)" and "cVersion c \<le> cVersion p"
  shows "BumpAndApplyLocal p d =
     (if cVersion p = max64 then (p, Inr False) else (adopt p ((switched c m)\<lparr>cVersion := cVersion p + 1\<rparr>), Inr True))"
proof -
  have d: "d = (ToDTO (switched c m))\<lparr>dTSuspect := (if snd m = 0 then ''0ms'' else Duration_String (snd m))\<rparr>"
    using assms(2,3) by (simp add: switch_dto_wish)
  have b: "BumpAndApplyLocal p d = ApplyDTO p (d\<lparr>dVersion := wrap64 (cVersion p + 1)\<rparr>)"
    using assms(5) by (simp add: BumpAndApplyLocal_def d switched_def)
  have t: "ParseDuration (if snd m = 0 then ''0ms'' else Duration_String (snd m)) = Some (snd m)"
    using wish_valid(3) [OF assms(2)] by (simp add: ParseDuration_String)
  show ?thesis
  proof (cases "cVersion p = max64")
    case True
    then have "wrap64 (cVersion p + 1) \<le> cVersion p" by (simp add: wrap64_def int64_defs)
    then show ?thesis using True b by simp
  next
    case False
    then have w: "wrap64 (cVersion p + 1) = cVersion p + 1" using assms(4) by (auto simp: int64_defs)
    have i: "ParseDuration (Duration_String x) = Some x" if "x \<in> {cPingEvery c, cGossipPeriod c, cTFail c, cTCleanup c}" for x
      using that assms(1) by (auto simp: cfg_ok_def cfg_ints_def intro: ParseDuration_String)
    have "\<exists>k. knobs (d\<lparr>dVersion := cVersion p + 1\<rparr>) = Some k \<and> ValidateClusterParams k = None \<and>
        adopt p k = adopt p ((switched c m)\<lparr>cVersion := cVersion p + 1\<rparr>)"
      using assms(1) wish_valid(1,2) [OF assms(2)] t
      by (simp add: knobs_def d ToDTO_def switched_def i adopt_def cfg_ok_def ValidateClusterParams_None del: if_split)
    then show ?thesis
      using ApplyDTO_complete [of p "d\<lparr>dVersion := cVersion p + 1\<rparr>"] False w b by auto
  qed
qed

lemma adopt_switched [simp]: "adopt c ((switched c m)\<lparr>cVersion := v\<rparr>) = (switched c m)\<lparr>cVersion := v\<rparr>"
  by (simp add: adopt_def switched_def)

text \<open>
  C21. The switch of the protocol. \<open>/switch\<close> accepts exactly the requests that name a protocol and either
  disable suspicion or enable it with a positive time. An accepted request changes the protocol and
  the suspicion time and nothing else, at the next version (also when it asks for what already
  holds), afterwards the new configuration is in force, and the reply reports it. At the largest
  version the request is acknowledged but changes nothing. (The comments of the code promise something
  else: the values \<open>suspect\<close> and \<open>nosuspect\<close>, which are rejected, and an optional time, which is required
  when suspicion is enabled.)
\<close>

theorem switch_specification:
  assumes "daemon_inv w" and "cfg_ok (cfg w)"
  shows "case Option.bind body switch_wish of
     None \<Rightarrow> http_switch body w = (w, Inl BadRequest)
   | Some (p, t) \<Rightarrow>
       if cVersion (cfg w) = max64
       then (\<exists>reply. http_switch body w = (w, Inr reply) \<and> new_version reply = cVersion (cfg w))
       else (let c = (cfg w)\<lparr>cMode := p, cTSuspect := t, cVersion := cVersion (cfg w) + 1\<rparr>; w' = fst (http_switch body w)
             in cfg w' = c \<and> in_force c w' \<and>
                (\<exists>reply. snd (http_switch body w) = Inr reply \<and> rep_protocol reply = p \<and>
                   new_version reply = cVersion c \<and> effectiveDTO reply = ToDTO c))"
proof (cases "Option.bind body switch_wish")
  case None
  then have "Option.bind body (\<lambda>req. switch_dto req (cfg w)) = None"
    by (cases body) (simp_all add: switch_dto_wish)
  then show ?thesis using None by (cases body) (simp_all add: http_switch_def)
next
  case (Some m)
  then obtain req d where r: "body = Some req" "switch_wish req = Some m" "switch_dto req (cfg w) = Some d"
    by (cases body) (simp_all add: switch_dto_wish)
  have "in64 (cVersion (cfg w))" using assms(2) by (simp add: cfg_ok_def cfg_ints_def)
  from switch_commit [OF assms(2) r(2,3) this order.refl]
  have c: "BumpAndApplyLocal (cfg w) d = (if cVersion (cfg w) = max64 then (cfg w, Inr False)
      else ((switched (cfg w) m)\<lparr>cVersion := cVersion (cfg w) + 1\<rparr>, Inr True))" by simp
  show ?thesis
  proof (cases "cVersion (cfg w) = max64")
    case True
    then show ?thesis using r c Some by (simp add: http_switch_def local_change_def commit_local_def Let_def split: prod.split)
  next
    case False
    let ?c = "(switched (cfg w) m)\<lparr>cVersion := cVersion (cfg w) + 1\<rparr>"
    have b: "BumpAndApplyLocal (cfg w) d = (?c, Inr True)" using c False by simp
    have "local_change d w = (applyRuntime (cfg w) ?c (fst (commit_local d w)), Inr ?c)"
      using b by (simp add: local_change_def commit_local_def Let_def)
    then have "fst (http_switch body w) = applyRuntime (cfg w) ?c (fst (commit_local d w)) \<and>
        (\<exists>reply. snd (http_switch body w) = Inr reply \<and> rep_protocol reply = dMode d \<and>
           new_version reply = cVersion ?c \<and> effectiveDTO reply = ToDTO ?c)"
      using r by (simp add: http_switch_def)
    moreover have "dMode d = fst m" using r(2,3) by (auto simp: switch_dto_wish switched_def)
    moreover have "in_force ?c (applyRuntime (cfg w) ?c (fst (commit_local d w)))"
      using assms(1) b by (rule local_in_force)
    moreover have "cfg (applyRuntime (cfg w) ?c (fst (commit_local d w))) = ?c" using b by simp
    ultimately show ?thesis
      using False Some by (cases m) (simp add: switched_def Let_def)
  qed
qed

theorem switch_specification_witness:
  "let w = sample_world 1 (Defaults ''h''); req = \<lparr>Protocol = '' GOSSIP'', SuspicionMode = ''disabled'', SuspicionTime = []\<rparr>
   in cfg (fst (http_switch (Some req) w)) = (Defaults ''h'')\<lparr>cMode := ModeGossip, cVersion := 2\<rparr>"
proof -
  let ?w = "sample_world 1 (Defaults ''h'')"
  let ?req = "\<lparr>Protocol = '' GOSSIP'', SuspicionMode = ''disabled'', SuspicionTime = []\<rparr>"
  have "ToLower (TrimSpace '' GOSSIP'') = ''gossip''" "ToLower (TrimSpace ''disabled'') = ''disabled''" by code_simp+
  then have q: "switch_wish ?req = Some (ModeGossip, 0)"
    by (simp add: switch_wish_def ModeGossip_def)
  have v: "cVersion (Defaults ''h'') = 1" "cTSuspect (Defaults ''h'') = 0" by (simp_all add: Defaults_def ms_def)
  have i: "daemon_inv ?w" "cfg_ok (cfg ?w)" by simp_all
  have "(Defaults ''h'')\<lparr>cTSuspect := 0\<rparr> = Defaults ''h''" using v(2) by (cases "Defaults ''h''") simp
  then show ?thesis
    using switch_specification [OF i, of "Some ?req"] q v
    by (simp add: Let_def int64_defs)
qed

text \<open>
  C34. A switch can undo another change. The handler reads the configuration, releases the lock, builds a
  complete DTO from what it read, and takes the lock again to commit it at the next version: a change of
  any other parameter that was accepted in between is overwritten by the old value, everywhere.
\<close>

theorem switch_undoes_change:
  assumes "daemon_inv w" and "cfg_ok (cfg w)"
    and "switch_wish req = Some m" and "switch_dto req (cfg w) = Some d"
    and "w1 = onConfigFromWire d1 w" and "cVersion (cfg w) < cVersion (cfg w1)" and "cVersion (cfg w1) < max64"
    and "(w2, r) = local_change d w1"
  shows "cfg w2 = (cfg w)\<lparr>cMode := fst m, cTSuspect := snd m, cVersion := cVersion (cfg w1) + 1\<rparr> \<and> in_force (cfg w2) w2"
proof -
  have i: "daemon_inv w1" using daemon_onConfig [OF assms(1)] assms(5) by simp
  have a: "cfg w1 = fst (ApplyDTO (cfg w) d1)" by (simp add: assms(5) ApplyRemote_def)
  have l: "adopt (cfg w1) k = adopt (cfg w) k" for k
    unfolding a by (rule ApplyDTO_cases [of d1 "cfg w"]) simp_all
  have v: "in64 (cVersion (cfg w1))" using assms(2,6,7) by (auto simp: cfg_ok_def cfg_ints_def int64_defs)
  let ?c = "(switched (cfg w) m)\<lparr>cVersion := cVersion (cfg w1) + 1\<rparr>"
  have b: "BumpAndApplyLocal (cfg w1) d = (?c, Inr True)"
    using switch_commit [OF assms(2-4) v] assms(6,7) l by simp
  then have w2: "w2 = applyRuntime (cfg w1) ?c (fst (commit_local d w1))"
    using assms(8) by (simp add: local_change_def commit_local_def Let_def)
  then have "cfg w2 = ?c" using b by simp
  moreover have "in_force ?c w2" unfolding w2 using i b by (rule local_in_force)
  ultimately show ?thesis by (simp add: switched_def)
qed

theorem switch_undoes_change_witness:
  "let c = Defaults ''h''; w = sample_world 1 c; req = \<lparr>Protocol = ''gossip'', SuspicionMode = ''disabled'', SuspicionTime = []\<rparr>;
       w1 = onConfigFromWire (ToDTO (c\<lparr>cVersion := 2, cPingFanout := 5\<rparr>)) w
   in cPingFanout (cfg w1) = 5 \<and> cPingFanout (cfg (fst (local_change (the (switch_dto req c)) w1))) = 1"
proof -
  let ?c = "Defaults ''h''" and ?req = "\<lparr>Protocol = ''gossip'', SuspicionMode = ''disabled'', SuspicionTime = []\<rparr>"
  let ?w = "sample_world 1 ?c" and ?k = "(Defaults ''h'')\<lparr>cVersion := 2, cPingFanout := 5\<rparr>"
  let ?w1 = "onConfigFromWire (ToDTO ?k) ?w"
  have "ToLower (TrimSpace ''gossip'') = ''gossip''" "ToLower (TrimSpace ''disabled'') = ''disabled''" by code_simp+
  then have q: "switch_wish ?req = Some (ModeGossip, 0)" by (simp add: switch_wish_def ModeGossip_def)
  then have d: "switch_dto ?req (cfg ?w) = Some (the (switch_dto ?req ?c))" by (simp add: switch_dto_wish)
  have v: "cVersion ?c = 1" "cPingFanout ?c = 1" by (simp_all add: Defaults_def)
  have "cfg_ok ?k"
    by (simp add: cfg_ok_def Defaults_def ValidateClusterParams_def cfg_ints_def int64_defs ms_def drop_rate_bad_def)
  then have "ApplyDTO ?c (ToDTO ?k) = (adopt ?c ?k, Inr True)" using v(1) by (intro ApplyDTO_ToDTO) simp_all
  then have c1: "cfg ?w1 = adopt ?c ?k" by (simp add: ApplyRemote_def)
  obtain w2 r where l: "(w2, r) = local_change (the (switch_dto ?req ?c)) ?w1" by (metis prod.exhaust)
  have i: "daemon_inv ?w" "cfg_ok (cfg ?w)" by simp_all
  have n: "cVersion (cfg ?w) < cVersion (cfg ?w1)" "cVersion (cfg ?w1) < max64"
    using v c1 by (simp_all add: int64_defs)
  have "cPingFanout (cfg w2) = 1" using switch_undoes_change [OF i q d refl n l] v(2) by simp
  moreover have "cPingFanout (cfg ?w1) = 5" unfolding c1 by (simp add: adopt_def)
  ultimately show ?thesis unfolding Let_def using l by (metis fst_conv)
qed

end
