(* ===== verification/StoreLaw.thy ===== *)
theory StoreLaw
  imports DaemonSteps
begin

text \<open>
  Laws about single entries that hold throughout a store. The locale \<open>entry_law\<close> states what a property
  of entries must survive to be kept by the operations of the store and of the suspicion manager at
  the node \<open>me\<close>: a new heartbeat of the own entry or of one that replaces an older boot, a mark on another
  member, and the refutation of the own entry. The lemmas hold for every iteration order, even an
  impossible one.
\<close>

definition all_entries :: "(MemberEntry \<Rightarrow> bool) \<Rightarrow> Store \<Rightarrow> bool" where
  "all_entries P s \<longleftrightarrow> (\<forall>k e. entries s k = Some e \<longrightarrow> P e)"

lemma all_entries_upd:
  "all_entries P s \<Longrightarrow> P e \<Longrightarrow> entries s' = (entries s)(k \<mapsto> e) \<Longrightarrow> all_entries P s'"
  by (auto simp: all_entries_def)

lemma all_entries_cong: "entries s' = entries s \<Longrightarrow> all_entries P s' = all_entries P s"
  by (simp add: all_entries_def)

section \<open>Identities and their texts\<close>

text \<open>An IPv4 endpoint shares its text with no other endpoint, of whatever kind.\<close>

lemma endpoint_text_Is4: "EndpointToString a = EndpointToString b \<Longrightarrow> Is4 (IP b) \<Longrightarrow> a = b"
  by (metis ParseStringToEndpoint_print ParseStringToEndpoint_not_Is4 sum.inject(2) sum.distinct(1))

lemma same_boot_same_node:
  "key_of a = key_of b \<Longrightarrow> Is4 (IP (EP b)) \<Longrightarrow> TimeStamp a = TimeStamp b \<Longrightarrow> a = b"
  using endpoint_text_Is4 [of "EP a" "EP b"] by (cases a; cases b) simp

section \<open>Snapshots in any order\<close>

lemma snapshot_loop_map:
  "snapshot_loop now me ord m = (list, m') \<Longrightarrow>
   m' k = (if k \<in> set ord then map_option (touch now me) (m k) else m k)"
proof (induction ord arbitrary: m list m')
  case Nil
  then show ?case by simp
next
  case (Cons j ord)
  show ?case
  proof (cases "m j")
    case None
    then have "snapshot_loop now me ord m = (list, m')" using Cons.prems by simp
    from Cons.IH [OF this] None show ?thesis by auto
  next
    case (Some e)
    then obtain l where l: "snapshot_loop now me ord (m(j \<mapsto> touch now me e)) = (l, m')"
      using Cons.prems unfolding touch_def by (auto simp: Let_def split: prod.splits)
    have idem: "touch now me (touch now me e) = touch now me e" by (simp add: touch_def)
    show ?thesis using Cons.IH [OF l] Some by (auto simp: idem)
  qed
qed

lemma snapshot_loop_list:
  "snapshot_loop now me ord m = (list, m') \<Longrightarrow> e \<in> set list \<Longrightarrow> \<exists>k. m' k = Some e"
proof (induction ord arbitrary: m list m')
  case Nil
  then show ?case by simp
next
  case (Cons j ord)
  show ?case
  proof (cases "m j")
    case None
    with Cons show ?thesis by auto
  next
    case (Some d)
    then obtain l where l: "snapshot_loop now me ord (m(j \<mapsto> touch now me d)) = (l, m')" and e: "e = touch now me d \<or> e \<in> set l"
      using Cons.prems unfolding touch_def by (auto simp: Let_def split: prod.splits)
    have "m' j = Some (touch now me d)"
      using snapshot_loop_map [OF l, of j] by (simp add: touch_def)
    with e Cons.IH [OF l] show ?thesis by blast
  qed
qed

lemma Snapshot_listed:
  assumes "Snapshot now ord s = (list, me, s')" and "e \<in> set list"
  shows "\<exists>k. entries s' k = Some e"
  using assms snapshot_loop_list [where now = now and me = "selfID s" and ord = ord and m = "entries s" and e = e]
  by (auto simp: Snapshot_def split: prod.splits)

lemma Snapshot_entry:
  assumes "Snapshot now ord s = (list, me, s')" and "entries s' k = Some e"
  shows "\<exists>d t. entries s k = Some d \<and> (e = d \<or> ID d = selfID s \<and> e = d\<lparr>LastUpdate := t\<rparr>)"
proof -
  obtain m' where "snapshot_loop now (selfID s) ord (entries s) = (list, m')" "entries s' = m'"
    using assms(1) by (auto simp: Snapshot_def split: prod.splits)
  then have "entries s' k = (if k \<in> set ord then map_option (touch now (selfID s)) (entries s k) else entries s k)"
    using snapshot_loop_map by simp
  with assms(2) show ?thesis by (auto simp: touch_def split: if_splits)
qed

text \<open>Nothing but \<open>n\<close> itself is filed under the key of \<open>n\<close>.\<close>

definition files :: "Store \<Rightarrow> NodeID \<Rightarrow> bool" where
  "files s n \<longleftrightarrow> (\<forall>d. entries s (key_of n) = Some d \<longrightarrow> ID d = n)"

section \<open>The law\<close>

text \<open>
  \<open>P\<close> is the property of the entries; \<open>Q\<close> tells which identities may be accused at which incarnation, and
  what a scan demands of an entry before it accuses is \<open>overdue\<close>.
\<close>

definition overdue :: "gotime \<Rightarrow> Duration \<Rightarrow> Duration \<Rightarrow> MemberEntry \<Rightarrow> bool" where
  "overdue now tSuspect tFail e \<longleftrightarrow>
     (let age = time_Sub now (LastUpdate e) in
      if tSuspect = 0 then tFail \<le> age else tSuspect \<le> age \<or> add64 tSuspect tFail \<le> age)"

locale entry_law =
  fixes P :: "MemberEntry \<Rightarrow> bool" and Q :: "NodeID \<Rightarrow> u64 \<Rightarrow> bool" and me :: NodeID
  assumes own_time: "P e \<Longrightarrow> ID e = me \<Longrightarrow> P (e\<lparr>LastUpdate := t\<rparr>)"
    and boot_time: "P d \<Longrightarrow> P e \<Longrightarrow> key_of (ID d) = key_of (ID e) \<Longrightarrow> TimeStamp (ID d) < TimeStamp (ID e) \<Longrightarrow>
      P (e\<lparr>LastUpdate := t\<rparr>)"
    and suspected: "P d \<Longrightarrow> P e \<Longrightarrow> ID d = ID e \<Longrightarrow> Q (ID e) (Incarnation e) \<Longrightarrow> ID e \<noteq> me \<Longrightarrow>
      x = StateSuspect \<or> x = StateFailed \<Longrightarrow> P (d\<lparr>EState := x, Incarnation := Incarnation e\<rparr>)"
    and refuted: "P e \<Longrightarrow> ID e = me \<Longrightarrow> P (e\<lparr>Incarnation := i, LastUpdate := t, EState := StateAlive\<rparr>)"
begin

lemma law_snapshot:
  assumes "Snapshot now ord s = (list, self, s')" and "all_entries P s" and "selfID s = me"
  shows "all_entries P s'" and "e \<in> set list \<Longrightarrow> P e"
proof -
  show a: "all_entries P s'"
    using assms Snapshot_entry [OF assms(1)] own_time unfolding all_entries_def by metis
  show "e \<in> set list \<Longrightarrow> P e"
    using Snapshot_listed [OF assms(1)] a unfolding all_entries_def by blast
qed

lemma law_update:
  assumes "all_entries P s" and "selfID s = me" and "P e" and "Is4 (IP (EP (ID e)))" and "store_inv s"
  shows "all_entries P (updateMemberEntry now s e)"
proof -
  have boot: "all_entries P (normalizeBoot now s e)"
    if d: "entries s (key_of (ID e)) = Some d" "TimeStamp (ID d) < TimeStamp (ID e)" for d
  proof -
    have "P d" "key_of (ID d) = key_of (ID e)" using assms(1) d(1) store_invD [OF assms(5)] by (auto simp: all_entries_def)
    from all_entries_upd [OF assms(1) boot_time [OF this(1) assms(3) this(2) d(2)]] show ?thesis
      by (simp add: normalizeBoot_def)
  qed
  have put: "all_entries P (put_entry s e)"
    using all_entries_upd [OF assms(1,3)] by (simp add: put_entry_def)
  have bump: "all_entries P (selfBumpIncarnation now s)"
    if "entries s (key_of (ID e)) = Some d" "TimeStamp (ID d) = TimeStamp (ID e)" "ID e = me" for d
  proof -
    have "ID d = me"
      using same_boot_same_node [of "ID d" "ID e"] store_invD [OF assms(5) that(1)] assms(4) that by simp
    then have "P (d\<lparr>Incarnation := Incarnation d + 1, LastUpdate := now, EState := StateAlive\<rparr>)"
      using refuted assms(1) that(1) by (auto simp: all_entries_def)
    from all_entries_upd [OF assms(1) this] show ?thesis
      using that(1,3) assms(2) by (simp add: selfBumpIncarnation_def)
  qed
  show ?thesis
    using boot put bump assms(1,2) by (auto simp: updateMemberEntry_def split: option.split)
qed

lemma law_merge:
  "all_entries P s \<Longrightarrow> selfID s = me \<Longrightarrow> store_inv s \<Longrightarrow> \<forall>e \<in> set es. P e \<and> Is4 (IP (EP (ID e))) \<Longrightarrow>
   all_entries P (MergeFullList clk s es)"
  by (induction clk s es rule: MergeFullList.induct) (simp_all add: law_update store_inv_update)

text \<open>A mark on a member that the snapshot lists.\<close>

lemma law_mark:
  assumes "all_entries P s" and "P e" and "Q (ID e) (Incarnation e)" and "ID e \<noteq> me" and "x = StateSuspect \<or> x = StateFailed"
    and "files s (ID e)"
  shows "all_entries P (ApplyLocked now s (ID e) (Incarnation e) x)"
proof (cases "entries s (key_of (ID e))")
  case None
  then show ?thesis using assms(1) by (simp add: ApplyLocked_def apply_entry_def)
next
  case (Some d)
  have "ID d = ID e" using Some assms(6) unfolding files_def by blast
  moreover have "P d" using Some assms(1) by (simp add: all_entries_def)
  ultimately have "P (d\<lparr>EState := x, Incarnation := Incarnation e\<rparr>)" using suspected assms(2-5) by metis
  from all_entries_upd [OF assms(1) this] show ?thesis
    using Some assms(5) by (auto simp: ApplyLocked_def apply_entry_def)
qed

end

text \<open>Marks and removals never change the identity that is filed under a key.\<close>

lemma files_kept:
  assumes "\<forall>k d. entries s' k = Some d \<longrightarrow> (\<exists>d0. entries s k = Some d0 \<and> ID d0 = ID d)"
  shows "files s n \<Longrightarrow> files s' n"
  using assms unfolding files_def by metis

lemma apply_ids:
  "entries (ApplyLocked now s n i x) k = Some d \<Longrightarrow> \<exists>d0. entries s k = Some d0 \<and> ID d0 = ID d"
  by (auto simp: ApplyLocked_def apply_entry_def Let_def split: option.splits if_splits)

lemma remove_ids: "entries (RemoveEntry s n) k = Some d \<Longrightarrow> entries s k = Some d"
  by (auto simp: RemoveEntry_def split: option.splits if_splits)

lemma scan_entry_ids:
  "entries (fst (scan_entry clock now tS tF tC mk e)) k = Some d \<Longrightarrow>
   \<exists>d0. entries (fst mk) k = Some d0 \<and> ID d0 = ID d"
  by (cases mk) (auto simp: scan_entry_def Let_def split: if_splits dest: apply_ids remove_ids)

lemma snapshot_files:
  assumes "Snapshot now ord s = (list, me, s')" and "store_inv s" and "e \<in> set list"
  shows "files s' (ID e)"
proof -
  have "store_inv s'" using store_inv_Snapshot [OF assms(2), of now ord] assms(1) by simp
  moreover obtain k where "entries s' k = Some e" using Snapshot_listed [OF assms(1,3)] by blast
  ultimately show ?thesis using store_invD [of s' k e] by (auto simp: files_def)
qed

lemma scan_entry_outcomes:
  "let s' = fst (scan_entry clock now tS tF tC (s, n) e) in
   s' = s \<or> s' = RemoveEntry s (ID e) \<or>
   ID e \<noteq> selfID s \<and> overdue now tS tF e \<and> (\<exists>x. (x = StateSuspect \<or> x = StateFailed) \<and> s' = ApplyLocked clock s (ID e) (Incarnation e) x)"
  by (auto simp: scan_entry_def SelfID_def overdue_def Let_def)

context entry_law
begin

lemma law_scan_entry:
  assumes "all_entries P (fst mk)" and "selfID (fst mk) = me" and "P e" and "files (fst mk) (ID e)"
    and "overdue now tS tF e \<longrightarrow> Q (ID e) (Incarnation e)"
  shows "all_entries P (fst (scan_entry clock now tS tF tC mk e))"
proof -
  obtain s marks where s: "mk = (s, marks)" by (cases mk)
  have s': "all_entries P s" "selfID s = me" "files s (ID e)" using assms s by simp_all
  have "all_entries P (RemoveEntry s (ID e))"
    using s'(1) by (auto simp: all_entries_def dest: remove_ids)
  moreover have "all_entries P (ApplyLocked clock s (ID e) (Incarnation e) x)"
    if "ID e \<noteq> selfID s" "overdue now tS tF e" "x = StateSuspect \<or> x = StateFailed" for x
    using law_mark [of s e x clock] assms(3,5) s' that by simp
  ultimately show ?thesis
    using scan_entry_outcomes [of clock now tS tF tC s marks e] s'(1) unfolding s Let_def by metis
qed

lemma law_scan_fold:
  "all_entries P (fst mk) \<Longrightarrow> selfID (fst mk) = me \<Longrightarrow> \<forall>e \<in> set es. P e \<and> files (fst mk) (ID e) \<and> (overdue now tS tF e \<longrightarrow> Q (ID e) (Incarnation e)) \<Longrightarrow>
   all_entries P (fst (foldl (scan_entry clock now tS tF tC) mk es))"
proof (induction es arbitrary: mk)
  case Nil
  then show ?case by simp
next
  case (Cons e es)
  let ?mk = "scan_entry clock now tS tF tC mk e"
  have "all_entries P (fst ?mk)" by (rule law_scan_entry) (use Cons.prems in simp_all)
  moreover have "selfID (fst ?mk) = me" using Cons.prems(2) by (simp add: scan_entry_fst)
  moreover have "\<forall>e \<in> set es. P e \<and> files (fst ?mk) (ID e) \<and> (overdue now tS tF e \<longrightarrow> Q (ID e) (Incarnation e))"
    using Cons.prems(3) files_kept [OF allI [OF allI [OF impI [OF scan_entry_ids]]]] by simp
  ultimately show ?case using Cons.IH [of ?mk] by simp
qed

lemma law_scanOnce:
  assumes "scanOnce clock snap ord now tS tF tC (s, marks) = Running (s', marks')"
    and "all_entries P s" and "selfID s = me" and "store_inv s"
    and "\<forall>e \<in> set (fst (Snapshot snap ord s)). overdue now tS tF e \<longrightarrow> Q (ID e) (Incarnation e)"
  shows "all_entries P s'"
proof -
  obtain list self s1 where S: "Snapshot snap ord s = (list, self, s1)" by (metis prod.exhaust)
  have 1: "all_entries P s1" using law_snapshot(1) [OF S assms(2,3)] .
  have "selfID s1 = me" using Snapshot_frame(1) [of snap ord s] S assms(3) by simp
  moreover have "\<forall>e \<in> set list. P e \<and> files s1 (ID e) \<and> (overdue now tS tF e \<longrightarrow> Q (ID e) (Incarnation e))"
    using law_snapshot(2) [OF S assms(2,3)] snapshot_files [OF S assms(4)] assms(5) S by simp
  ultimately have "all_entries P (fst (foldl (scan_entry clock now tS tF tC) (s1, marks) list))"
    using law_scan_fold [of "(s1, marks)" list] 1 by simp
  then show ?thesis using assms(1) S 1 by (auto simp: scanOnce_def split: option.splits if_splits)
qed

end

text \<open>A node that may leave.\<close>

locale leaving_law = entry_law +
  assumes left: "P e \<Longrightarrow> ID e = me \<Longrightarrow> P (e\<lparr>Incarnation := i, LastUpdate := t, EState := StateLeft\<rparr>)"
begin

lemma law_leave_fold:
  fixes now :: gotime
  shows "all_entries P s \<Longrightarrow> selfID s = me \<Longrightarrow> \<forall>e \<in> set es. files s (ID e) \<Longrightarrow>
   all_entries P (foldl (\<lambda>s e. if ID e = SelfID s then ApplyLocked now s (SelfID s) (Incarnation e + 1) StateLeft else s) s es)"
proof (induction es arbitrary: s)
  case Nil
  then show ?case by simp
next
  case (Cons e es)
  let ?s = "if ID e = SelfID s then ApplyLocked now s (SelfID s) (Incarnation e + 1) StateLeft else s"
  have "all_entries P ?s"
  proof (cases "entries s (key_of me)")
    case (Some d)
    have "P d" using Some Cons.prems(1) by (auto simp: all_entries_def)
    moreover have "ID e = me \<Longrightarrow> ID d = me" using Some Cons.prems(2,3) by (auto simp: files_def)
    moreover have "d\<lparr>Incarnation := i, LastUpdate := t, EState := x\<rparr> = d\<lparr>LastUpdate := t, EState := x, Incarnation := i\<rparr>"
      for i t x by (cases d) simp
    ultimately have "P (d\<lparr>LastUpdate := now, EState := StateLeft, Incarnation := Incarnation e + 1\<rparr>)" if "ID e = me"
      using that left by metis
    from all_entries_upd [OF Cons.prems(1) this] show ?thesis
      using Some Cons.prems(1,2) by (simp add: SelfID_def ApplyLocked_def apply_entry_def Let_def)
  qed (use Cons.prems in \<open>simp add: SelfID_def ApplyLocked_def apply_entry_def\<close>)
  moreover have "files ?s (ID d)" if "d \<in> set es" for d
    using that Cons.prems(3) apply_ids files_kept [of "ApplyLocked now s (SelfID s) (Incarnation e + 1) StateLeft" s]
    by auto
  ultimately show ?case using Cons.IH [of ?s] Cons.prems(2) by simp
qed

lemma law_leave:
  assumes "Snapshot snap ord s = (list, self, s1)" and "all_entries P s" and "selfID s = me" and "store_inv s"
  shows "all_entries P (leave_store now list s1)"
  using law_leave_fold [where s = s1 and es = list and now = now] law_snapshot(1) [OF assms(1-3)] snapshot_files [OF assms(1,4)]
    Snapshot_frame(1) [of snap ord s] assms(1,3)
  by (auto simp: leave_store_def)

end

end
