(* ===== verification/Memberd.thy ===== *)
theory Memberd
  imports LoopProps
begin

text \<open>
  The program itself, \<open>src/pkg/memberd/main.go\<close>: \<open>main\<close> reads the flags, runs the daemon with the
  configuration they give, and on a signal closes it. The answers of the resolvers and of the operating
  system are parameters.
\<close>

section \<open>The start of the program\<close>

datatype exit_cause = BadFlags load_error | RunFailed "resolve_error option"

text \<open>
  What the environment supplies: the resolvers that the validation of the flags asks, the name of the
  host, the flags after \<open>flag.Parse\<close>, the resolver and the sockets that \<open>Run\<close> uses, and two readings of
  the clock.
\<close>

record start_env =
  e_udp_ok :: "string \<Rightarrow> bool"
  e_tcp_ok :: "string \<Rightarrow> bool"
  e_hostname :: string
  e_flags :: Flags
  e_resolver :: "string \<Rightarrow> (u8 list option \<times> nat) option"
  e_binds :: "u8 list option \<times> nat \<Rightarrow> bool"
  e_boot :: u64
  e_now :: gotime

definition main_start :: "start_env \<Rightarrow> exit_cause + Config \<times> World" where
  "main_start v =
     (case LoadFromFlags (e_udp_ok v) (e_tcp_ok v) (e_hostname v) (e_flags v) of
        Inl e \<Rightarrow> Inl (BadFlags e)
      | Inr c \<Rightarrow>
          (case boot (e_resolver v) (\<lambda>a. \<not> isl (Listen (e_resolver v) (e_binds v) a)) (e_boot v) (e_now v) c of
             Inl e \<Rightarrow> Inl (RunFailed e)
           | Inr w \<Rightarrow> Inr (c, w)))"

text \<open>The phase in which \<open>Run\<close> leaves the boot.\<close>

definition first_phase :: "Config \<Rightarrow> phase" where
  "first_phase c = (if cIsIntroducer c then Booted else Joining)"

text \<open>What \<open>flag.Parse\<close> guarantees: integers and durations have 64 bits.\<close>

definition flag_ints :: "Flags \<Rightarrow> bool" where
  "flag_ints f \<longleftrightarrow> list_all (\<lambda>x. case x of None \<Rightarrow> True | Some v \<Rightarrow> in64 v)
     [fPingEvery f, fPingFanout f, fGossipPeriod f, fGossipFanout f, fTSuspect f, fTFail f, fTCleanup f]"

lemma given_int: "case x of None \<Rightarrow> True | Some v \<Rightarrow> in64 v \<Longrightarrow> in64 d \<Longrightarrow> in64 (given x d)"
  by (cases x) (simp_all add: given_def)

lemma main_start_facts:
  assumes "main_start v = Inr (c, w)"
  shows "LoadFromFlags (e_udp_ok v) (e_tcp_ok v) (e_hostname v) (e_flags v) = Inr c"
    and "boot (e_resolver v) (\<lambda>a. \<not> isl (Listen (e_resolver v) (e_binds v) a)) (e_boot v) (e_now v) c = Inr w"
  using assms by (auto simp: main_start_def split: sum.splits)

lemma flags_fields:
  assumes "LoadFromFlags u t h f = Inr c"
  shows "ValidateClusterParams c = None \<and> cVersion c = 1 \<and>
     cPingEvery c = given (fPingEvery f) (cPingEvery (Defaults h)) \<and>
     cPingFanout c = given (fPingFanout f) (cPingFanout (Defaults h)) \<and>
     cGossipPeriod c = given (fGossipPeriod f) (cGossipPeriod (Defaults h)) \<and>
     cGossipFanout c = given (fGossipFanout f) (cGossipFanout (Defaults h)) \<and>
     cTSuspect c = given (fTSuspect f) (cTSuspect (Defaults h)) \<and>
     cTFail c = given (fTFail f) (cTFail (Defaults h)) \<and>
     cTCleanup c = given (fTCleanup f) (cTCleanup (Defaults h))"
proof -
  have "cVersion (Defaults h) = 1" by (simp add: Defaults_def)
  with assms show ?thesis
    unfolding LoadFromFlags_def Let_def by (simp split: if_splits option.splits) force+
qed

lemma flags_cfg_ok:
  assumes "LoadFromFlags u t h f = Inr c" and "flag_ints f"
  shows "cfg_ok c"
proof -
  have "cfg_ints (Defaults h)" using cfg_ok_Defaults [of h] by (simp add: cfg_ok_def)
  then show ?thesis
    using flags_fields [OF assms(1)] assms(2)
    by (simp add: cfg_ok_def cfg_ints_def flag_ints_def given_int Defaults_def)
qed

lemma main_reachable:
  "main_start v = Inr (c, w) \<Longrightarrow> reachable c (first_phase c, w)"
  using reachable.start [OF main_start_facts(2)] by (simp add: first_phase_def)

section \<open>The bootstrap part of the configuration\<close>

lemma cfg_moves:
  assumes "dstep c0 p q"
  shows "cfg (snd q) = cfg (snd p) \<or> (\<exists>d. cfg (snd q) = fst (ApplyDTO (cfg (snd p)) d))"
  using assms
proof (cases rule: dstep.cases)
  case (ping_receive r w ph rv input)
  obtain w1 where w1: "w1 = w \<or> (\<exists>d. w1 = onConfigFromWire d w)"
    "same_config w1 (fst (ping_recv (ping_at r) rv (UDP_Read (net_open w) input) w))"
    using ping_recv_config [of w r rv "UDP_Read (net_open w) input"] by metis
  from same_config_trans [OF w1(2) after_same(1)] w1(1) ping_receive show ?thesis
    by (auto simp: same_config_def ApplyRemote_def)
next
  case (gossip_receive r w ph rv input)
  obtain w1 where w1: "w1 = w \<or> (\<exists>d. w1 = onConfigFromWire d w)"
    "same_config w1 (fst (gossip_recv (gossip_at r) rv (UDP_Read (net_open w) input) w))"
    using gossip_recv_config [of w r rv "UDP_Read (net_open w) input"] by metis
  from same_config_trans [OF w1(2) after_same(2)] w1(1) gossip_receive show ?thesis
    by (auto simp: same_config_def ApplyRemote_def)
next
  case (scan v w w' ph)
  then show ?thesis by (auto simp: scan_world_def split: outcome.splits)
next
  case (ping_send w r ticker prev sv w' out period ph)
  then show ?thesis using ticks_same_sender(1) [OF ping_send(5)] by (simp add: same_config_def)
next
  case (gossip_send w r ticker prev sv w' out period ph)
  then show ?thesis using ticks_same_sender(2) [OF gossip_send(5)] by (simp add: same_config_def)
next
  case (introducer listensTCP w w' ph)
  then show ?thesis using introducer_same by (simp add: same_config_def)
next
  case (join_fails snap ord w w')
  then show ?thesis by (auto simp: join_request_def split: prod.splits)
next
  case (join_asks snap ord w w' j)
  then show ?thesis by (auto simp: join_request_def split: prod.splits)
next
  case (join_retry answer clk w w')
  then show ?thesis
    by (auto simp: join_response_def Let_def split_beta ApplyRemote_def split: option.splits if_splits)
next
  case (join_done answer clk w w')
  then show ?thesis
    by (auto simp: join_response_def Let_def split_beta ApplyRemote_def split: option.splits if_splits)
qed (use handlers_same in \<open>auto simp: same_config_def http_fst local_change_fst BumpAndApplyLocal_def
    Close_def ManagerRun_def ManagerEnd_def Let_def split: option.split\<close>)


lemma adopt_bootstrap: "adopt c d = d \<Longrightarrow> adopt c (fst (ApplyDTO d x)) = fst (ApplyDTO d x)"
proof -
  assume d: "adopt c d = d"
  have "adopt d k = adopt c k" for k using adopt_simps(6) [of c d k] d by simp
  then show "adopt c (fst (ApplyDTO d x)) = fst (ApplyDTO d x)"
    using d by (cases rule: ApplyDTO_cases [of x d]) simp_all
qed

text \<open>
  Along every run from a start: the states are reachable, the bootstrap part of the configuration and the
  identity stay, and the version never falls.
\<close>

lemma run_keeps:
  assumes "(dstep c)\<^sup>*\<^sup>* p q" and "reachable c p" and "ValidateClusterParams c = None"
    and "adopt c (cfg (snd p)) = cfg (snd p)"
  shows "reachable c q \<and> adopt c (cfg (snd q)) = cfg (snd q) \<and> grows (snd p) (snd q)"
  using assms
proof (induction rule: rtranclp_induct)
  case base
  then show ?case by simp
next
  case (step q r)
  then have q: "reachable c q" "adopt c (cfg (snd q)) = cfg (snd q)" "grows (snd p) (snd q)" by auto
  have "grows (snd q) (snd r)"
    using dstep_ok [OF step.hyps(2)] reachable_inv [OF q(1) step.prems(2)] by (simp add: world_ok_def)
  moreover have "adopt c (cfg (snd r)) = cfg (snd r)"
    using cfg_moves [OF step.hyps(2)] q(2) adopt_bootstrap by auto
  ultimately show ?case using q grows_trans reachable.step [OF q(1) step.hyps(2)] by blast
qed

lemma boot_cfg: "boot r l t now c = Inr w \<Longrightarrow> cfg w = c \<and> TimeStamp (SelfID (st w)) = t"
  by (auto simp: boot_def Let_def NewStore_def NewNodeID_def SelfID_def split: sum.splits if_splits)

text \<open>A start as the introducer with the default parameters.\<close>

definition no_flags :: Flags where
  "no_flags = \<lparr>fBind = None, fSelf = None, fIntroducer = None, fIsIntroducer = None, fAdmin = None,
     fMode = None, fPingEvery = None, fPingFanout = None, fGossipPeriod = None, fGossipFanout = None,
     fTSuspect = None, fTFail = None, fTCleanup = None, fDropRecv = None\<rparr>"

lemma admin_8080: "validateAdminAddr t ('':8080'') = None"
  by (simp add: validateAdminAddr_def Atoi_def Let_def all_digits_def is_digit_def val10_def digit_val_def
      int64_defs)

lemma sample_flags_load:
  "LoadFromFlags (\<lambda>_. True) (\<lambda>_. True) ''a'' (no_flags\<lparr>fIsIntroducer := Some True\<rparr>) =
     Inr ((Defaults ''a'')\<lparr>cIsIntroducer := True\<rparr>)"
  using admin_8080 cfg_ok_Defaults [of "''a''"]
  by (simp add: LoadFromFlags_def no_flags_def Defaults_def given_def ValidateLocalBootstrap_def
        validateUDPAddr_def cfg_ok_def ValidateClusterParams_def Let_def ms_def split: if_splits)

section \<open>Properties\<close>

text \<open>
  When operations are atomic, a program that gets past its start runs safely. Whatever the flags say, if \<open>main\<close> starts a daemon, then
  the flags name exactly one of an introducer and the role of one, and in every state that the process
  then gets into, nothing has panicked, the cluster parameters are valid, their version is at least 1, the
  bootstrap part of the configuration is the one from the flags, the identity is the one of the boot, and
  every protocol loop, stopped or not, has a positive period, which its ticker needs, and fan-out.
\<close>

theorem main_runs_safely:
  assumes "main_start v = Inr (c, w0)" and "(dstep c)\<^sup>*\<^sup>* (first_phase c, w0) (ph, w)"
  shows "(cIsIntroducer c \<longleftrightarrow> cIntroducer c = []) \<and> e_udp_ok v (cSelfAddr c) \<and>
     \<not> panicked w \<and> ValidateClusterParams (cfg w) = None \<and> 1 \<le> cVersion (cfg w) \<and>
     adopt c (cfg w) = cfg w \<and> SelfID (st w) = SelfID (st w0) \<and> TimeStamp (SelfID (st w)) = e_boot v \<and>
     (\<forall>r l. pings w r = Some l \<longrightarrow> 0 < PingEvery l \<and> 0 < PingFanout l) \<and>
     (\<forall>r l. gossips w r = Some l \<longrightarrow> 0 < GossipPeriod l \<and> 0 < GossipFanout l)"
proof -
  note f = main_start_facts [OF assms(1)]
  have c: "ValidateClusterParams c = None" "cVersion c = 1" using flags_fields [OF f(1)] by simp_all
  have b: "cfg w0 = c" "TimeStamp (SelfID (st w0)) = e_boot v" using boot_cfg [OF f(2)] by simp_all
  have "reachable c (ph, w)" "adopt c (cfg w) = cfg w" "grows w0 w"
    using run_keeps [OF assms(2) main_reachable [OF assms(1)] c(1)] b(1) by simp_all
  moreover have "(cIsIntroducer c \<longleftrightarrow> cIntroducer c = []) \<and> e_udp_ok v (cSelfAddr c)"
    using f(1) by (auto simp: LoadFromFlags_def Let_def ValidateLocalBootstrap_def validateUDPAddr_def
        split: if_splits option.splits)
  ultimately show ?thesis
    using reachable_inv [of c "(ph, w)"] reachable_tuned [of c "(ph, w)"] b c
    by (simp add: tuned_def daemon_inv_def heap_inv_def grows_def SelfID_def)
qed


text \<open>The same, on node 1.\<close>

definition sample_env :: start_env where
  "sample_env = \<lparr>e_udp_ok = (\<lambda>_. True), e_tcp_ok = (\<lambda>_. True), e_hostname = ''a'',
     e_flags = no_flags\<lparr>fIsIntroducer := Some True\<rparr>, e_resolver = (\<lambda>_. Some (Some [10, 0, 0, 1], 5000)),
     e_binds = (\<lambda>_. True), e_boot = 7, e_now = at_wall 5\<rparr>"

definition sample_introducer :: Config where
  "sample_introducer = (Defaults ''a'')\<lparr>cIsIntroducer := True\<rparr>"

lemma sample_main: "main_start sample_env = Inr (sample_introducer, sample_world 1 sample_introducer)"
  using sample_flags_load boot_sample [of 1 sample_introducer]
  by (simp add: main_start_def sample_env_def sample_introducer_def Listen_def)

lemma sample_introducer_simps [simp]: "cIsIntroducer sample_introducer" "first_phase sample_introducer = Booted"
  by (simp_all add: sample_introducer_def first_phase_def)

theorem main_runs_safely_witness:
  "let w = startProtocol sample_introducer (sample_world 1 sample_introducer)
   in main_start sample_env = Inr (sample_introducer, sample_world 1 sample_introducer) \<and>
      \<not> panicked w \<and> 1 \<le> cVersion (cfg w) \<and> SelfID (st w) = node 1 7"
proof -
  have "(dstep sample_introducer)\<^sup>*\<^sup>* (first_phase sample_introducer, sample_world 1 sample_introducer)
      (Serving, startProtocol sample_introducer (sample_world 1 sample_introducer))"
    by (simp add: r_into_rtranclp dstep.serve)
  from main_runs_safely [OF sample_main this] sample_main show ?thesis
    by (simp add: Let_def SelfID_def NewStore_def)
qed

end
