(* ===== verification/Network.thy ===== *)
theory Network
  imports StoreLaw Memberd
begin

text \<open>
  The cluster as a whole: any number of processes (\<open>Memberd\<close>, \<open>DaemonSteps\<close>) that start, run, are
  killed and start again, and the packets they have sent. A packet that was sent once may arrive any
  number of times, at any process, at any later time or never; whatever else arrives is a text that no
  receiver can decode. The state also records histories, which no process reads: what the processes
  have said of themselves, who was asked to leave, whom a scan has found silent, and the
  configurations that were written by a start or an administrator.
\<close>

section \<open>Packets\<close>

text \<open>Datagrams, and the requests and responses of joining.\<close>

datatype packet = Udp json | Req json | Resp json

text \<open>What a reader takes from the network: nothing that counts, unless the text can be decoded.\<close>

definition taken :: "(json \<Rightarrow> packet) \<Rightarrow> (json \<Rightarrow> 'm option) \<Rightarrow> json option \<Rightarrow> packet set" where
  "taken pack decode b =
     (case b of None \<Rightarrow> {} | Some j \<Rightarrow> if decode j = None then {} else {pack j})"

definition datagram :: "'a read \<Rightarrow> json option" where
  "datagram input = (case input of ReadError \<Rightarrow> None | Datagram b _ \<Rightarrow> b)"

definition replies :: "'a received \<Rightarrow> packet set" where
  "replies r = (case r of Continue out \<Rightarrow> (\<lambda>x. Udp (fst x)) ` set out | Stopped \<Rightarrow> {})"

definition packed :: "(json \<Rightarrow> packet) \<Rightarrow> json option \<Rightarrow> packet set" where
  "packed pack b = (case b of None \<Rightarrow> {} | Some j \<Rightarrow> {pack j})"

text \<open>What the calls of \<open>WriteTo\<close> put on the network.\<close>

definition written :: "bool \<Rightarrow> (json \<times> 'a) list \<Rightarrow> packet set" where
  "written is_open out = (\<lambda>x. Udp (fst x)) ` set (concat (map (UDP_WriteTo is_open) out))"

lemma written_sub: "written is_open out \<subseteq> (\<lambda>x. Udp (fst x)) ` set out"
  using UDP_writes by (fastforce simp: written_def)

lemma written_open [simp]: "written True out = (\<lambda>x. Udp (fst x)) ` set out"
  by (simp add: written_def UDP_WriteTo_def)

section \<open>A process and its packets\<close>

text \<open>The goroutines of a process; every request to a server has one of its own.\<close>

datatype goroutine =
  PingRx nat | PingTx nat | GossipRx nat | GossipTx nat | Scanner | Main | Accepting | Handler nat

text \<open>
  The steps of \<open>dstep\<close> in which a goroutine makes a single access to the shared state, with the packets
  that it sends. Nothing that is read in them can be decoded.
\<close>

inductive solo_step :: "Config \<Rightarrow> goroutine \<Rightarrow> phase \<times> World \<Rightarrow> packet set \<Rightarrow> phase \<times> World \<Rightarrow> bool"
  for c0 :: Config where
  rate: "mgr_waits w \<Longrightarrow> solo_step c0 Scanner (ph, w) {} (ph, w\<lparr>sm := rate_tick (sm w)\<rparr>)"
| ping_begin: "pings w r = Some l \<Longrightarrow>
    solo_step c0 (PingTx r) (ph, w) {} (ph, with_ping_sender r (sender_read (PingEvery l)) w)"
| ping_quit: "pings w r = Some l \<Longrightarrow> PStop l \<Longrightarrow>
    solo_step c0 (PingTx r) (ph, w) {} (ph, with_ping_sender r sender_stop w)"
| gossip_begin: "gossips w r = Some g \<Longrightarrow>
    solo_step c0 (GossipTx r) (ph, w) {} (ph, with_gossip_sender r (sender_read (GossipPeriod g)) w)"
| gossip_quit: "gossips w r = Some g \<Longrightarrow> GStop g \<Longrightarrow>
    solo_step c0 (GossipTx r) (ph, w) {} (ph, with_gossip_sender r sender_stop w)"
| join_fails: "join_request snap ord w = (w', None) \<Longrightarrow> solo_step c0 Main (Joining, w) {} (Joining, w')"
| join_asks: "join_request snap ord w = (w', Some j) \<Longrightarrow> solo_step c0 Main (Joining, w) {Req j} (Asked, w')"
| join_lost: "Option.bind answer DecodeJoinResponse = None \<Longrightarrow> solo_step c0 Main (Asked, w) {} (Joining, w)"
| serve: "solo_step c0 Main (Booted, w) {} (Serving, startProtocol c0 w)"
| introducer: "cIsIntroducer c0 \<Longrightarrow> startIntroducerServer listensTCP (cIntroducerBindAddr c0) w = Running w' \<Longrightarrow>
    solo_step c0 Accepting (ph, w) {} (ph, w')"
| list_mem: "solo_step c0 (Handler h) (Serving, w) {} (Serving, fst (http_list_mem snap ord w))"
| suspects: "solo_step c0 (Handler h) (Serving, w) {} (Serving, fst (http_display_suspects snap ord w))"
| manager: "mgr_stop w = None \<Longrightarrow> solo_step c0 Scanner (ph, w) {} (ph, ManagerRun w)"
| manager_end: "mgr_stop w = Some True \<Longrightarrow> solo_step c0 Scanner (ph, w) {} (ph, ManagerEnd w)"
| shutdown: "mgr_stop w = Some False \<Longrightarrow> solo_step c0 Main (Serving, w) {} (Closed, Close w)"

text \<open>
  All steps of \<open>dstep\<close> apart from the scan and from those of the administrator that write, with the
  packets that are read and sent.
\<close>

inductive pstep :: "Config \<Rightarrow> phase \<times> World \<Rightarrow> packet set \<Rightarrow> packet set \<Rightarrow> phase \<times> World \<Rightarrow> bool"
  for c0 :: Config where
  solo: "solo_step c0 g p outs q \<Longrightarrow> pstep c0 p {} outs q"
| ping_receive: "r \<in> ping_threads w \<Longrightarrow> UDP_Read (net_open w) (inp :: string read) = input \<Longrightarrow>
    ping_recv (ping_at r) rv input w = res \<Longrightarrow>
    pstep c0 (ph, w) (taken Udp DecodeMessage (datagram input)) (replies (snd res)) (ph, after_ping r res)"
| ping_send: "pings w r \<noteq> None \<Longrightarrow> ping_senders w r = Ticking ticker prev \<Longrightarrow>
    ping_tick (ping_at r) sv prev w = (w', out, period) \<Longrightarrow>
    pstep c0 (ph, w) {} (written (net_open w) out) (ph, with_ping_sender r (sender_ticked period) w')"
| gossip_receive: "r \<in> gossip_threads w \<Longrightarrow> UDP_Read (net_open w) (inp :: string read) = input \<Longrightarrow>
    gossip_recv (gossip_at r) rv input w = res \<Longrightarrow>
    pstep c0 (ph, w) (taken Udp DecodeMessage (datagram input)) (replies (snd res)) (ph, after_gossip r res)"
| gossip_send: "gossips w r \<noteq> None \<Longrightarrow> gossip_senders w r = Ticking ticker prev \<Longrightarrow>
    gossip_tick (gossip_at r) sv prev w = (w', out, period) \<Longrightarrow>
    pstep c0 (ph, w) {} (written (net_open w) out) (ph, with_gossip_sender r (sender_ticked period) w')"
| join_done: "join_response answer clk w = (w', True) \<Longrightarrow>
    pstep c0 (Asked, w) (taken Resp DecodeJoinResponse answer) {} (Booted, w')"
| introduce: "cIsIntroducer c0 \<Longrightarrow> accepting w \<Longrightarrow> handleJoin clk snap ord msg w = (w', out) \<Longrightarrow>
    pstep c0 (ph, w) (taken Req DecodeJoinRequest msg) (packed Resp out) (ph, w')"

lemma solo_dstep: "solo_step c0 g p outs q \<Longrightarrow> dstep c0 p q"
proof (induction rule: solo_step.induct)
  case (join_lost answer w)
  then show ?case by (intro dstep.join_retry [of answer]) (simp add: join_response_def)
qed (auto intro: dstep.intros)

lemma pstep_dstep: "pstep c0 p ins outs q \<Longrightarrow> dstep c0 p q"
proof (induction rule: pstep.induct)
  case (introduce w clk snap ord msg w' out ph)
  then show ?case using dstep.introduce [of c0 w ph clk snap ord msg] by simp
next
  case (ping_receive r w inp input rv res ph)
  then show ?case using dstep.ping_receive [of r w c0 ph rv inp] by simp
next
  case (gossip_receive r w inp input rv res ph)
  then show ?case using dstep.gossip_receive [of r w c0 ph rv inp] by simp
qed (auto intro: dstep.intros solo_dstep)

section \<open>The network\<close>

type_synonym claims = "(NodeID \<times> u64 \<times> State) set"
type_synonym accusations = "(NodeID \<times> u64) set"

record Net =
  procs :: "nat \<Rightarrow> (Config \<times> phase \<times> World) option"
  packets :: "packet set"
  said :: claims
  leavers :: "NodeID set"
  accused :: accusations
  made :: "ConfigDTO set"

text \<open>What a process says of itself: identity, incarnation and state in its entry for itself.\<close>

definition own_claims :: "Store \<Rightarrow> claims" where
  "own_claims s =
     (case entries s (key_of (selfID s)) of
        None \<Rightarrow> {}
      | Some e \<Rightarrow> if ID e = selfID s then {(ID e, Incarnation e, EState e)} else {})"

definition put_proc :: "nat \<Rightarrow> Config \<Rightarrow> phase \<times> World \<Rightarrow> Net \<Rightarrow> Net" where
  "put_proc i c p N =
     N\<lparr>procs := (procs N)(i \<mapsto> (c, p)), said := said N \<union> own_claims (st (snd p))\<rparr>"

text \<open>
  The members that a scan finds silent for long enough to be accused, at the incarnations it knows.
\<close>

definition silent :: "tick_env \<Rightarrow> World \<Rightarrow> accusations" where
  "silent v w =
     (\<lambda>e. (ID e, Incarnation e)) ` set (filter (overdue (t_now v) (TSuspect (sm w)) (TFail (sm w)))
       (fst (Snapshot (t_snap1 v) (t_ord1 v) (st w))))"

definition no_net :: Net where
  "no_net = \<lparr>procs = Map.empty, packets = {}, said = {}, leavers = {}, accused = {}, made = {}\<rparr>"

inductive nstep :: "Net \<Rightarrow> Net \<Rightarrow> bool" where
  boot: "procs N i = None \<Longrightarrow> flag_ints (e_flags v) \<Longrightarrow> main_start v = Inr (c, w) \<Longrightarrow>
    nstep N ((put_proc i c (first_phase c, w) N)\<lparr>made := insert (ToDTO c) (made N)\<rparr>)"
| move: "procs N i = Some (c, p) \<Longrightarrow> pstep c p ins outs q \<Longrightarrow> ins \<subseteq> packets N \<Longrightarrow>
    nstep N ((put_proc i c q N)\<lparr>packets := packets N \<union> outs\<rparr>)"
| scan: "procs N i = Some (c, ph, w) \<Longrightarrow> scan_world v w = Running w' \<Longrightarrow> mgr_waits w \<Longrightarrow>
    nstep N ((put_proc i c (ph, w') N)\<lparr>accused := accused N \<union> silent v w\<rparr>)"
| set_config: "procs N i = Some (c, Serving, w) \<Longrightarrow> w' = fst (http_set text w) \<Longrightarrow>
    nstep N ((put_proc i c (Serving, w') N)\<lparr>made := insert (ToDTO (cfg w')) (made N)\<rparr>)"
| switch: "procs N i = Some (c, Serving, w) \<Longrightarrow> w' = fst (http_switch body w) \<Longrightarrow>
    nstep N ((put_proc i c (Serving, w') N)\<lparr>made := insert (ToDTO (cfg w')) (made N)\<rparr>)"
| leave: "procs N i = Some (c, Serving, w) \<Longrightarrow> w' = fst (http_leave snap ord now w) \<Longrightarrow>
    nstep N ((put_proc i c (Serving, w') N)\<lparr>leavers := insert (SelfID (st w)) (leavers N)\<rparr>)"
| die: "nstep N (N\<lparr>procs := (procs N)(i := None)\<rparr>)"

inductive nreach :: "Net \<Rightarrow> bool" where
  init: "nreach no_net"
| step: "nreach N \<Longrightarrow> nstep N N' \<Longrightarrow> nreach N'"

section \<open>One datagram\<close>

text \<open>
  The effects of one iteration of a receive loop, one by one: the callback with the configuration of
  the message, snapshots, the merge of its list, and changes of the tables.
\<close>

inductive rx :: "Message \<Rightarrow> World \<Rightarrow> World \<Rightarrow> bool" for m :: Message where
  callback: "MCfg m = Some d \<Longrightarrow> rx m w (onConfigFromWire d w)"
| snapshot: "Snapshot now ord (st w) = (list, self, s) \<Longrightarrow> rx m w (w\<lparr>st := s\<rparr>)"
| merge: "rx m w (w\<lparr>st := MergeFullList clk (st w) (MList m)\<rparr>)"
| table: "rx m w (w\<lparr>tables := t\<rparr>)"

lemma rx_config:
  "on_config ops = Some onConfigFromWire \<Longrightarrow> (rx m)\<^sup>*\<^sup>* w (apply_config ops m w)"
  by (auto simp: apply_config_def intro: rx.callback split: option.split)

lemma rx_snapshot:
  assumes "get_store ops = st" and "set_store ops = (\<lambda>s w. w\<lparr>st := s\<rparr>)"
    and "take_snapshot ops now ord w = (list, self, w')" and "(rx m)\<^sup>*\<^sup>* v w"
  shows "(rx m)\<^sup>*\<^sup>* v w'"
proof -
  have "rx m w w'" using assms(1-3) by (auto simp: take_snapshot_def intro: rx.snapshot split: prod.splits)
  with assms(4) show ?thesis by simp
qed

lemma rx_merge:
  assumes "get_store ops = st" and "set_store ops = (\<lambda>s w. w\<lparr>st := s\<rparr>)" and "(rx m)\<^sup>*\<^sup>* v w"
  shows "(rx m)\<^sup>*\<^sup>* v (merge_list ops clk (MList m) w)"
proof -
  have "rx m w (merge_list ops clk (MList m) w)" using assms(1,2) by (simp add: merge_list_def rx.merge)
  with assms(3) show ?thesis by simp
qed

lemma rx_table: "(rx m)\<^sup>*\<^sup>* v w \<Longrightarrow> (rx m)\<^sup>*\<^sup>* v (set_table (ping_at r) i t w)"
proof -
  have "rx m w (set_table (ping_at r) i t w)" by (simp add: ping_at_def rx.table)
  then show "(rx m)\<^sup>*\<^sup>* v w \<Longrightarrow> (rx m)\<^sup>*\<^sup>* v (set_table (ping_at r) i t w)" by simp
qed

text \<open>The decoded message behind an iteration that did something.\<close>

definition rx_from :: "'a read \<Rightarrow> World \<Rightarrow> World \<Rightarrow> bool" where
  "rx_from input w w' \<longleftrightarrow>
     w' = w \<or> (\<exists>b m. datagram input = Some b \<and> DecodeMessage b = Some m \<and> (rx m)\<^sup>*\<^sup>* w w')"

lemma gossip_recv_rx:
  "rx_from input w (fst (gossip_recv (gossip_at r) v input w)) \<and>
   replies (snd (gossip_recv (gossip_at r) v input w)) = {}"
proof (cases "gossip_recv (gossip_at r) v input w = (w, Stopped) \<or> gossip_recv (gossip_at r) v input w = (w, Continue [])")
  case True
  then show ?thesis by (auto simp: rx_from_def replies_def)
next
  case False
  let ?ops = "world_ops.truncate (gossip_at r)"
  obtain b src m where i: "input = Datagram (Some b) src" "DecodeMessage b = Some m"
    "\<not> drops (GDropRateRecv (get_gossip (gossip_at r) w)) (r_coin v)"
    using False by (auto simp: gossip_recv_def decode_datagram_def bind_eq_Some_conv split: read.splits if_splits option.splits)
  obtain list self w2 where s: "take_snapshot ?ops (r_snap v) (r_ord v) (apply_config ?ops m w) = (list, self, w2)"
    by (metis prod.exhaust)
  have 2: "(rx m)\<^sup>*\<^sup>* w w2" by (rule rx_snapshot [OF _ _ s]) (simp_all add: rx_config)
  have 3: "(rx m)\<^sup>*\<^sup>* w (merge_list ?ops (r_clk v) (MList m) w2)" by (rule rx_merge) (simp_all add: 2)
  show ?thesis
    using i s 2 3 by (auto simp: gossip_recv_def decode_datagram_def rx_from_def datagram_def replies_def Let_def)
qed

text \<open>A reply of the ping loop: the snapshot that ends the iteration, with the loop's configuration.\<close>

definition answers :: "nat \<Rightarrow> World \<Rightarrow> json \<Rightarrow> bool" where
  "answers r w j \<longleftrightarrow>
     (\<exists>m now ord v list self. EncodeMessage m = Some j \<and> MList m = list \<and>
        Snapshot now ord v = (list, self, st w) \<and> MCfg m = Some (PcfgDTO (get_ping (ping_at r) w)))"

lemma ping_recv_rx:
  "rx_from input w (fst (ping_recv (ping_at r) v input w)) \<and>
   (\<forall>x \<in> replies (snd (ping_recv (ping_at r) v input w)). \<exists>j. x = Udp j \<and> answers r (fst (ping_recv (ping_at r) v input w)) j)"
proof (cases "ping_recv (ping_at r) v input w = (w, Stopped) \<or> ping_recv (ping_at r) v input w = (w, Continue [])")
  case True
  then show ?thesis by (auto simp: rx_from_def replies_def)
next
  case False
  let ?ops = "world_ops.truncate (ping_at r)"
  obtain b src m where i: "input = Datagram (Some b) src" "DecodeMessage b = Some m"
    "\<not> drops (PDropRateRecv (get_ping (ping_at r) w)) (r_coin v)"
    using False by (auto simp: ping_recv_def decode_datagram_def bind_eq_Some_conv split: read.splits if_splits option.splits)
  obtain list self w2 where s: "take_snapshot ?ops (r_snap v) (r_ord v) (apply_config ?ops m w) = (list, self, w2)"
    by (metis prod.exhaust)
  let ?w3 = "merge_list ?ops (r_clk v) (MList m) w2"
  obtain list2 self2 w4 where s2: "take_snapshot ?ops (r_snap2 v) (r_ord2 v) ?w3 = (list2, self2, w4)"
    by (metis prod.exhaust)
  have 2: "(rx m)\<^sup>*\<^sup>* w w2" by (rule rx_snapshot [OF _ _ s]) (simp_all add: rx_config)
  have 3: "(rx m)\<^sup>*\<^sup>* w ?w3" by (rule rx_merge) (simp_all add: 2)
  have 4: "(rx m)\<^sup>*\<^sup>* w w4" by (rule rx_snapshot [OF _ _ s2]) (simp_all add: 3)
  have 5: "(rx m)\<^sup>*\<^sup>* w (merge_list ?ops (r_clk v) (MList m) (set_table (ping_at r) k t w2))" for k t
    by (rule rx_merge) (simp_all add: rx_table [OF 2])
  have "Snapshot (r_snap2 v) (r_ord2 v) (st ?w3) = (list2, self2, st w4)"
    using s2 by (auto simp: take_snapshot_def split: prod.splits)
  then have a: "answers r w4 j"
    if "EncodeMessage \<lparr>MType = MsgAck, MNonce = MNonce m, MList = list2, MCfg = Some (PcfgDTO (get_ping (ping_at r) w4))\<rparr> = Some j" for j
    using that unfolding answers_def by (intro exI conjI) (assumption | simp)+
  show ?thesis
    using i s s2 2 3 4 5 a
    by (auto simp: ping_recv_def decode_datagram_def rx_from_def datagram_def replies_def Let_def split: option.split)
qed

end
