(* ===== verification/ProcLaw.thy ===== *)
theory ProcLaw
  imports Network
begin

text \<open>
  What the steps of a process guarantee about its entries, its configuration and the packets it sends.
  The entries half holds for every law of \<open>StoreLaw\<close>: the locale \<open>talk_law\<close> adds to \<open>entry_law\<close> what may
  be assumed of the entries that arrive, and what is promised of those that are sent. The configuration
  half uses that only a few operations write configurations.
\<close>

section \<open>Where configurations come from\<close>

text \<open>The boot configuration, the current one, and those that the loops send along.\<close>

definition from_made :: "ConfigDTO set \<Rightarrow> Config \<Rightarrow> World \<Rightarrow> bool" where
  "from_made M c w \<longleftrightarrow> ToDTO c \<in> M \<and> ToDTO (cfg w) \<in> M \<and> cfg_ok (cfg w) \<and>
     (\<forall>r l. pings w r = Some l \<longrightarrow> PcfgDTO l \<in> M) \<and> (\<forall>r l. gossips w r = Some l \<longrightarrow> GcfgDTO l \<in> M)"

definition whole :: "ConfigDTO set \<Rightarrow> bool" where
  "whole M \<longleftrightarrow> M \<subseteq> ToDTO ` {c. cfg_ok c}"

lemma from_made_same: "same_config w w' \<Longrightarrow> from_made M c w \<Longrightarrow> from_made M c w'"
  by (simp add: from_made_def same_config_def)

lemma from_made_mono: "from_made M c w \<Longrightarrow> M \<subseteq> M' \<Longrightarrow> from_made M' c w"
  by (auto simp: from_made_def)

lemma from_made_cong:
  "pings w' = pings w \<Longrightarrow> gossips w' = gossips w \<Longrightarrow> cfg w' = cfg w \<Longrightarrow> from_made M c w' = from_made M c w"
  by (simp add: from_made_def)

lemma from_made_stop: "from_made M c w \<Longrightarrow> from_made M c (stopPingAck w)" "from_made M c w \<Longrightarrow> from_made M c (stopGossip w)"
  by (auto simp: from_made_def stopPingAck_def stopGossip_def PingClose_def GossipClose_def bind_eq_Some_conv
      split: option.split if_splits)

lemma from_made_start: "from_made M c w \<Longrightarrow> ToDTO c' \<in> M \<Longrightarrow> from_made M c (startProtocol c' w)"
  using from_made_stop [of M c w]
  by (auto simp: startProtocol_def Let_def from_made_def NewPingAck_def NewGossip_def PingSetConfigDTO_def
      GossipSetConfigDTO_def)

lemma from_made_loops:
  "from_made M c w \<Longrightarrow> from_made M c (reconfigurePing c' w)" "from_made M c w \<Longrightarrow> from_made M c (reconfigureGossip c' w)"
  "from_made M c w \<Longrightarrow> from_made M c (reconfigureManager c' w)"
  "from_made M c w \<Longrightarrow> d \<in> M \<Longrightarrow> from_made M c (refreshDTO d w)"
  by (auto simp: from_made_def reconfigurePing_def reconfigureGossip_def reconfigureManager_def refreshDTO_def
      PingReconfigure_def GossipReconfigure_def PingSetConfigDTO_def GossipSetConfigDTO_def Let_def
      split: option.split)

lemma from_made_runtime: "from_made M c w \<Longrightarrow> ToDTO c' \<in> M \<Longrightarrow> from_made M c (applyRuntime p c' w)"
proof -
  assume a: "from_made M c w" "ToDTO c' \<in> M"
  define w1 where "w1 = (if cMode c' = ModePingAck then
                  (if cMode p \<noteq> cMode c' \<or> loopPA w = None then startProtocol c' w else reconfigurePing c' w)
                else if cMode c' = ModeGossip then
                  (if cMode p \<noteq> cMode c' \<or> loopGo w = None then startProtocol c' w else reconfigureGossip c' w)
                else w)"
  define w2 where "w2 = reconfigureManager c' w1"
  have "from_made M c w1" using a by (simp add: w1_def from_made_start from_made_loops)
  then have "from_made M c w2" by (simp add: w2_def from_made_loops)
  then have "from_made M c (w2\<lparr>st := StoreReconfigure (st w2) c'\<rparr>)" by (simp add: from_made_def)
  then show ?thesis using a(2) by (simp add: applyRuntime_def Let_def w1_def w2_def from_made_loops)
qed

text \<open>A configuration that is adopted from a message is one that was made.\<close>

lemma adopted_dto:
  assumes "whole M" and "d \<in> M" and "ToDTO c \<in> M" and "cfg_ok c"
  shows "ToDTO (fst (ApplyRemote c d)) \<in> M \<and> cfg_ok (fst (ApplyRemote c d))"
proof -
  obtain k where k: "d = ToDTO k" "cfg_ok k" using assms(1,2) by (auto simp: whole_def)
  show ?thesis
  proof (cases "cVersion c < cVersion k")
    case True
    then show ?thesis using ApplyDTO_ToDTO [OF k(2), of c] k assms(2) by (simp add: ApplyRemote_def)
  next
    case False
    then show ?thesis using k(1) assms(3,4) by (simp add: ApplyRemote_def)
  qed
qed

lemma from_made_commit:
  assumes "whole M" and "d \<in> M" and "from_made M c w"
  shows "from_made M c (fst (commit_remote d w))"
    and "from_made M c (applyRuntime p (cfg (fst (commit_remote d w))) (fst (commit_remote d w)))"
proof -
  have d: "ToDTO (cfg (fst (commit_remote d w))) \<in> M" "cfg_ok (cfg (fst (commit_remote d w)))"
    using assms adopted_dto by (simp_all add: from_made_def)
  show "from_made M c (fst (commit_remote d w))"
    using assms(3) d by (auto simp: from_made_def commit_remote_def split_beta)
  then show "from_made M c (applyRuntime p (cfg (fst (commit_remote d w))) (fst (commit_remote d w)))"
    using d(1) by (rule from_made_runtime)
qed

lemma from_made_callback:
  assumes "whole M" and "d \<in> M" and "from_made M c w"
  shows "from_made M c (onConfigFromWire d w)"
  using from_made_commit [OF assms] by (simp add: onConfigFromWire_def Let_def split_beta)


section \<open>Packets\<close>

definition entries_ok :: "(MemberEntry \<Rightarrow> bool) \<Rightarrow> MemberEntry list \<Rightarrow> bool" where
  "entries_ok B es \<longleftrightarrow> (\<forall>e \<in> set es. B e \<and> Is4 (IP (EP (ID e))))"

text \<open>What a receiver can read in a packet.\<close>

fun packet_ok :: "(MemberEntry \<Rightarrow> bool) \<Rightarrow> ConfigDTO set \<Rightarrow> packet \<Rightarrow> bool" where
  "packet_ok B M (Udp j) =
     (\<forall>m. DecodeMessage j = Some m \<longrightarrow> entries_ok B (MList m) \<and> (\<forall>d. MCfg m = Some d \<longrightarrow> d \<in> M))"
| "packet_ok B M (Req j) = (\<forall>q. DecodeJoinRequest j = Some q \<longrightarrow> entries_ok B (QList q))"
| "packet_ok B M (Resp j) =
     (\<forall>r. DecodeJoinResponse j = Some r \<longrightarrow> entries_ok B (RList r) \<and> RConfigDTO r \<in> M)"

lemma entries_ok_mono: "entries_ok B es \<Longrightarrow> (\<And>e. B e \<Longrightarrow> B' e) \<Longrightarrow> entries_ok B' es"
  by (auto simp: entries_ok_def)

lemma packet_ok_mono:
  "packet_ok B M x \<Longrightarrow> (\<And>e. B e \<Longrightarrow> B' e) \<Longrightarrow> M \<subseteq> M' \<Longrightarrow> packet_ok B' M' x"
  using entries_ok_mono [of B _ B'] by (cases x) (auto 0 4)

lemma entries_ok_wire:
  assumes "all_ipv4 es" and "\<forall>e \<in> set es. B (on_wire e)"
  shows "entries_ok B (map on_wire es)"
proof -
  have "ID (on_wire e) = ID e" for e by (simp add: on_wire_def)
  with assms show ?thesis by (auto simp: entries_ok_def all_ipv4_def list_all_iff)
qed

lemma encodable_dto:
  assumes "whole M" and "d \<in> M" and "enc_dto d \<noteq> None"
  shows "sane_dto d"
proof -
  obtain k where k: "d = ToDTO k" "cfg_ok k" using assms(1,2) by (auto simp: whole_def)
  have "cDropRateRecv k \<noteq> NaN"
    using assms(3) k(1) by (auto simp: enc_dto_def enc_float_def ToDTO_def)
  then show ?thesis using sane_ToDTO k by simp
qed

lemma sent_message_ok:
  assumes "EncodeMessage m = Some j" and "MCfg m = Some d" and "d \<in> M" and "whole M"
    and "\<forall>e \<in> set (MList m). B (on_wire e)"
  shows "packet_ok B M (Udp j)"
proof -
  have "enc_dto d \<noteq> None" using assms(1,2) by (auto simp: EncodeMessage_def split: option.splits)
  then have "sane_dto d" by (rule encodable_dto [OF assms(4,3)])
  then have "DecodeMessage j = (if all_ipv4 (MList m) then Some (m\<lparr>MList := map on_wire (MList m)\<rparr>) else None)"
    using message_decodes [of m] assms(1,2) by simp
  then show ?thesis using assms(2,3,5) entries_ok_wire by auto
qed

lemma sent_request_ok:
  assumes "EncodeJoinRequest q = Some j" and "\<forall>e \<in> set (QList q). B (on_wire e)"
  shows "packet_ok B M (Req j)"
proof -
  have "timely (QList q)"
    using assms(1) enc_list_timely [of "QList q"] by (auto simp: EncodeJoinRequest_def split: option.splits)
  then have "DecodeJoinRequest j = (if all_ipv4 (QList q) then Some (q\<lparr>QList := map on_wire (QList q)\<rparr>) else None)"
    using join_decodes [of "\<lparr>RConfigDTO = ToDTO (Defaults []), RList = []\<rparr>" q] assms(1) by (simp add: timely_def)
  then show ?thesis using assms(2) entries_ok_wire by auto
qed

lemma sent_response_ok:
  assumes "EncodeJoinResponse r = Some j" and "RConfigDTO r \<in> M" and "whole M"
    and "\<forall>e \<in> set (RList r). B (on_wire e)"
  shows "packet_ok B M (Resp j)"
proof -
  have "enc_dto (RConfigDTO r) \<noteq> None" "timely (RList r)"
    using assms(1) enc_list_timely [of "RList r"] by (auto simp: EncodeJoinResponse_def split: option.splits)
  then have "DecodeJoinResponse j = (if all_ipv4 (RList r) then Some (r\<lparr>RList := map on_wire (RList r)\<rparr>) else None)"
    using join_decodes [of r "\<lparr>QList = []\<rparr>"] encodable_dto [OF assms(3,2)] assms(1) by (simp add: timely_def)
  then show ?thesis using assms(2,4) entries_ok_wire by auto
qed

section \<open>A process\<close>

definition proc_ok :: "(MemberEntry \<Rightarrow> bool) \<Rightarrow> ConfigDTO set \<Rightarrow> Config \<Rightarrow> NodeID \<Rightarrow> World \<Rightarrow> bool" where
  "proc_ok P M c me w \<longleftrightarrow>
     store_inv (st w) \<and> selfID (st w) = me \<and> all_entries P (st w) \<and> from_made M c w"

text \<open>What a step guarantees: the law in its process, and the promise \<open>F\<close> of the entries in what it sends.\<close>

definition step_ok :: "(MemberEntry \<Rightarrow> bool) \<Rightarrow> (Store \<Rightarrow> MemberEntry \<Rightarrow> bool) \<Rightarrow> ConfigDTO set \<Rightarrow> Config \<Rightarrow> NodeID \<Rightarrow>
    packet set \<Rightarrow> World \<Rightarrow> bool" where
  "step_ok P F M c me outs w \<longleftrightarrow> proc_ok P M c me w \<and> (\<forall>x \<in> outs. packet_ok (F (st w)) M x)"

lemma proc_ok_parts:
  "proc_ok P M c me w \<Longrightarrow> store_inv s \<Longrightarrow> selfID s = me \<Longrightarrow> all_entries P s \<Longrightarrow>
   proc_ok P M c me (w\<lparr>st := s\<rparr>)"
  by (simp add: proc_ok_def from_made_def)

lemma proc_ok_config:
  "proc_ok P M c me w \<Longrightarrow> from_made M c w' \<Longrightarrow> entries (st w') = entries (st w) \<Longrightarrow> selfID (st w') = selfID (st w) \<Longrightarrow>
   proc_ok P M c me w'"
  by (auto simp: proc_ok_def store_inv_def all_entries_def)

lemma send_pings_out:
  assumes "foldl (send_ping (ping_at r) v tS list) (w, out0) ts = (w', out)"
  shows "(\<exists>t. w' = w\<lparr>tables := t\<rparr>) \<and>
    (\<forall>x \<in> set out. x \<in> set out0 \<or>
       (\<exists>n. EncodeMessage \<lparr>MType = MsgPing, MNonce = n, MList = list,
              MCfg = Some (PcfgDTO (get_ping (ping_at r) w))\<rparr> = Some (fst x)))"
  using assms
proof (induction ts arbitrary: w out0)
  case Nil
  then show ?case by (auto intro: exI [of _ "tables w"])
next
  case (Cons t ts)
  obtain w1 out1 where 1: "send_ping (ping_at r) v tS list (w, out0) t = (w1, out1)" by fastforce
  then have s: "\<exists>t. w1 = w\<lparr>tables := t\<rparr>" "\<forall>x \<in> set out1. x \<in> set out0 \<or>
       (\<exists>n. EncodeMessage \<lparr>MType = MsgPing, MNonce = n, MList = list,
              MCfg = Some (PcfgDTO (get_ping (ping_at r) w))\<rparr> = Some (fst x))"
    by (auto simp: send_ping_def Let_def split_beta ping_at_def split: option.splits if_splits
        intro: exI [of _ "tables w"])
  have "get_ping (ping_at r) w1 = get_ping (ping_at r) w" using s(1) by (auto simp: ping_at_def)
  with Cons.IH [of w1 out1] Cons.prems 1 s show ?case by fastforce
qed

lemma ping_tick_out:
  assumes "ping_tick (ping_at r) v prev w = (w', out, period)"
  shows "\<exists>list s t. Snapshot (s_snap v) (s_ord v) (st w) = (list, selfID (st w), s) \<and> w' = w\<lparr>st := s, tables := t\<rparr> \<and>
     (\<forall>x \<in> set out. answers r w' (fst x))"
proof -
  obtain list s where s: "Snapshot (s_snap v) (s_ord v) (st w) = (list, selfID (st w), s)"
    using Snapshot_store(2) by (metis prod.collapse)
  then have sn: "take_snapshot (world_ops.truncate (ping_at r)) (s_snap v) (s_ord v) w = (list, selfID (st w), w\<lparr>st := s\<rparr>)"
    by (simp add: take_snapshot_def)
  obtain tS ts where f: "foldl (send_ping (ping_at r) v tS list) (w\<lparr>st := s\<rparr>, []) ts = (w', out)"
    using assms sn by (auto simp: ping_tick_def Let_def split: prod.splits)
  from send_pings_out [OF this] obtain t where t: "w' = w\<lparr>st := s, tables := t\<rparr>" by auto
  then have g: "get_ping (ping_at r) (w\<lparr>st := s\<rparr>) = get_ping (ping_at r) w'" by (simp add: ping_at_def)
  have "answers r w' (fst x)" if "x \<in> set out" for x
    using send_pings_out [OF f] that s t unfolding g answers_def by fastforce
  with s t show ?thesis by blast
qed

lemma gossip_tick_out:
  assumes "gossip_tick (gossip_at r) v prev w = (w', out, period)"
  shows "\<exists>list s. Snapshot (s_snap v) (s_ord v) (st w) = (list, selfID (st w), s) \<and> w' = w\<lparr>st := s\<rparr> \<and>
     (\<forall>x \<in> set out. EncodeMessage \<lparr>MType = MsgGossip, MNonce = 0, MList = list,
        MCfg = Some (GcfgDTO (get_gossip (gossip_at r) w'))\<rparr> = Some (fst x))"
proof -
  obtain list s where s: "Snapshot (s_snap v) (s_ord v) (st w) = (list, selfID (st w), s)"
    using Snapshot_store(2) by (metis prod.collapse)
  then have sn: "take_snapshot (world_ops.truncate (gossip_at r)) (s_snap v) (s_ord v) w = (list, selfID (st w), w\<lparr>st := s\<rparr>)"
    by (simp add: take_snapshot_def)
  show ?thesis
    using assms sn s by (auto simp: gossip_tick_def Let_def split: option.splits if_splits)
qed


lemma step_ok_silent: "proc_ok P M c me w \<Longrightarrow> step_ok P F M c me {} w"
  by (simp add: step_ok_def)

lemma step_ok_fewer: "step_ok P F M c me outs w \<Longrightarrow> outs' \<subseteq> outs \<Longrightarrow> step_ok P F M c me outs' w"
  by (auto simp: step_ok_def)

lemma step_ok_sender:
  "step_ok P F M c me outs (with_ping_sender r f w) = step_ok P F M c me outs w"
  "step_ok P F M c me outs (with_gossip_sender r f w) = step_ok P F M c me outs w"
  by (simp_all add: step_ok_def proc_ok_def from_made_def)

lemma proc_ok_same:
  "proc_ok P M c me w \<Longrightarrow> same_config w w' \<Longrightarrow> store_inv (st w') \<Longrightarrow> selfID (st w') = me \<Longrightarrow>
   all_entries P (st w') \<Longrightarrow> proc_ok P M c me w'"
  by (simp add: proc_ok_def from_made_same)

lemma after_st [simp]: "st (after_ping r res) = st (fst res)" "st (after_gossip r res) = st (fst res)"
  by (simp_all add: after_ping_def after_gossip_def Let_def)

lemma proc_ok_after:
  "proc_ok P M c me (fst res) \<Longrightarrow> proc_ok P M c me (after_ping r res)"
  "proc_ok P M c me (fst gres) \<Longrightarrow> proc_ok P M c me (after_gossip r gres)"
  using from_made_same [OF after_same(1) [of res r]] from_made_same [OF after_same(2) [of gres r]]
  by (simp_all add: proc_ok_def)

section \<open>Steps of a process\<close>

text \<open>
  \<open>before\<close> is known of the entries that arrive; of those in the store \<open>s\<close> after a step, \<open>after s\<close> is
  promised to whoever receives them.
\<close>

locale talk_law = entry_law +
  fixes before :: "MemberEntry \<Rightarrow> bool" and after :: "Store \<Rightarrow> MemberEntry \<Rightarrow> bool"
  assumes heard: "before e \<Longrightarrow> P e"
    and told: "all_entries P s \<Longrightarrow> selfID s = me \<Longrightarrow> store_inv s \<Longrightarrow> entries s k = Some e \<Longrightarrow> after s (on_wire e)"
begin

lemma proc_ok_snapshot:
  assumes "proc_ok P M c me w" and "Snapshot now ord (st w) = (list, self, s)"
  shows "proc_ok P M c me (w\<lparr>st := s\<rparr>)"
  using assms snapshot_facts [OF assms(2)] law_snapshot(1) [OF assms(2)]
  by (intro proc_ok_parts) (simp_all add: proc_ok_def)

lemma proc_ok_merge:
  assumes "proc_ok P M c me w" and "entries_ok before es"
  shows "proc_ok P M c me (w\<lparr>st := MergeFullList clk (st w) es\<rparr>)"
  using assms law_merge [of "st w" es clk]
  by (intro proc_ok_parts) (auto simp: proc_ok_def store_inv_Merge entries_ok_def heard)

lemma proc_ok_rx:
  assumes "rx m w w'" and "whole M" and "proc_ok P M c me w" and "entries_ok before (MList m)"
    and "\<forall>d. MCfg m = Some d \<longrightarrow> d \<in> M"
  shows "proc_ok P M c me w'"
  using assms
proof (cases rule: rx.cases)
  case (callback d)
  then show ?thesis
    using assms(2,3,5) from_made_callback [of M d c w] by (intro proc_ok_config [OF assms(3)]) (auto simp: proc_ok_def)
next
  case (table t)
  then show ?thesis using assms(3) by (simp add: proc_ok_def from_made_def)
next
  case (snapshot now ord list self s)
  then show ?thesis using proc_ok_snapshot [OF assms(3)] by simp
next
  case (merge clk)
  then show ?thesis using proc_ok_merge [OF assms(3,4)] by simp
qed

lemma proc_ok_rxs:
  "(rx m)\<^sup>*\<^sup>* w w' \<Longrightarrow> whole M \<Longrightarrow> proc_ok P M c me w \<Longrightarrow> entries_ok before (MList m) \<Longrightarrow>
   \<forall>d. MCfg m = Some d \<longrightarrow> d \<in> M \<Longrightarrow> proc_ok P M c me w'"
proof (induction rule: rtranclp_induct)
  case (step y z)
  then show ?case using proc_ok_rx [OF step.hyps(2)] by blast
qed

lemma proc_ok_rx_from:
  assumes "rx_from input w w'" and "whole M" and "proc_ok P M c me w"
    and "\<forall>x \<in> taken Udp DecodeMessage (datagram input). packet_ok before M x"
  shows "proc_ok P M c me w'"
proof (cases "w' = w")
  case False
  then obtain b m where b: "datagram input = Some b" "DecodeMessage b = Some m" "(rx m)\<^sup>*\<^sup>* w w'"
    using assms(1) by (auto simp: rx_from_def)
  then have "packet_ok before M (Udp b)" using assms(4) by (simp add: taken_def)
  then show ?thesis using proc_ok_rxs [OF b(3) assms(2,3)] b(2) by simp
qed (use assms(3) in simp)

lemma listed_told:
  assumes "proc_ok P M c me w" and "Snapshot now ord v = (list, self, st w)" and "e \<in> set list"
  shows "after (st w) (on_wire e)"
  using Snapshot_listed [OF assms(2,3)] assms(1) told by (auto simp: proc_ok_def)

lemma proc_ok_scan:
  assumes "proc_ok P M c me w" and "daemon_inv w" and "scan_world v w = Running w'"
    and "silent v w \<subseteq> {(n, i). Q n i}"
  shows "proc_ok P M c me w'"
proof -
  obtain s marks where s: "scanOnce (t_clock v) (t_snap1 v) (t_ord1 v) (t_now v) (TSuspect (sm w)) (TFail (sm w))
      (TCleanup (sm w)) (st w, failMarks (sm w)) = Running (s, marks)" and w': "st w' = s"
    using assms(3) by (auto simp: scan_world_def manager_tick_scan [OF assms(2)] split: outcome.splits)
  have "\<forall>e \<in> set (fst (Snapshot (t_snap1 v) (t_ord1 v) (st w))).
      overdue (t_now v) (TSuspect (sm w)) (TFail (sm w)) e \<longrightarrow> Q (ID e) (Incarnation e)"
    using assms(4) by (auto simp: silent_def)
  then have "all_entries P s"
    using law_scanOnce [OF s] assms(1) by (simp add: proc_ok_def)
  moreover have "store_inv s" "selfID s = me" using scanOnce_inv [OF s] assms(1) by (simp_all add: proc_ok_def)
  ultimately show ?thesis using proc_ok_same [OF assms(1) scan_same [OF assms(2,3)]] w' by simp
qed

lemma answers_ok:
  assumes "proc_ok P M c me w" and "answers r w j" and "pings w r \<noteq> None" and "whole M"
  shows "packet_ok (after (st w)) M (Udp j)"
proof -
  obtain m now ord v self where m: "EncodeMessage m = Some j" "Snapshot now ord v = (MList m, self, st w)"
    "MCfg m = Some (PcfgDTO (get_ping (ping_at r) w))"
    using assms(2) by (auto simp: answers_def)
  have "PcfgDTO (get_ping (ping_at r) w) \<in> M"
    using assms(1,3) by (auto simp: proc_ok_def from_made_def ping_at_def)
  then show ?thesis
    using sent_message_ok [OF m(1,3) _ assms(4)] listed_told [OF assms(1) m(2)] by blast
qed

lemma step_ping_receive:
  assumes "proc_ok P M c me w" and "daemon_inv w" and "whole M" and "r \<in> ping_threads w"
    and "ping_recv (ping_at r) rv input w = res"
    and "\<forall>x \<in> taken Udp DecodeMessage (datagram input). packet_ok before M x"
  shows "step_ok P after M c me (replies (snd res)) (after_ping r res)"
proof -
  note rx = ping_recv_rx [of input w r rv, unfolded assms(5)]
  have p: "proc_ok P M c me (fst res)"
    using proc_ok_rx_from [OF conjunct1 [OF rx] assms(3,1,6)] .
  have "pings w r \<noteq> None" using thread_object(1) [OF assms(2,4)] .
  then have "pings (fst res) r \<noteq> None"
    using ping_recv_ok [OF assms(2), of r rv input] assms(5) by (simp add: world_ok_def grows_def)
  then have "packet_ok (after (st (fst res))) M (Udp j)" if "answers r (fst res) j" for j
    using answers_ok [OF p that _ assms(3)] by simp
  then have "\<forall>x \<in> replies (snd res). packet_ok (after (st (fst res))) M x"
    using conjunct2 [OF rx] by (metis (no_types))
  then show ?thesis using p proc_ok_after(1) by (simp add: step_ok_def del: packet_ok.simps)
qed

lemma step_gossip_receive:
  assumes "proc_ok P M c me w" and "whole M" and "gossip_recv (gossip_at r) rv input w = res"
    and "\<forall>x \<in> taken Udp DecodeMessage (datagram input). packet_ok before M x"
  shows "step_ok P after M c me (replies (snd res)) (after_gossip r res)"
proof -
  note rx = gossip_recv_rx [of input w r rv, unfolded assms(3)]
  have p: "proc_ok P M c me (fst res)"
    using proc_ok_rx_from [OF conjunct1 [OF rx] assms(2,1,4)] .
  then show ?thesis using conjunct2 [OF rx] proc_ok_after(2) by (simp add: step_ok_def)
qed

lemma step_ping_send:
  assumes "proc_ok P M c me w" and "whole M" and "pings w r \<noteq> None"
    and "ping_tick (ping_at r) sv prev w = (w', out, period)"
  shows "step_ok P after M c me ((\<lambda>x. Udp (fst x)) ` set out) w'"
proof -
  obtain list s t where t: "Snapshot (s_snap sv) (s_ord sv) (st w) = (list, selfID (st w), s)"
    "w' = w\<lparr>st := s, tables := t\<rparr>" "\<forall>x \<in> set out. answers r w' (fst x)"
    using ping_tick_out [OF assms(4)] by blast
  have p: "proc_ok P M c me w'"
    using proc_ok_snapshot [OF assms(1) t(1)] t(2) by (simp add: proc_ok_def from_made_def)
  have "pings w' r \<noteq> None" using assms(3) t(2) by simp
  then show ?thesis using p t(3) answers_ok [OF p _ _ assms(2)] by (auto simp: step_ok_def)
qed

lemma step_gossip_send:
  assumes "proc_ok P M c me w" and "whole M" and "gossips w r \<noteq> None"
    and "gossip_tick (gossip_at r) sv prev w = (w', out, period)"
  shows "step_ok P after M c me ((\<lambda>x. Udp (fst x)) ` set out) w'"
proof -
  obtain list s where t: "Snapshot (s_snap sv) (s_ord sv) (st w) = (list, selfID (st w), s)"
    "w' = w\<lparr>st := s\<rparr>" "\<forall>x \<in> set out. EncodeMessage \<lparr>MType = MsgGossip, MNonce = 0, MList = list,
        MCfg = Some (GcfgDTO (get_gossip (gossip_at r) w'))\<rparr> = Some (fst x)"
    using gossip_tick_out [OF assms(4)] by blast
  have p: "proc_ok P M c me w'" using proc_ok_snapshot [OF assms(1) t(1)] t(2) by simp
  have d: "GcfgDTO (get_gossip (gossip_at r) w') \<in> M"
    using p assms(3) t(2) by (auto simp: proc_ok_def from_made_def gossip_at_def)
  have "packet_ok (after (st w')) M (Udp (fst x))" if "x \<in> set out" for x
    using sent_message_ok [OF bspec [OF t(3) that] _ d assms(2)] listed_told [OF p, of "s_snap sv" "s_ord sv" "st w" list]
      t(1,2) by (simp del: packet_ok.simps)
  with p show ?thesis by (simp add: step_ok_def del: packet_ok.simps)
qed

lemma step_join_request:
  assumes "proc_ok P M c me w" and "join_request snap ord w = (w', req)"
  shows "step_ok P after M c me (packed Req req) w'"
proof -
  obtain list self s where s: "Snapshot snap ord (st w) = (list, self, s)" by (metis prod.exhaust)
  with assms(2) have w': "w' = w\<lparr>st := s\<rparr>" "req = EncodeJoinRequest \<lparr>QList = list\<rparr>"
    by (simp_all add: join_request_def)
  have p: "proc_ok P M c me w'" using proc_ok_snapshot [OF assms(1) s] w'(1) by simp
  have "after (st w') (on_wire e)" if "e \<in> set list" for e
    using listed_told [OF p, of snap ord "st w"] s w'(1) that by simp
  then have "packet_ok (after (st w')) M (Req j)" if "req = Some j" for j
    using sent_request_ok [of "\<lparr>QList = list\<rparr>"] w'(2) that by (simp del: packet_ok.simps)
  with p show ?thesis by (auto simp: step_ok_def packed_def simp del: packet_ok.simps split: option.split)
qed

lemma step_join_response:
  assumes "proc_ok P M c me w" and "whole M"
    and "\<forall>x \<in> taken Resp DecodeJoinResponse answer. packet_ok before M x"
  shows "proc_ok P M c me (fst (join_response answer clk w))"
proof (cases "Option.bind answer DecodeJoinResponse")
  case None
  then show ?thesis using assms(1) by (simp add: join_response_def)
next
  case (Some r)
  then obtain j where j: "answer = Some j" "DecodeJoinResponse j = Some r" by (auto simp: bind_eq_Some_conv)
  then have "packet_ok before M (Resp j)" using assms(3) by (simp add: taken_def)
  then have r: "entries_ok before (RList r)" "RConfigDTO r \<in> M" using j(2) by simp_all
  define w1 where "w1 = fst (commit_remote (RConfigDTO r) w)"
  have c: "from_made M c w1" "from_made M c (applyRuntime p (cfg w1) w1)" for p
    using from_made_commit [OF assms(2) r(2), of c w] assms(1) by (simp_all add: proc_ok_def w1_def)
  have "proc_ok P M c me w1" "proc_ok P M c me (applyRuntime p (cfg w1) w1)" for p
    using proc_ok_config [OF assms(1) c(1)] proc_ok_config [OF assms(1) c(2)] by (simp_all add: w1_def)
  from this [THEN proc_ok_merge [OF _ r(1)]] show ?thesis
    using Some by (simp add: join_response_def Let_def split_beta w1_def [symmetric])
qed

lemma step_introduce:
  assumes "proc_ok P M c me w" and "whole M" and "handleJoin clk snap ord msg w = (w', out)"
    and "\<forall>x \<in> taken Req DecodeJoinRequest msg. packet_ok before M x"
  shows "step_ok P after M c me (packed Resp out) w'"
proof (cases "Option.bind msg DecodeJoinRequest")
  case None
  then show ?thesis using assms(1,3) by (simp add: handleJoin_def step_ok_def packed_def)
next
  case (Some q)
  then obtain j where "msg = Some j" "DecodeJoinRequest j = Some q" by (auto simp: bind_eq_Some_conv)
  then have q: "entries_ok before (QList q)" using assms(4) by (auto simp: taken_def)
  define w1 where "w1 = w\<lparr>st := MergeFullList clk (st w) (QList q)\<rparr>"
  obtain list self s where s: "Snapshot snap ord (st w1) = (list, self, s)" by (metis prod.exhaust)
  have w': "w' = w1\<lparr>st := s\<rparr>" "out = EncodeJoinResponse \<lparr>RConfigDTO = ToDTO (cfg w), RList = list\<rparr>"
    using assms(3) Some s by (simp_all add: handleJoin_def w1_def)
  have p: "proc_ok P M c me w'"
    using proc_ok_snapshot [OF _ s] proc_ok_merge [OF assms(1) q] w'(1) by (simp add: w1_def)
  have "after (st w') (on_wire e)" if "e \<in> set list" for e
    using listed_told [OF p, of snap ord "st w1"] s w'(1) that by simp
  moreover have "ToDTO (cfg w) \<in> M" using assms(1) by (simp add: proc_ok_def from_made_def)
  ultimately have "packet_ok (after (st w')) M (Resp j)" if "out = Some j" for j
    using sent_response_ok [of "\<lparr>RConfigDTO = ToDTO (cfg w), RList = list\<rparr>" j M] assms(2) w'(2) that
    by (simp del: packet_ok.simps)
  with p show ?thesis by (auto simp: step_ok_def packed_def simp del: packet_ok.simps split: option.split)
qed

lemma proc_ok_lists:
  assumes "proc_ok P M c me w"
  shows "proc_ok P M c me (fst (http_list_mem snap ord w))"
    and "proc_ok P M c me (fst (http_display_suspects snap ord w))"
  using proc_ok_snapshot [OF assms, of snap ord]
  by (auto simp: http_list_mem_def http_display_suspects_def split: prod.split)

lemma solo_ok:
  assumes "solo_step c g p outs q" and "proc_ok P M c me (snd p)" and "whole M"
  shows "step_ok P after M c me outs (snd q)"
  using assms
proof (induction rule: solo_step.induct)
  case (rate ph w)
  then show ?case by (intro step_ok_silent) (simp add: proc_ok_def from_made_def)
next
  case (ping_begin w r l ph)
  then show ?case by (simp add: step_ok_sender step_ok_silent)
next
  case (ping_quit w r l ph)
  then show ?case by (simp add: step_ok_sender step_ok_silent)
next
  case (gossip_begin w r g ph)
  then show ?case by (simp add: step_ok_sender step_ok_silent)
next
  case (gossip_quit w r g ph)
  then show ?case by (simp add: step_ok_sender step_ok_silent)
next
  case (join_fails snap ord w w')
  then show ?case using step_join_request [of _ _ w snap ord w' None] by (simp add: packed_def)
next
  case (join_asks snap ord w w' j)
  then show ?case using step_join_request [of _ _ w snap ord w' "Some j"] by (simp add: packed_def)
next
  case (serve w)
  then show ?case using from_made_start [of M c w c] by (intro step_ok_silent) (simp add: proc_ok_def from_made_def)
next
  case (introducer listensTCP w w' ph)
  then show ?case
    by (auto simp: startIntroducerServer_def proc_ok_def from_made_def intro!: step_ok_silent split: if_splits)
next
  case (list_mem h w snap ord)
  then show ?case using proc_ok_lists(1) by (simp add: step_ok_silent)
next
  case (suspects h w snap ord)
  then show ?case using proc_ok_lists(2) by (simp add: step_ok_silent)
next
  case (manager w ph)
  then show ?case by (intro step_ok_silent) (simp add: proc_ok_def ManagerRun_def from_made_def)
next
  case (manager_end w ph)
  then show ?case by (intro step_ok_silent) (simp add: proc_ok_def ManagerEnd_def from_made_def)
next
  case (shutdown w)
  have "from_made M c (stopGossip (stopPingAck w))"
    using shutdown.prems(1) from_made_stop by (simp add: proc_ok_def)
  then have "from_made M c (Close w)"
    by (rule from_made_cong [THEN iffD2, rotated -1]) (simp_all add: Close_def Let_def split: option.split)
  then show ?case
    using shutdown.prems(1) by (intro step_ok_silent) (auto simp: proc_ok_def Close_def Let_def split: option.split)
next
  case (join_lost answer w)
  then show ?case by (simp add: step_ok_silent)
qed

lemma pstep_ok:
  assumes "pstep c p ins outs q" and "proc_ok P M c me (snd p)" and "daemon_inv (snd p)" and "whole M"
    and "\<forall>x \<in> ins. packet_ok before M x"
  shows "step_ok P after M c me outs (snd q)"
  using assms
proof (induction rule: pstep.induct)
  case (solo g p outs q)
  then show ?case using solo_ok by simp
next
  case (ping_receive r w inp input rv res ph)
  then show ?case using step_ping_receive by simp
next
  case (gossip_receive r w inp input rv res ph)
  then show ?case using step_gossip_receive by simp
next
  case (ping_send w r ticker prev sv w' out period ph)
  then show ?case using step_ok_fewer [OF step_ping_send written_sub] by (simp add: step_ok_sender)
next
  case (gossip_send w r ticker prev sv w' out period ph)
  then show ?case using step_ok_fewer [OF step_gossip_send written_sub] by (simp add: step_ok_sender)
next
  case (join_done answer clk w w')
  then show ?case using step_join_response [of _ _ w answer clk] by (simp add: step_ok_silent)
next
  case (introduce w clk snap ord msg w' out ph)
  then show ?case using step_introduce by simp
qed



end

section \<open>The administrator's changes\<close>

lemma dec_int_in64: "dec_int j old = Some i \<Longrightarrow> in64 old \<Longrightarrow> in64 i"
  by (cases j) (auto split: if_splits)

lemma dto_field_ints: "dto_field k j d = Some d' \<Longrightarrow> dto_ints d \<Longrightarrow> dto_ints d'"
  by (auto simp: dto_field_def dto_ints_def dest: dec_int_in64 split: if_splits)

lemma dec_fields_ints: "dec_fields dto_field fs d = Some d' \<Longrightarrow> dto_ints d \<Longrightarrow> dto_ints d'"
  by (induction dto_field fs d rule: dec_fields.induct) (auto simp: bind_eq_Some_conv dest: dto_field_ints)

lemma loadConfig_ints: "loadConfig b = Some d \<Longrightarrow> dto_ints d"
proof -
  have z: "dto_ints emptyDTO" by (simp add: dto_ints_def emptyDTO_def int64_defs)
  assume "loadConfig b = Some d"
  then obtain j where "dec_struct dto_field j emptyDTO = Some d"
    by (auto simp: loadConfig_def dec_dto_def bind_eq_Some_conv)
  then show ?thesis using z dec_fields_ints by (cases j) auto
qed

lemma switch_dto_ints: "switch_dto req c = Some d \<Longrightarrow> cfg_ok c \<Longrightarrow> dto_ints d"
  by (auto simp: switch_dto_def Let_def dto_ints_def cfg_ok_def cfg_ints_def ToDTO_def split: if_splits option.splits)

lemma bump_cfg_ok:
  assumes "cfg_ok c" and "dto_ints d"
  shows "cfg_ok (fst (BumpAndApplyLocal c d))"
proof -
  have "dto_ints (d\<lparr>dVersion := wrap64 v\<rparr>)" for v using assms(2) by (simp add: dto_ints_def)
  then show ?thesis using assms ApplyDTO_cfg_ok by (simp add: BumpAndApplyLocal_def)
qed

lemma proc_ok_local:
  assumes "proc_ok P M c me w" and "dto_ints d"
  defines "w' \<equiv> fst (local_change d w)"
  shows "proc_ok P (insert (ToDTO (cfg w')) M) c me w' \<and> cfg_ok (cfg w')"
proof -
  have f: "from_made (insert x M) c w" for x
    using assms(1) from_made_mono [of M c w "insert x M"] by (auto simp: proc_ok_def)
  have ok: "cfg_ok (cfg (fst (commit_local d w)))"
    using bump_cfg_ok [OF _ assms(2)] assms(1) by (simp add: proc_ok_def from_made_def)
  show ?thesis
  proof (cases "snd (commit_local d w) = Inr True")
    case True
    let ?w1 = "fst (commit_local d w)"
    have w': "w' = applyRuntime (cfg w) (cfg ?w1) ?w1"
      unfolding w'_def local_change_fst by (rule if_P [OF True])
    have "from_made (insert (ToDTO (cfg ?w1)) M) c ?w1"
      using f ok by (auto simp: from_made_def commit_local_def split_beta)
    then have "from_made (insert (ToDTO (cfg ?w1)) M) c w'"
      unfolding w' by (rule from_made_runtime) simp
    moreover have "proc_ok P (insert (ToDTO (cfg ?w1)) M) c me w"
      using assms(1) f by (simp add: proc_ok_def)
    moreover have "cfg w' = cfg ?w1" "entries (st w') = entries (st w)" "selfID (st w') = selfID (st w)"
      unfolding w' by simp_all
    ultimately show ?thesis using ok proc_ok_config by simp
  next
    case False
    then have "w' = w" unfolding w'_def local_change_fst by (rule if_not_P)
    then show ?thesis using assms(1) f by (simp add: proc_ok_def from_made_def)
  qed
qed

lemma proc_ok_http:
  assumes "proc_ok P M c me w" and "w' = fst (http_set text w) \<or> w' = fst (http_switch body w)"
  shows "proc_ok P (insert (ToDTO (cfg w')) M) c me w' \<and> cfg_ok (cfg w')"
proof -
  have same: "proc_ok P (insert (ToDTO (cfg w)) M) c me w \<and> cfg_ok (cfg w)"
    using assms(1) from_made_mono [of M c w "insert (ToDTO (cfg w)) M"] by (auto simp: proc_ok_def from_made_def)
  have "cfg_ok (cfg w)" using assms(1) by (simp add: proc_ok_def from_made_def)
  then show ?thesis
    using assms(2) same proc_ok_local [OF assms(1) loadConfig_ints] proc_ok_local [OF assms(1) switch_dto_ints]
    by (auto simp: http_fst bind_eq_Some_conv split: option.splits)
qed

context leaving_law
begin

lemma proc_ok_leave:
  assumes "proc_ok P M c me w"
  shows "proc_ok P M c me (fst (http_leave snap ord now w))"
proof -
  obtain list self s where s: "Snapshot snap ord (st w) = (list, self, s)" by (metis prod.exhaust)
  have "all_entries P (leave_store now list s)"
    using law_leave [OF s] assms by (simp add: proc_ok_def)
  moreover have "store_inv s" "selfID s = me" using snapshot_facts [OF s] assms by (simp_all add: proc_ok_def)
  ultimately show ?thesis
    using s assms by (simp add: http_leave_def proc_ok_def leave_store_inv from_made_def)
qed

end

end
