(* ===== verification/NetInv.thy ===== *)
theory NetInv
  imports ProcLaw
begin

text \<open>
  The invariant of the network: what every entry in every store and packet can be traced back to, and
  where every configuration comes from. It instantiates the laws of \<open>StoreLaw\<close> and \<open>ProcLaw\<close>.
\<close>

section \<open>What may be known of a node\<close>

text \<open>
  The identity and the incarnation of the entry were once those of a process of that identity, in its
  own entry for itself; and unless the entry is an accusation, so was the state.
\<close>

definition claimed :: "claims \<Rightarrow> MemberEntry \<Rightarrow> bool" where
  "claimed S e \<longleftrightarrow>
     (\<exists>x. (ID e, Incarnation e, x) \<in> S) \<and>
     (EState e \<noteq> StateSuspect \<and> EState e \<noteq> StateFailed \<longrightarrow> (ID e, Incarnation e, EState e) \<in> S)"

definition left_asked :: "NodeID set \<Rightarrow> MemberEntry \<Rightarrow> bool" where
  "left_asked L e \<longleftrightarrow> (EState e = StateLeft \<longrightarrow> ID e \<in> L)"

text \<open>An accusation goes back to a scan that found this incarnation silent.\<close>

definition accusable :: "accusations \<Rightarrow> MemberEntry \<Rightarrow> bool" where
  "accusable A e \<longleftrightarrow> (EState e = StateSuspect \<or> EState e = StateFailed \<longrightarrow> (ID e, Incarnation e) \<in> A)"

text \<open>An entry in the store of \<open>me\<close>, in the middle of a step.\<close>

definition traced :: "claims \<Rightarrow> NodeID set \<Rightarrow> accusations \<Rightarrow> NodeID \<Rightarrow> MemberEntry \<Rightarrow> bool" where
  "traced S L A me e \<longleftrightarrow> (claimed S e \<or> ID e = me) \<and> left_asked L e \<and> accusable A e"

text \<open>An entry of a packet, and of a store between two steps.\<close>

definition public :: "claims \<Rightarrow> NodeID set \<Rightarrow> accusations \<Rightarrow> MemberEntry \<Rightarrow> bool" where
  "public S L A e \<longleftrightarrow> claimed S e \<and> left_asked L e \<and> accusable A e"

lemma public_traced: "public S L A e \<Longrightarrow> traced S L A me e"
  by (simp add: public_def traced_def)

lemma claimed_mono: "claimed S e \<Longrightarrow> S \<subseteq> S' \<Longrightarrow> claimed S' e"
  by (auto simp: claimed_def)

lemma public_mono: "public S L A e \<Longrightarrow> S \<subseteq> S' \<Longrightarrow> L \<subseteq> L' \<Longrightarrow> A \<subseteq> A' \<Longrightarrow> public S' L' A' e"
  using claimed_mono by (auto simp: public_def left_asked_def accusable_def)

lemma public_on_wire [simp]: "public S L A (on_wire e) = public S L A e"
  by (simp add: public_def claimed_def left_asked_def accusable_def on_wire_def)

text \<open>After a step the process has said what its entry for itself says.\<close>

lemma traced_public:
  assumes "all_entries (traced S L A (selfID s)) s" and "store_inv s" and "entries s k = Some e"
  shows "public (S \<union> own_claims s) L A e"
proof -
  have t: "traced S L A (selfID s) e" using assms(1,3) by (simp add: all_entries_def)
  show ?thesis
  proof (cases "ID e = selfID s")
    case True
    then have "entries s (key_of (selfID s)) = Some e" using store_invD [OF assms(2,3)] assms(3) by simp
    with True have "(ID e, Incarnation e, EState e) \<in> own_claims s" by (simp add: own_claims_def)
    with t show ?thesis by (auto simp: public_def traced_def claimed_def)
  next
    case False
    with t show ?thesis using claimed_mono [of S e "S \<union> own_claims s"] by (simp add: public_def traced_def)
  qed
qed

lemma claimed_upd [simp]:
  "claimed S (e\<lparr>LastUpdate := t\<rparr>) = claimed S e" "left_asked L (e\<lparr>LastUpdate := t\<rparr>) = left_asked L e"
  "accusable A (e\<lparr>LastUpdate := t\<rparr>) = accusable A e"
  by (simp_all add: claimed_def left_asked_def accusable_def)

interpretation traced: talk_law "traced S L A me" "\<lambda>n i. (n, i) \<in> A" me "public S L A"
    "\<lambda>s. public (S \<union> own_claims s) L A" for S L A me
proof unfold_locales
  show "public (S \<union> own_claims s) L A (on_wire e)"
    if "all_entries (traced S L A me) s" "selfID s = me" "store_inv s" "entries s k = Some e" for s k e
    using traced_public [of S L A s] that by simp
qed (auto simp: traced_def public_def claimed_def left_asked_def accusable_def)

interpretation leaver: leaving_law "traced S (insert me L) A me" "\<lambda>n i. (n, i) \<in> A" me for S L A me
  by unfold_locales (auto simp: traced_def left_asked_def accusable_def)

text \<open>The guarantees of \<open>ProcLaw\<close> for these laws.\<close>

abbreviation proc_traced :: "claims \<Rightarrow> NodeID set \<Rightarrow> accusations \<Rightarrow> ConfigDTO set \<Rightarrow> Config \<Rightarrow> NodeID \<Rightarrow> World \<Rightarrow> bool" where
  "proc_traced S L A M c me \<equiv> proc_ok (traced S L A me) M c me"

abbreviation step_traced :: "claims \<Rightarrow> NodeID set \<Rightarrow> accusations \<Rightarrow> ConfigDTO set \<Rightarrow> Config \<Rightarrow> NodeID \<Rightarrow>
    packet set \<Rightarrow> World \<Rightarrow> bool" where
  "step_traced S L A M c me \<equiv> step_ok (traced S L A me) (\<lambda>s. public (S \<union> own_claims s) L A) M c me"

section \<open>The network\<close>

definition net_proc :: "Net \<Rightarrow> Config \<Rightarrow> phase \<times> World \<Rightarrow> bool" where
  "net_proc N c p \<longleftrightarrow> reachable c p \<and> ValidateClusterParams c = None \<and> from_made (made N) c (snd p) \<and>
     all_entries (public (said N) (leavers N) (accused N)) (st (snd p))"

definition net_inv :: "Net \<Rightarrow> bool" where
  "net_inv N \<longleftrightarrow> whole (made N) \<and> (\<forall>x \<in> packets N. packet_ok (public (said N) (leavers N) (accused N)) (made N) x) \<and>
     (\<forall>i c p. procs N i = Some (c, p) \<longrightarrow> net_proc N c p)"

lemma net_invD: "net_inv N \<Longrightarrow> procs N i = Some (c, p) \<Longrightarrow> net_proc N c p"
  by (cases p) (auto simp: net_inv_def)

lemma net_proc_daemon: "net_proc N c p \<Longrightarrow> daemon_inv (snd p)"
  using reachable_inv [of c p] by (simp add: net_proc_def)

lemma net_proc_ok: "net_proc N c p \<Longrightarrow> proc_traced (said N) (leavers N) (accused N) (made N) c (selfID (st (snd p))) (snd p)"
  using net_proc_daemon [of N c p] public_traced
  by (auto simp: net_proc_def proc_ok_def daemon_inv_def all_entries_def)

text \<open>One process moves, and the histories grow with it.\<close>

lemma net_inv_move:
  assumes "net_inv N" and "procs N' = (procs N)(i \<mapsto> (c, q))" and "packets N' = packets N \<union> outs"
    and "said N' = said N \<union> own_claims (st (snd q))" and "leavers N \<subseteq> leavers N'" and "accused N \<subseteq> accused N'" and "made N \<subseteq> made N'"
    and "whole (made N')" and "reachable c q" and "ValidateClusterParams c = None"
    and "step_traced (said N) (leavers N') (accused N') (made N') c (selfID (st (snd q))) outs (snd q)"
  shows "net_inv N'"
proof -
  have S: "said N \<subseteq> said N'" using assms(4) by blast
  have p: "proc_traced (said N) (leavers N') (accused N') (made N') c (selfID (st (snd q))) (snd q)"
    and o: "\<forall>x \<in> outs. packet_ok (public (said N') (leavers N') (accused N')) (made N') x"
    using assms(11) assms(4) by (simp_all add: step_ok_def)
  have "net_proc N' c q"
    using p assms(4,9,10) traced_public by (auto simp: net_proc_def proc_ok_def all_entries_def)
  moreover have "net_proc N' c' p'" if "procs N j = Some (c', p')" for j c' p'
  proof -
    have "net_proc N c' p'" using net_invD assms(1) that by blast
    then show ?thesis
      using public_mono [OF _ S assms(5,6)] from_made_mono [OF _ assms(7)] by (auto simp: net_proc_def all_entries_def)
  qed
  moreover have "\<forall>x \<in> packets N'. packet_ok (public (said N') (leavers N') (accused N')) (made N') x"
    using o packet_ok_mono [OF _ public_mono [OF _ S assms(5,6)] assms(7)] assms(1,3) by (auto simp: net_inv_def simp del: packet_ok.simps)
  ultimately show ?thesis using assms(2,8) unfolding net_inv_def by (metis fun_upd_apply option.inject prod.inject)
qed

lemma whole_insert: "whole M \<Longrightarrow> cfg_ok c \<Longrightarrow> whole (insert (ToDTO c) M)"
  by (auto simp: whole_def)

lemma boot_facts:
  "boot r l t now c = Inr w \<Longrightarrow> (\<exists>self. st w = NewStore now self c) \<and> cfg w = c \<and> pings w = (\<lambda>_. None) \<and> gossips w = (\<lambda>_. None)"
  by (force simp: boot_def Let_def split: sum.splits if_splits)

lemma boot_proc_ok:
  assumes "boot r l t now c = Inr w" and "cfg_ok c"
  shows "proc_traced S L A (insert (ToDTO c) M) c (selfID (st w)) w"
proof -
  obtain self where "st w = NewStore now self c" using boot_facts [OF assms(1)] by blast
  then have "store_inv (st w)" "all_entries (traced S L A (selfID (st w))) (st w)"
    by (simp_all add: store_inv_New) (simp add: all_entries_def NewStore_def traced_def left_asked_def accusable_def)
  then show ?thesis using boot_facts [OF assms(1)] assms(2) by (simp add: proc_ok_def from_made_def)
qed

lemma nstep_inv:
  assumes "nstep N N'" and "net_inv N"
  shows "net_inv N'"
  using assms
proof (induction rule: nstep.induct)
  case (boot N i v c w)
  have c: "cfg_ok c" using flags_cfg_ok main_start_facts(1) boot.hyps(2,3) by blast
  note p = boot_proc_ok [OF main_start_facts(2) [OF boot.hyps(3)] c]
  show ?case
  proof (rule net_inv_move [OF boot.prems, where i = i and c = c and q = "(first_phase c, w)" and outs = "{}"])
    show "whole (made ((put_proc i c (first_phase c, w) N)\<lparr>made := insert (ToDTO c) (made N)\<rparr>))"
      using whole_insert c boot.prems by (simp add: net_inv_def)
  qed (use c p main_reachable [OF boot.hyps(3)] in \<open>auto simp: put_proc_def cfg_ok_def step_ok_silent\<close>)
next
  case (move N i c p ins outs q)
  have n: "net_proc N c p" using net_invD move.prems move.hyps(1) by blast
  have "step_traced (said N) (leavers N) (accused N) (made N) c (selfID (st (snd p))) outs (snd q)"
    using traced.pstep_ok [OF move.hyps(2) net_proc_ok [OF n] net_proc_daemon [OF n]] move.hyps(3) move.prems
    by (auto simp: net_inv_def simp del: packet_ok.simps)
  moreover from this have "selfID (st (snd q)) = selfID (st (snd p))" by (simp add: step_ok_def proc_ok_def)
  moreover have "reachable c q"
    using n reachable.step [OF _ pstep_dstep [OF move.hyps(2)]] unfolding net_proc_def by blast
  ultimately show ?case
    using n move.prems
    by (intro net_inv_move [OF move.prems, where i = i and c = c and q = q and outs = outs])
      (auto simp: put_proc_def net_proc_def net_inv_def)
next
  case (scan N i c ph w v w')
  have n: "net_proc N c (ph, w)" using net_invD scan.prems scan.hyps(1) by blast
  have "proc_traced (said N) (leavers N) (accused N \<union> silent v w) (made N) c (selfID (st w)) w"
    using net_proc_ok [OF n] by (auto simp: proc_ok_def all_entries_def traced_def accusable_def)
  then have p: "proc_traced (said N) (leavers N) (accused N \<union> silent v w) (made N) c (selfID (st w)) w'"
    using traced.proc_ok_scan [OF _ _ scan.hyps(2)] net_proc_daemon [OF n] by simp
  moreover from p have "selfID (st w') = selfID (st w)" by (simp add: proc_ok_def)
  moreover have "reachable c (ph, w')"
    using n reachable.step [OF _ dstep.scan [OF scan.hyps(2,3)]] unfolding net_proc_def by blast
  ultimately show ?case
    using n scan.prems
    by (intro net_inv_move [OF scan.prems, where i = i and c = c and q = "(ph, w')" and outs = "{}"])
      (auto simp: put_proc_def net_proc_def net_inv_def step_ok_silent)
next
  case (set_config N i c w w' input)
  have n: "net_proc N c (Serving, w)" using net_invD set_config.prems set_config.hyps(1) by blast
  have p: "proc_traced (said N) (leavers N) (accused N) (insert (ToDTO (cfg w')) (made N)) c (selfID (st w)) w'" "cfg_ok (cfg w')"
    using proc_ok_http [OF net_proc_ok [OF n]] set_config.hyps(2) by auto
  moreover from p have "selfID (st w') = selfID (st w)" by (simp add: proc_ok_def)
  moreover have "reachable c (Serving, w')"
    using n reachable.step dstep.set_config set_config.hyps(2) by (auto simp: net_proc_def)
  ultimately show ?case
    using n set_config.prems
    by (intro net_inv_move [OF set_config.prems, where i = i and c = c and q = "(Serving, w')" and outs = "{}"])
      (auto simp: put_proc_def net_proc_def net_inv_def whole_insert step_ok_silent)
next
  case (switch N i c w w' body)
  have n: "net_proc N c (Serving, w)" using net_invD switch.prems switch.hyps(1) by blast
  have p: "proc_traced (said N) (leavers N) (accused N) (insert (ToDTO (cfg w')) (made N)) c (selfID (st w)) w'" "cfg_ok (cfg w')"
    using proc_ok_http [OF net_proc_ok [OF n]] switch.hyps(2) by auto
  moreover from p have "selfID (st w') = selfID (st w)" by (simp add: proc_ok_def)
  moreover have "reachable c (Serving, w')"
    using n reachable.step dstep.switch switch.hyps(2) by (auto simp: net_proc_def)
  ultimately show ?case
    using n switch.prems
    by (intro net_inv_move [OF switch.prems, where i = i and c = c and q = "(Serving, w')" and outs = "{}"])
      (auto simp: put_proc_def net_proc_def net_inv_def whole_insert step_ok_silent)
next
  case (leave N i c w w' snap ord now)
  have n: "net_proc N c (Serving, w)" using net_invD leave.prems leave.hyps(1) by blast
  have p: "proc_traced (said N) (insert (selfID (st w)) (leavers N)) (accused N) (made N) c (selfID (st w)) w'"
  proof -
    have "proc_traced (said N) (insert (selfID (st w)) (leavers N)) (accused N) (made N) c (selfID (st w)) w"
      using net_proc_ok [OF n] by (auto simp: proc_ok_def all_entries_def traced_def left_asked_def)
    from leaver.proc_ok_leave [OF this] leave.hyps(2) show ?thesis by simp
  qed
  moreover from p have "selfID (st w') = selfID (st w)" by (simp add: proc_ok_def)
  moreover have "reachable c (Serving, w')"
    using n reachable.step dstep.leave leave.hyps(2) by (auto simp: net_proc_def)
  ultimately show ?case
    using n leave.prems
    by (intro net_inv_move [OF leave.prems, where i = i and c = c and q = "(Serving, w')" and outs = "{}"])
      (auto simp: put_proc_def net_proc_def net_inv_def step_ok_silent SelfID_def)
next
  case (die N i)
  then show ?case by (auto simp: net_inv_def net_proc_def)
qed

lemma nreach_inv: "nreach N \<Longrightarrow> net_inv N"
proof (induction rule: nreach.induct)
  case init
  then show ?case by (simp add: net_inv_def no_net_def whole_def)
next
  case (step N N')
  then show ?case using nstep_inv by blast
qed

end
