(* ===== verification/NetProps.thy ===== *)
theory NetProps
  imports NetInv
begin

text \<open>
  The properties of the cluster: what the members can come to believe of each other, when they stop, and
  which configurations they work with, whatever is lost, repeated or reordered on the way.
\<close>

section \<open>A sample cluster\<close>

text \<open>Node 1 starts as the introducer, its manager runs, it serves, and is asked to leave.\<close>

definition world1 :: World where "world1 = startProtocol sample_introducer (ManagerRun (sample_world 1 sample_introducer))"

definition world2 :: World where
  "world2 = fst (http_leave (at_wall 6) [key_of (node 1 7)] (at_wall 8) world1)"

definition net0 :: Net where
  "net0 = (put_proc 0 sample_introducer (Booted, sample_world 1 sample_introducer) no_net)
     \<lparr>made := {ToDTO sample_introducer}\<rparr>"

definition net1 :: Net where "net1 = (put_proc 0 sample_introducer (Serving, world1) net0)\<lparr>packets := {}\<rparr>"

definition net2 :: Net where
  "net2 = (put_proc 0 sample_introducer (Serving, world2) net1)\<lparr>leavers := {node 1 7}\<rparr>"

lemma flag_ints_sample: "flag_ints (e_flags sample_env)"
  by (simp add: flag_ints_def sample_env_def no_flags_def)

lemma nreach_net0: "nreach net0"
proof -
  have "nstep no_net net0"
    using nstep.boot [of no_net 0, OF _ flag_ints_sample sample_main] by (simp add: no_net_def net0_def)
  then show ?thesis using nreach.init nreach.step by blast
qed

lemma nreach_net1: "nreach net1"
proof -
  let ?i = sample_introducer and ?w = "sample_world 1 sample_introducer"
  define N where "N = (put_proc 0 ?i (Booted, ManagerRun ?w) net0)\<lparr>packets := packets net0 \<union> {}\<rparr>"
  have "procs net0 0 = Some (?i, Booted, ?w)" by (simp add: net0_def put_proc_def)
  from nstep.move [OF this pstep.solo [OF solo_step.manager]] have "nstep net0 N" by (simp add: sample_world_def N_def)
  moreover have "procs N 0 = Some (?i, Booted, ManagerRun ?w)" by (simp add: N_def put_proc_def)
  from nstep.move [OF this pstep.solo [OF solo_step.serve]]
  have "nstep N ((put_proc 0 ?i (Serving, world1) N)\<lparr>packets := packets N \<union> {}\<rparr>)" by (simp add: world1_def ManagerRun_def)
  then have "nstep N net1" by (simp add: net1_def N_def net0_def put_proc_def no_net_def world1_def ManagerRun_def)
  ultimately show ?thesis using nreach_net0 nreach.step by blast
qed

lemma nreach_net2: "nreach net2"
proof -
  have "nstep net1 net2"
    using nstep.leave [of net1 0 sample_introducer world1, OF _ refl, of "at_wall 6" "[key_of (node 1 7)]" "at_wall 8"]
    by (simp add: net1_def net2_def net0_def put_proc_def no_net_def world2_def world1_def ManagerRun_def SelfID_def NewStore_def)
  then show ?thesis using nreach_net1 nreach.step by blast
qed

lemma world2_entry:
  "entries (st world2) (key_of (node 1 7)) =
     Some \<lparr>ID = node 1 7, Incarnation = 101, EState = StateLeft, LastUpdate = at_wall 8\<rparr>"
  by (simp add: world2_def world1_def ManagerRun_def http_leave_def Snapshot_def NewStore_def leave_store_def SelfID_def
      ApplyLocked_def apply_entry_def Let_def)

text \<open>Instead, node 2 may start and ask to join; node 1 lists it, hears nothing more, and scans.\<close>

definition sample_env2 :: start_env where
  "sample_env2 = sample_env\<lparr>e_flags := no_flags\<lparr>fIntroducer := Some ''i''\<rparr>,
     e_resolver := (\<lambda>_. Some (Some [10, 0, 0, 2], 5000))\<rparr>"

definition sample_member :: Config where "sample_member = (Defaults ''a'')\<lparr>cIntroducer := ''i''\<rparr>"

lemma sample_main2: "main_start sample_env2 = Inr (sample_member, sample_world 2 sample_member)"
proof -
  have "LoadFromFlags (\<lambda>_. True) (\<lambda>_. True) ''a'' (no_flags\<lparr>fIntroducer := Some ''i''\<rparr>) = Inr sample_member"
    using admin_8080 cfg_ok_Defaults [of "''a''"]
    by (simp add: LoadFromFlags_def no_flags_def Defaults_def given_def ValidateLocalBootstrap_def sample_member_def
        validateUDPAddr_def cfg_ok_def ValidateClusterParams_def Let_def ms_def split: if_splits)
  then show ?thesis
    using boot_sample [of 2 sample_member]
    by (simp add: main_start_def sample_env2_def sample_env_def Listen_def)
qed

definition request2 :: json where
  "request2 = the (EncodeJoinRequest \<lparr>QList = [sample 2 100 StateAlive 6]\<rparr>)"

lemma request2: "EncodeJoinRequest \<lparr>QList = [sample 2 100 StateAlive 6]\<rparr> = Some request2"
  "DecodeJoinRequest request2 = Some \<lparr>QList = [sample 2 100 StateAlive 6]\<rparr>"
proof -
  have "timely [sample 2 100 StateAlive 6]"
    by (simp add: timely_def first_instant_def last_instant_def)
  with request_decodes [of "[sample 2 100 StateAlive 6]"] show
    "EncodeJoinRequest \<lparr>QList = [sample 2 100 StateAlive 6]\<rparr> = Some request2"
    "DecodeJoinRequest request2 = Some \<lparr>QList = [sample 2 100 StateAlive 6]\<rparr>"
    by (auto simp: request2_def)
qed

lemma member_asks:
  "\<exists>w'. join_request (at_wall 6) [key_of (node 2 7)] (sample_world 2 sample_member) = (w', Some request2)"
  using request2(1)
  by (simp add: join_request_def Snapshot_def NewStore_def sample_def Let_def)

definition world3 :: World where
  "world3 = fst (handleJoin (\<lambda>_. at_wall 7) (at_wall 7) two_keys (Some request2) (world1\<lparr>accepting := True\<rparr>))"

lemma world3_store: "st world3 = touched (at_wall 7) (two_nodes sample_introducer StateAlive 6)"
proof -
  have "updateMemberEntry now (st world1) (sample 2 100 StateAlive 6) = two_nodes sample_introducer StateAlive 6" for now
    by (simp add: world1_def ManagerRun_def two_nodes_def updateMemberEntry_def NewStore_def)
  then show ?thesis
    by (simp add: world3_def handleJoin_def request2(2) Let_def split_beta)
qed


lemma world3_waits: "mgr_waits world3"
proof -
  have "mgr_stop world3 = mgr_stop world1" "mgr_ended world3 = mgr_ended world1"
    by (simp_all add: world3_def handleJoin_def split_beta Let_def split: option.split)
  then show ?thesis by (simp add: mgr_waits_def world1_def ManagerRun_def sample_world_def)
qed

lemma world3_sm: "sm world3 = \<lparr>TSuspect = 0, TFail = 2000000000, TCleanup = 3000000000,
    UsePingTimeout = True, MInflight = Some 0, failMarks = 0\<rparr>"
proof -
  have "sm world3 = sm world1" by (simp add: world3_def handleJoin_def split_beta Let_def split: option.split)
  then show ?thesis by (simp add: world1_def ManagerRun_def sample_introducer_def Defaults_def ms_def)
qed

definition late :: tick_env where
  "late = \<lparr>t_now = at_wall 2500000000, t_clock = at_wall 0, t_snap1 = at_wall 2500000000, t_ord1 = two_keys,
     t_snap2 = at_wall 0, t_ord2 = [], t_nonces = []\<rparr>"

lemma judged_failed:
  "judged (at_wall 2500000000) 0 2000000000 3000000000 (node 1 7) (sample 2 100 StateAlive 6) =
     Some (sample 2 100 StateFailed 6)"
  by (simp add: judged_def time_Sub_def time_diff_def sat64_def add64_def at_wall_def sample_def node_def int64_defs Let_def)

lemma two_nodes_scan:
  "\<exists>s. scanOnce clock (at_wall 2500000000) two_keys (at_wall 2500000000) 0 2000000000 3000000000
      (touched now (two_nodes c StateAlive 6), 0) = Running s \<and>
     entries (fst s) (key_of (node 2 7)) = Some (sample 2 100 StateFailed 6)"
proof -
  let ?s = "touched now (two_nodes c StateAlive 6)"
  have i: "store_inv ?s" "iteration two_keys (entries ?s)"
    using two_nodes_simps(5) [of c StateAlive 6]
    by (simp_all add: store_inv_touched iteration_def del: two_nodes_simps(5))
  have "self_left ?s = None" by (simp add: self_left_def two_nodes_entries)
  then show ?thesis
    using scan_entries [OF i, of clock "at_wall 2500000000" 0 2000000000 3000000000 "at_wall 2500000000" 0 "key_of (node 2 7)"]
    by (simp add: scanOnce_unfold [OF i] judged_failed)
qed


lemma late_scan:
  assumes "daemon_inv world3"
  shows "\<exists>w. scan_world late world3 = Running w \<and> entries (st w) (key_of (node 2 7)) = Some (sample 2 100 StateFailed 6)"
proof -
  obtain s where "scanOnce (t_clock late) (t_snap1 late) (t_ord1 late) (t_now late) (TSuspect (sm world3))
      (TFail (sm world3)) (TCleanup (sm world3)) (st world3, failMarks (sm world3)) = Running s"
    "entries (fst s) (key_of (node 2 7)) = Some (sample 2 100 StateFailed 6)"
    using two_nodes_scan [of "at_wall 0" "at_wall 7" sample_introducer] by (auto simp: world3_sm world3_store late_def)
  then show ?thesis by (cases s) (simp add: scan_world_def manager_tick_scan [OF assms])
qed

text \<open>The cluster after node 2 has asked, and after node 1 has started to listen and answered.\<close>

definition net_asked :: "World \<Rightarrow> Net" where
  "net_asked w = (put_proc 1 sample_member (Asked, w)
     ((put_proc 1 sample_member (Joining, sample_world 2 sample_member) net1)
       \<lparr>made := insert (ToDTO sample_member) (made net1)\<rparr>))\<lparr>packets := {Req request2}\<rparr>"

lemma nreach_asked: "\<exists>w. nreach (net_asked w)"
proof -
  let ?m = sample_member
  define n2 where "n2 = (put_proc 1 ?m (Joining, sample_world 2 ?m) net1)\<lparr>made := insert (ToDTO ?m) (made net1)\<rparr>"
  have ph: "first_phase ?m = Joining" by (simp add: first_phase_def sample_member_def Defaults_def)
  have fl: "flag_ints (e_flags sample_env2)" by (simp add: flag_ints_def sample_env2_def no_flags_def)
  have "procs net1 1 = None" by (simp add: net1_def net0_def put_proc_def no_net_def)
  from nreach.step [OF nreach_net1 nstep.boot [OF this fl sample_main2]]
  have r2: "nreach n2" by (simp add: ph n2_def)
  obtain w where a: "join_request (at_wall 6) [key_of (node 2 7)] (sample_world 2 ?m) = (w, Some request2)"
    using member_asks by blast
  have "procs n2 1 = Some (?m, Joining, sample_world 2 ?m)" by (simp add: n2_def put_proc_def)
  from nstep.move [OF this pstep.solo [OF solo_step.join_asks [OF a]]]
  have "nstep n2 (net_asked w)" by (simp add: net_asked_def n2_def [symmetric]) (simp add: n2_def put_proc_def net1_def)
  with r2 show ?thesis using nreach.step by blast
qed

text \<open>How node 1 goes on from a network in which the request of node 2 is on its way.\<close>

lemma introducer_answers:
  assumes "procs N 0 = Some (sample_introducer, Serving, world1)" and "Req request2 \<in> packets N"
  shows "\<exists>N1 N2. nstep N N1 \<and> nstep N1 N2 \<and> procs N2 = (procs N)(0 \<mapsto> (sample_introducer, Serving, world3)) \<and>
     procs N1 = (procs N)(0 \<mapsto> (sample_introducer, Serving, world1\<lparr>accepting := True\<rparr>))"
proof -
  let ?i = sample_introducer and ?w = "world1\<lparr>accepting := True\<rparr>"
  have u: "startIntroducerServer (\<lambda>_. True) (cIntroducerBindAddr ?i) world1 = Running ?w"
    by (simp add: startIntroducerServer_def)
  define N1 where "N1 = (put_proc 0 ?i (Serving, ?w) N)\<lparr>packets := packets N \<union> {}\<rparr>"
  have 1: "nstep N N1"
    unfolding N1_def using nstep.move [OF assms(1) pstep.solo [OF solo_step.introducer [OF sample_introducer_simps(1) u]]] by simp
  have p: "procs N1 = (procs N)(0 \<mapsto> (?i, Serving, ?w))" "Req request2 \<in> packets N1"
    using assms(2) by (simp_all add: N1_def put_proc_def)
  obtain out where h: "handleJoin (\<lambda>_. at_wall 7) (at_wall 7) two_keys (Some request2) ?w = (world3, out)"
    by (metis prod.collapse world3_def)
  have a: "accepting ?w" and q: "procs N1 0 = Some (?i, Serving, ?w)" using p(1) by simp_all
  have "taken Req DecodeJoinRequest (Some request2) \<subseteq> packets N1" using p(2) by (simp add: taken_def)
  from nstep.move [OF q pstep.introduce [OF sample_introducer_simps(1) a h] this]
  have "\<exists>N2. nstep N1 N2 \<and> procs N2 = (procs N)(0 \<mapsto> (?i, Serving, world3))"
    using p(1) by (auto simp: put_proc_def)
  with 1 p(1) show ?thesis by blast
qed

lemma asked_simps:
  "procs (net_asked w) 0 = Some (sample_introducer, Serving, world1)" "Req request2 \<in> packets (net_asked w)"
  by (simp_all add: net_asked_def put_proc_def net1_def)

lemma accusing_run:
  "\<exists>N w. nreach N \<and> procs N 0 = Some (sample_introducer, Serving, w) \<and>
     entries (st w) (key_of (node 2 7)) = Some (sample 2 100 StateFailed 6)"
proof -
  obtain w0 where r: "nreach (net_asked w0)" using nreach_asked by blast
  obtain N1 N where "nstep (net_asked w0) N1" "nstep N1 N"
    and p: "procs N = (procs (net_asked w0))(0 \<mapsto> (sample_introducer, Serving, world3))"
    using introducer_answers [OF asked_simps] by blast
  then have rN: "nreach N" using r nreach.step by blast
  have p0: "procs N 0 = Some (sample_introducer, Serving, world3)" using p by simp
  have "daemon_inv world3" using net_proc_daemon [OF net_invD [OF nreach_inv [OF rN] p0]] by simp
  then obtain w where w: "scan_world late world3 = Running w"
    "entries (st w) (key_of (node 2 7)) = Some (sample 2 100 StateFailed 6)" using late_scan by blast
  show ?thesis
    using nreach.step [OF rN nstep.scan [OF p0 w(1) world3_waits]] w(2) by (fastforce simp: put_proc_def)
qed

section \<open>Beliefs\<close>

text \<open>
  When operations are atomic, no member is invented and nobody speaks for another. Whatever the network loses, repeats and
  reorders, whoever is killed and started again: every entry in the store of any process has an
  identity and an incarnation that a process of this identity once had in its own entry for itself; if
  the entry is no accusation (Suspect or Failed), that process had exactly this state; and if it says
  Left, the administrator asked that node to leave.
\<close>

theorem network_claims:
  assumes "nreach N" and "procs N i = Some (c, ph, w)" and "entries (st w) k = Some e"
  shows "(\<exists>x. (ID e, Incarnation e, x) \<in> said N) \<and>
     (EState e \<noteq> StateSuspect \<and> EState e \<noteq> StateFailed \<longrightarrow> (ID e, Incarnation e, EState e) \<in> said N) \<and>
     (EState e = StateLeft \<longrightarrow> ID e \<in> leavers N)"
  using net_invD [OF nreach_inv [OF assms(1)] assms(2)] assms(3)
  by (auto simp: net_proc_def all_entries_def public_def claimed_def left_asked_def)

theorem network_claims_witness:
  "(node 1 7, 101, StateLeft) \<in> said net2 \<and> node 1 7 \<in> leavers net2"
proof -
  have "procs net2 0 = Some (sample_introducer, Serving, world2)" by (simp add: net2_def put_proc_def)
  from network_claims [OF nreach_net2 this world2_entry] show ?thesis by simp
qed

text \<open>
  When operations are atomic, accusations have a cause. Whenever any process holds another member, or itself, to be Suspect or
  Failed, some process in the cluster has scanned its list and found this identity, at this very
  incarnation, silent for at least the threshold in force (\<open>silent\<close>): accusations are made by scans
  only, are never carried over to another incarnation or boot, and no message invents them.
\<close>

theorem accusations_have_cause:
  assumes "nreach N" and "procs N i = Some (c, ph, w)" and "entries (st w) k = Some e"
    and "EState e = StateSuspect \<or> EState e = StateFailed"
  shows "(ID e, Incarnation e) \<in> accused N"
  using net_invD [OF nreach_inv [OF assms(1)] assms(2)] assms(3,4)
  by (auto simp: net_proc_def all_entries_def public_def accusable_def)

theorem accusations_have_cause_witness:
  "\<exists>(N :: Net) w. procs N 0 = Some (sample_introducer, Serving, w) \<and>
     entries (st w) (key_of (node 2 7)) = Some (sample 2 100 StateFailed 6) \<and> (node 2 7, 100) \<in> accused N"
proof -
  obtain N w where n: "nreach N" "procs N 0 = Some (sample_introducer, Serving, w)"
    "entries (st w) (key_of (node 2 7)) = Some (sample 2 100 StateFailed 6)" using accusing_run by blast
  from accusations_have_cause [OF n] have "(node 2 7, 100) \<in> accused N" by simp
  with n show ?thesis by blast
qed


text \<open>
  When operations are atomic, nobody leaves unasked. A scan ends a process, and an iteration of a receive loop
  ends the loop on a datagram, only if the administrator asked its node to leave: no message of the network can bring that about.
\<close>

theorem stops_only_after_leave:
  assumes "nreach N" and "procs N i = Some (c, ph, w)"
    and "scan_world v w = Exited \<or> snd (ping_recv (ping_at r) rv (Datagram b src) w) = Stopped \<or>
      snd (gossip_recv (gossip_at r) rv (Datagram b src) w) = Stopped"
  shows "SelfID (st w) \<in> leavers N"
proof -
  note p = net_invD [OF nreach_inv [OF assms(1)] assms(2)]
  have d: "daemon_inv w" using net_proc_daemon [OF p] by simp
  have left: "selfID (st w) \<in> leavers N"
    if "entries s = entries (st w)" "selfID s = selfID (st w)" "Snapshot now ord s = (list, self, s')"
      "e \<in> set list" "ID e = self" "EState e = StateLeft" for s now ord list self s' e
  proof -
    have "all_entries (traced (said N) (leavers N) (accused N) (selfID (st w))) s"
      using net_proc_ok [OF p] that(1) by (simp add: proc_ok_def all_entries_def)
    from traced.law_snapshot(2) [OF that(3) this that(2,4)] have "left_asked (leavers N) e" by (simp add: traced_def)
    moreover have "self = selfID s" using that(3) by (auto simp: Snapshot_def split: prod.splits)
    ultimately show ?thesis using that(2,5,6) by (simp add: left_asked_def)
  qed
  have scan: ?thesis if "scan_world v w = Exited"
  proof -
    have x: "scanOnce (t_clock v) (t_snap1 v) (t_ord1 v) (t_now v) (TSuspect (sm w)) (TFail (sm w))
        (TCleanup (sm w)) (st w, failMarks (sm w)) = Exited"
      using that by (auto simp: scan_world_def manager_tick_scan [OF d] split: outcome.splits)
    obtain list self s' where s: "Snapshot (t_snap1 v) (t_ord1 v) (st w) = (list, self, s')" by (metis prod.exhaust)
    with x obtain e where f: "find (\<lambda>e. ID e = self \<and> EState e = StateLeft) list = Some e"
      by (auto simp: scanOnce_def split: option.splits)
    then have "e \<in> set list" "ID e = self" "EState e = StateLeft" by (auto simp: find_Some_iff)
    then show ?thesis using left [OF refl refl s] by (simp add: SelfID_def)
  qed
  have listed: ?thesis
    if "take_snapshot ops now ord (apply_config ops m w) = (list, self, w2)" "lists_self_left list self"
      "get_store ops = st" "on_config ops = Some onConfigFromWire" for ops now ord m list self w2
  proof -
    have "entries (st (apply_config ops m w)) = entries (st w)" "selfID (st (apply_config ops m w)) = selfID (st w)"
      using that(4) by (simp_all add: apply_config_def split: option.split)
    then show ?thesis
      using left that(1-3) by (auto simp: take_snapshot_def lists_self_left_def list_ex_iff SelfID_def split: prod.splits)
  qed
  show ?thesis
    using assms(3) scan listed
    by (auto simp: ping_recv_def gossip_recv_def Let_def split: if_splits option.splits prod.splits)
qed


theorem stops_only_after_leave_witness:
  "snd (ping_recv (ping_at 2) \<lparr>r_coin = 0, r_snap = at_wall 9, r_ord = [key_of (node 1 7)], r_clk = (\<lambda>_. at_wall 9),
       r_snap2 = at_wall 9, r_ord2 = []\<rparr> (Datagram (Some (JObj [])) ()) world2) = Stopped \<and>
   SelfID (st world2) \<in> leavers net2"
proof -
  let ?v = "\<lparr>r_coin = 0, r_snap = at_wall 9, r_ord = [key_of (node 1 7)], r_clk = (\<lambda>_. at_wall 9),
       r_snap2 = at_wall 9, r_ord2 = []\<rparr>"
  have "cDropRateRecv sample_introducer = Fin 0" "cMode sample_introducer = ModePingAck"
    by (simp_all add: sample_introducer_def Defaults_def)
  then have "\<not> drops (PDropRateRecv (get_ping (ping_at 2) world2)) 0"
    by (simp add: drops_def ping_at_def world2_def world1_def ManagerRun_def http_leave_def split_beta startProtocol_def Let_def
        NewPingAck_def PingSetConfigDTO_def stopGossip_def sample_world_def f64_less.simps NewGossip_def)
  moreover have "selfID (st world2) = node 1 7"
    by (simp add: world2_def world1_def ManagerRun_def http_leave_def split_beta leave_store_inv NewStore_def)
  ultimately have s: "snd (ping_recv (ping_at 2) ?v (Datagram (Some (JObj [])) ()) world2) = Stopped"
    by (simp add: ping_recv_def decode_datagram_def DecodeMessage_def zeroMessage_def apply_config_def Let_def
        take_snapshot_def Snapshot_def world2_entry lists_self_left_def)
  have "procs net2 0 = Some (sample_introducer, Serving, world2)" by (simp add: net2_def put_proc_def)
  from stops_only_after_leave [OF nreach_net2 this disjI2 [OF disjI1 [OF s]]] s show ?thesis by blast
qed

section \<open>Configurations\<close>

lemma reachable_bootstrap: "reachable c p \<Longrightarrow> adopt c (cfg (snd p)) = cfg (snd p)"
proof (induction rule: reachable.induct)
  case (start r l t now w)
  then show ?case using boot_cfg by simp
next
  case (step p q)
  then show ?case using cfg_moves [OF step.hyps(2)] adopt_bootstrap by auto
qed

text \<open>
  Configurations are adopted as a whole and only from where they may come. In every process of the
  cluster the current cluster parameters, and those that each of its loops sends along, are exactly the
  parameters of one valid configuration that some process was started with or some administrator's
  change produced, at the same version; the bootstrap part is always the process's own.
\<close>

theorem configurations_are_whole:
  assumes "nreach N" and "procs N i = Some (c, ph, w)"
  shows "ToDTO (cfg w) \<in> made N \<and> adopt c (cfg w) = cfg w \<and>
     (\<forall>r l. pings w r = Some l \<longrightarrow> PcfgDTO l \<in> made N) \<and> (\<forall>r l. gossips w r = Some l \<longrightarrow> GcfgDTO l \<in> made N) \<and>
     (\<forall>d \<in> made N. \<exists>k. d = ToDTO k \<and> ValidateClusterParams k = None \<and> cfg_ints k)"
proof -
  have i: "net_inv N" using nreach_inv [OF assms(1)] .
  note p = net_invD [OF i assms(2)]
  have "adopt c (cfg w) = cfg w"
    using reachable_bootstrap [of c "(ph, w)"] p by (simp add: net_proc_def)
  moreover have "\<exists>k. d = ToDTO k \<and> ValidateClusterParams k = None \<and> cfg_ints k" if "d \<in> made N" for d
    using i that by (auto simp: net_inv_def whole_def cfg_ok_def)
  ultimately show ?thesis using p by (simp add: net_proc_def from_made_def)
qed

theorem configurations_are_whole_witness:
  "ToDTO (cfg world2) \<in> {ToDTO sample_introducer} \<and> (\<exists>k. ToDTO sample_introducer = ToDTO k \<and> cfg_ints k)"
proof -
  have m: "made net2 = {ToDTO sample_introducer}"
    by (simp add: net2_def net1_def net0_def put_proc_def)
  have "procs net2 0 = Some (sample_introducer, Serving, world2)" by (simp add: net2_def put_proc_def)
  from configurations_are_whole [OF nreach_net2 this] show ?thesis unfolding m by blast
qed

end
