(* ===== verification/NetQuiet.thy ===== *)
theory NetQuiet
  imports NetProps
begin

text \<open>
  The end of a member: what becomes of a node in the stores and packets of the cluster once its process
  is gone. No process but its own renews its heartbeat, so that the instants at which it was last heard
  of stay among those known when it died; and every scan far enough from these removes it.
\<close>

section \<open>Instants of the last heartbeat\<close>

text \<open>The identities of the endpoint of \<open>X\<close> up to the boot of \<open>X\<close>, and an instant as it is or as it is sent.\<close>

definition earlier :: "NodeID \<Rightarrow> NodeID set" where
  "earlier X = {n. key_of n = key_of X \<and> TimeStamp n \<le> TimeStamp X}"

definition instants :: "gotime set \<Rightarrow> gotime set" where
  "instants T = T \<union> strip_mono ` T"

text \<open>
  The entries for \<open>X\<close> are as old as \<open>T\<close> says. No entry is of an older boot of the same endpoint: a store
  that replaces one by \<open>X\<close> enters its own time as the heartbeat.
\<close>

definition dated :: "NodeID \<Rightarrow> gotime set \<Rightarrow> MemberEntry \<Rightarrow> bool" where
  "dated X T e \<longleftrightarrow> (key_of (ID e) = key_of X \<longrightarrow> TimeStamp X \<le> TimeStamp (ID e)) \<and>
     (ID e = X \<longrightarrow> LastUpdate e \<in> instants T)"

definition dated_at :: "NodeID \<Rightarrow> gotime set \<Rightarrow> NodeID \<Rightarrow> MemberEntry \<Rightarrow> bool" where
  "dated_at X T me e \<longleftrightarrow> me \<in> earlier X \<or> dated X T e"

lemma strip_strip [simp]: "strip_mono (strip_mono t) = strip_mono t"
  by (simp add: strip_mono_def)

lemma instants_strip: "t \<in> instants T \<Longrightarrow> strip_mono t \<in> instants T"
  by (auto simp: instants_def)

lemma dated_on_wire: "dated X T e \<Longrightarrow> dated X T (on_wire e)"
  by (simp add: dated_def on_wire_def instants_strip)

lemma self_earlier [simp]: "X \<in> earlier X"
  by (simp add: earlier_def)

interpretation dated: talk_law "dated_at X T me" "\<lambda>n i. True" me "dated X T" "\<lambda>s. dated_at X T (selfID s)"
  for X T me
proof unfold_locales
  show "dated_at X T (selfID s) (on_wire e)"
    if "all_entries (dated_at X T me) s" "selfID s = me" "store_inv s" "entries s k = Some e" for s k e
    using that dated_on_wire [of X T e] by (auto simp: all_entries_def dated_at_def)
  show "dated_at X T me (e\<lparr>LastUpdate := t\<rparr>)" if "dated_at X T me e" "ID e = me" for e t
    using that by (auto simp: dated_at_def dated_def)
  show "dated_at X T me (e\<lparr>LastUpdate := t\<rparr>)"
    if "dated_at X T me d" "dated_at X T me e" "key_of (ID d) = key_of (ID e)" "TimeStamp (ID d) < TimeStamp (ID e)"
    for d e t
    using that by (auto simp: dated_at_def dated_def)
qed (auto simp: dated_at_def dated_def)

interpretation dated_leaver: leaving_law "dated_at X T me" "\<lambda>n i. True" me for X T me
  by unfold_locales (auto simp: dated_at_def dated_def)

section \<open>Runs without the member\<close>

text \<open>The entries that a receiver can read in a packet.\<close>

fun listed_in :: "packet \<Rightarrow> MemberEntry list" where
  "listed_in (Udp j) = (case DecodeMessage j of None \<Rightarrow> [] | Some m \<Rightarrow> MList m)"
| "listed_in (Req j) = (case DecodeJoinRequest j of None \<Rightarrow> [] | Some q \<Rightarrow> QList q)"
| "listed_in (Resp j) = (case DecodeJoinResponse j of None \<Rightarrow> [] | Some r \<Rightarrow> RList r)"

lemma packet_ok_listed: "packet_ok B M x \<Longrightarrow> e \<in> set (listed_in x) \<Longrightarrow> B e"
  by (cases x) (auto simp: entries_ok_def dest: sym [of "Some _"] split: option.splits)

lemma packet_ok_conj: "packet_ok B M x \<Longrightarrow> \<forall>e \<in> set (listed_in x). B' e \<Longrightarrow> packet_ok B' M x"
  by (cases x) (auto simp: entries_ok_def split: option.splits)

text \<open>No process runs as \<open>X\<close> or an older boot of its endpoint.\<close>

definition absent :: "NodeID \<Rightarrow> Net \<Rightarrow> bool" where
  "absent X N \<longleftrightarrow> (\<forall>i c ph w. procs N i = Some (c, ph, w) \<longrightarrow> SelfID (st w) \<notin> earlier X)"

definition heard_at :: "NodeID \<Rightarrow> gotime set \<Rightarrow> Net \<Rightarrow> bool" where
  "heard_at X T N \<longleftrightarrow>
     (\<forall>i c ph w. procs N i = Some (c, ph, w) \<longrightarrow> all_entries (dated X T) (st w)) \<and>
     (\<forall>x \<in> packets N. \<forall>e \<in> set (listed_in x). dated X T e)"

inductive quiet :: "NodeID \<Rightarrow> Net \<Rightarrow> Net \<Rightarrow> bool" for X :: NodeID and N :: Net where
  start: "absent X N \<Longrightarrow> quiet X N N"
| step: "quiet X N N' \<Longrightarrow> nstep N' N'' \<Longrightarrow> absent X N'' \<Longrightarrow> quiet X N N''"

lemma heard_proc:
  assumes "heard_at X T N" and "procs N i = Some (c, p)" and "net_inv N"
  shows "proc_ok (dated_at X T (selfID (st (snd p)))) (made N) c (selfID (st (snd p))) (snd p)"
  using net_proc_ok [OF net_invD [OF assms(3,2)]] assms(1,2)
  by (cases p) (auto simp: proc_ok_def heard_at_def dated_at_def all_entries_def)

text \<open>One process moves.\<close>

lemma heard_move:
  assumes "heard_at X T N" and "procs N' = (procs N)(i \<mapsto> (c, q))" and "packets N' = packets N \<union> outs"
    and "absent X N'" and "step_ok (dated_at X T (selfID (st (snd q)))) (\<lambda>s. dated_at X T (selfID s)) M c
      (selfID (st (snd q))) outs (snd q)"
  shows "heard_at X T N'"
proof -
  have "procs N' i = Some (c, fst q, snd q)" using assms(2) by simp
  then have "selfID (st (snd q)) \<notin> earlier X" using assms(4) unfolding absent_def SelfID_def by blast
  then have at: "dated_at X T (selfID (st (snd q))) = dated X T" by (simp add: dated_at_def fun_eq_iff)
  then have "all_entries (dated X T) (st (snd q))" "\<forall>x \<in> outs. \<forall>e \<in> set (listed_in x). dated X T e"
    using assms(5) packet_ok_listed [of "dated X T" M] by (auto simp: step_ok_def proc_ok_def)
  then show ?thesis using assms(1-3) by (auto simp: heard_at_def)
qed

lemma boot_dated:
  assumes "boot r l t now c = Inr w" and "selfID (st w) \<notin> earlier X"
  shows "all_entries (dated X T) (st w)"
proof -
  obtain self where "st w = NewStore now self c" using boot_facts [OF assms(1)] by blast
  with assms(2) show ?thesis by (auto simp: all_entries_def NewStore_def dated_def earlier_def)
qed

lemma heard_step:
  assumes "nstep N N'" and "net_inv N" and "heard_at X T N" and "absent X N'"
  shows "heard_at X T N'"
  using assms
proof (induction rule: nstep.induct)
  case (boot N i v c w)
  have "procs ((put_proc i c (first_phase c, w) N)\<lparr>made := insert (ToDTO c) (made N)\<rparr>) i = Some (c, first_phase c, w)"
    by (simp add: put_proc_def)
  then have "selfID (st w) \<notin> earlier X" using boot.prems(3) unfolding absent_def SelfID_def by blast
  from boot_dated [OF main_start_facts(2) [OF boot.hyps(3)] this] boot.prems(2) show ?case
    by (auto simp: heard_at_def put_proc_def)
next
  case (move N i c p ins outs q)
  have in_ok: "\<forall>x \<in> ins. packet_ok (dated X T) (made N) x"
  proof
    fix x assume "x \<in> ins"
    then have x: "x \<in> packets N" using move.hyps(3) by blast
    then have "packet_ok (public (said N) (leavers N) (accused N)) (made N) x"
      using move.prems(1) unfolding net_inv_def by blast
    then show "packet_ok (dated X T) (made N) x"
      using packet_ok_conj x move.prems(2) unfolding heard_at_def by blast
  qed
  note p = heard_proc [OF move.prems(2) move.hyps(1) move.prems(1)]
  have s: "step_ok (dated_at X T (selfID (st (snd p)))) (\<lambda>s. dated_at X T (selfID s)) (made N) c (selfID (st (snd p))) outs (snd q)"
    using dated.pstep_ok [OF move.hyps(2) p net_proc_daemon [OF net_invD [OF move.prems(1) move.hyps(1)]] _ in_ok]
      move.prems(1) by (simp add: net_inv_def)
  then have "selfID (st (snd q)) = selfID (st (snd p))" by (simp add: step_ok_def proc_ok_def)
  with s show ?case
    by (intro heard_move [OF move.prems(2) _ _ move.prems(3), of i c q outs "made N"]) (simp_all add: put_proc_def)
next
  case (scan N i c ph w v w')
  note p = heard_proc [OF scan.prems(2) scan.hyps(1) scan.prems(1), simplified]
  have d: "daemon_inv w" using net_proc_daemon [OF net_invD [OF scan.prems(1) scan.hyps(1)]] by simp
  have s: "proc_ok (dated_at X T (selfID (st w))) (made N) c (selfID (st w)) w'"
    by (rule dated.proc_ok_scan [OF p d scan.hyps(2)]) auto
  then have "selfID (st w') = selfID (st w)" by (simp add: proc_ok_def)
  with s show ?case
    by (intro heard_move [OF scan.prems(2) _ _ scan.prems(3), of i c "(ph, w')" "{}" "made N"])
      (simp_all add: put_proc_def step_ok_silent)
next
  case (set_config N i c w w' input)
  note p = heard_proc [OF set_config.prems(2) set_config.hyps(1) set_config.prems(1), simplified]
  have s: "proc_ok (dated_at X T (selfID (st w))) (insert (ToDTO (cfg w')) (made N)) c (selfID (st w)) w'"
    using proc_ok_http [OF p] set_config.hyps(2) by blast
  then have "selfID (st w') = selfID (st w)" by (simp add: proc_ok_def)
  with s show ?case
    by (intro heard_move [OF set_config.prems(2) _ _ set_config.prems(3), of i c "(Serving, w')" "{}"
          "insert (ToDTO (cfg w')) (made N)"]) (simp_all add: put_proc_def step_ok_silent)
next
  case (switch N i c w w' body)
  note p = heard_proc [OF switch.prems(2) switch.hyps(1) switch.prems(1), simplified]
  have s: "proc_ok (dated_at X T (selfID (st w))) (insert (ToDTO (cfg w')) (made N)) c (selfID (st w)) w'"
    using proc_ok_http [OF p] switch.hyps(2) by blast
  then have "selfID (st w') = selfID (st w)" by (simp add: proc_ok_def)
  with s show ?case
    by (intro heard_move [OF switch.prems(2) _ _ switch.prems(3), of i c "(Serving, w')" "{}"
          "insert (ToDTO (cfg w')) (made N)"]) (simp_all add: put_proc_def step_ok_silent)
next
  case (leave N i c w w' snap ord now)
  note p = heard_proc [OF leave.prems(2) leave.hyps(1) leave.prems(1), simplified]
  have s: "proc_ok (dated_at X T (selfID (st w))) (made N) c (selfID (st w)) w'"
    using dated_leaver.proc_ok_leave [OF p] leave.hyps(2) by simp
  then have "selfID (st w') = selfID (st w)" by (simp add: proc_ok_def)
  with s show ?case
    by (intro heard_move [OF leave.prems(2) _ _ leave.prems(3), of i c "(Serving, w')" "{}" "made N"])
      (simp_all add: put_proc_def step_ok_silent)
next
  case (die N i)
  then show ?case by (simp add: heard_at_def)
qed

lemma heard_quiet:
  assumes "quiet X N N'" and "nreach N" and "heard_at X T N"
  shows "nreach N' \<and> absent X N' \<and> heard_at X T N'"
  using assms
proof (induction rule: quiet.induct)
  case (step N' N'')
  then have "nreach N'" "heard_at X T N'" by simp_all
  then show ?case
    using step.hyps(2,3) heard_step [OF _ nreach_inv] nreach.step by blast
qed simp

section \<open>Removal\<close>

text \<open>A scan that is far enough from the instants of a member removes it, whatever its state.\<close>

lemma dated_scan:
  assumes "all_entries (dated X T) (st w)" and "SelfID (st w) \<notin> earlier X" and "daemon_inv w"
    and "scan_world v w = Running w'" and "iteration (t_ord1 v) (entries (st w))" and "self_left (st w) = None"
    and "thresholds_ok (TSuspect (sm w)) (TFail (sm w)) (TCleanup (sm w))"
    and "\<forall>t \<in> instants T. TSuspect (sm w) + TFail (sm w) + TCleanup (sm w) \<le> time_Sub (t_now v) t"
  shows "all_entries (\<lambda>e. ID e \<noteq> X) (st w')"
proof -
  let ?s = "touched (t_snap1 v) (st w)"
  let ?judge = "judged (t_now v) (TSuspect (sm w)) (TFail (sm w)) (TCleanup (sm w)) (selfID (st w))"
  have inv: "store_inv (st w)" using assms(3) by (simp add: daemon_inv_def)
  have self: "selfID (st w) \<noteq> X" using assms(2) by (auto simp: SelfID_def)
  have "st w' = fst (foldl (scan_entry (t_clock v) (t_now v) (TSuspect (sm w)) (TFail (sm w)) (TCleanup (sm w)))
      (?s, failMarks (sm w)) (fst (Snapshot (t_snap1 v) (t_ord1 v) (st w))))"
    using assms(4) assms(6)
    by (auto simp: scan_world_def manager_tick_scan [OF assms(3)] scanOnce_unfold [OF inv assms(5)] split: outcome.splits prod.splits)
  then have look: "entries (st w') k = Option.bind (entries ?s k) ?judge" for k
    using scan_entries [OF inv assms(5)] by simp
  have "ID e \<noteq> X" if e: "entries (st w') k = Some e" for k e
  proof
    assume X: "ID e = X"
    obtain d where d: "entries ?s k = Some d" "?judge d = Some e"
      using trans [OF look [of k, symmetric] e] unfolding bind_eq_Some_conv by blast
    have "ID d = X" using d(2) X by (auto simp: judged_def Let_def split: if_splits)
    moreover from this have "entries (st w) k = Some d" using d(1) self by (auto simp: touch_def split: if_splits)
    ultimately have "LastUpdate d \<in> instants T" using assms(1) by (auto simp: all_entries_def dated_def)
    then have "?judge d = None"
      using assms(8) self \<open>ID d = X\<close> by (auto simp: judged_sane [OF assms(7)] Let_def)
    with d(2) show False by simp
  qed
  then show ?thesis by (simp add: all_entries_def)
qed

text \<open>
  C11. A dead node is forgotten, provided that no older boot of its endpoint is left in any store or packet, sent
  packets included. Suppose that the process of the node is gone and that every entry for the node in any store
  or packet carries one of the instants \<open>T\<close> (with or without its monotonic reading). However the others go on,
  with atomic operations, exchanging packets that were sent before, losing them, being started and killed, as long as nobody starts as
  this node or an older boot of its endpoint: nobody renews the heartbeat of the node; and a scan by any
  process that has not left, whose thresholds are valid and do not overflow, at a time that is their sum past
  these instants, leaves no entry for the node, whatever state it was in. (Where an
  older boot is left, a store that replaces it by the node enters its own time as the heartbeat.)
\<close>

theorem dead_node_forgotten:
  assumes "nreach N" and "heard_at X T N" and "quiet X N N'" and "procs N' i = Some (c, ph, w)"
    and "scan_world v w = Running w'" and "iteration (t_ord1 v) (entries (st w))" and "self_left (st w) = None"
    and "thresholds_ok (TSuspect (sm w)) (TFail (sm w)) (TCleanup (sm w))"
    and "\<forall>t \<in> instants T. TSuspect (sm w) + TFail (sm w) + TCleanup (sm w) \<le> time_Sub (t_now v) t"
  shows "heard_at X T N' \<and> (\<forall>k e. entries (st w') k = Some e \<longrightarrow> ID e \<noteq> X)"
proof -
  note q = heard_quiet [OF assms(3,1,2)]
  have "daemon_inv w" using net_proc_daemon [OF net_invD [OF nreach_inv assms(4)]] q by simp
  from dated_scan [OF _ _ this assms(5-9)] q assms(4) show ?thesis
    by (auto simp: heard_at_def absent_def all_entries_def)
qed

text \<open>Node 2 asks to join and dies; node 1 lists it from its request, and forgets it five seconds later.\<close>

definition later :: tick_env where
  "later = late\<lparr>t_now := at_wall 5000000006, t_snap1 := at_wall 5000000006\<rparr>"

lemma world3_ready:
  "iteration (t_ord1 later) (entries (st world3))" "self_left (st world3) = None" "SelfID (st world3) = node 1 7"
  "thresholds_ok (TSuspect (sm world3)) (TFail (sm world3)) (TCleanup (sm world3))"
  "entries (st world3) (key_of (node 2 7)) = Some (sample 2 100 StateAlive 6)"
  "\<forall>t \<in> instants {at_wall 6}. TSuspect (sm world3) + TFail (sm world3) + TCleanup (sm world3) \<le> time_Sub (t_now later) t"
proof -
  have "iteration two_keys (entries (two_nodes sample_introducer StateAlive 6))" by (rule two_nodes_simps(5))
  then show "iteration (t_ord1 later) (entries (st world3))"
    by (simp add: world3_store iteration_def later_def late_def)
  show "\<forall>t \<in> instants {at_wall 6}. TSuspect (sm world3) + TFail (sm world3) + TCleanup (sm world3) \<le> time_Sub (t_now later) t"
    by (simp add: world3_sm instants_def later_def late_def time_Sub_def time_diff_def sat64_def at_wall_def
        strip_mono_def int64_defs)
qed (simp_all add: world3_store world3_sm SelfID_def self_left_def two_nodes_entries touch_def thresholds_ok_def int64_defs)

lemma world3_scan:
  assumes "daemon_inv world3"
  shows "\<exists>w. scan_world later world3 = Running w"
proof -
  have "store_inv (st world3)" using assms by (simp add: daemon_inv_def)
  from scanOnce_unfold [OF this world3_ready(1)] obtain y where
    "scanOnce (t_clock later) (t_snap1 later) (t_ord1 later) (t_now later) (TSuspect (sm world3))
      (TFail (sm world3)) (TCleanup (sm world3)) (st world3, failMarks (sm world3)) = Running y"
    by (simp add: world3_ready(2))
  then show ?thesis by (cases y) (simp add: scan_world_def manager_tick_scan [OF assms])
qed

text \<open>The network after the death of node 2, its request still on its way.\<close>

definition net_orphan :: "World \<Rightarrow> Net" where
  "net_orphan w = (net_asked w)\<lparr>procs := (procs (net_asked w))(1 := None)\<rparr>"

lemma orphan_facts:
  "procs (net_orphan w) = [0 \<mapsto> (sample_introducer, Serving, world1)]" "Req request2 \<in> packets (net_orphan w)"
  "heard_at (node 2 7) {at_wall 6} (net_orphan w)"
proof -
  show p: "procs (net_orphan w) = [0 \<mapsto> (sample_introducer, Serving, world1)]" "Req request2 \<in> packets (net_orphan w)"
    by (simp_all add: net_orphan_def net_asked_def put_proc_def net1_def net0_def no_net_def fun_eq_iff)
  have "packets (net_orphan w) = {Req request2}" by (simp add: net_orphan_def net_asked_def)
  moreover have "entries (st world1) k = Some e \<Longrightarrow> ID e = node 1 7" for k e
    by (auto simp: world1_def ManagerRun_def NewStore_def split: if_splits)
  moreover have "listed_in (Req request2) = [sample 2 100 StateAlive 6]" by (simp add: request2(2))
  ultimately show "heard_at (node 2 7) {at_wall 6} (net_orphan w)"
    using p(1) by (auto simp: heard_at_def all_entries_def dated_def instants_def simp del: listed_in.simps)
qed

lemma absent_intro:
  "procs N = [0 \<mapsto> (c, ph, w)] \<Longrightarrow> SelfID (st w) = node 1 7 \<Longrightarrow> absent (node 2 7) N"
  by (simp add: absent_def earlier_def)

lemma orphan_run:
  "\<exists>N'. quiet (node 2 7) (net_orphan w) N' \<and> procs N' 0 = Some (sample_introducer, Serving, world3)"
proof -
  have self: "SelfID (st world1) = node 1 7" by (simp add: world1_def ManagerRun_def NewStore_def SelfID_def)
  obtain N1 N2 where n: "nstep (net_orphan w) N1" "nstep N1 N2"
    "procs N2 = [0 \<mapsto> (sample_introducer, Serving, world3)]"
    "procs N1 = [0 \<mapsto> (sample_introducer, Serving, world1\<lparr>accepting := True\<rparr>)]"
    using introducer_answers [of "net_orphan w"] orphan_facts(1,2) by auto
  have "absent (node 2 7) (net_orphan w)" "absent (node 2 7) N1" "absent (node 2 7) N2"
    using absent_intro [OF orphan_facts(1) self] absent_intro [OF n(4)] absent_intro [OF n(3) world3_ready(3)] self
    by simp_all
  then have "quiet (node 2 7) (net_orphan w) N2" using n(1,2) quiet.intros by blast
  with n(3) show ?thesis by auto
qed

theorem dead_node_forgotten_witness:
  "\<exists>(N :: Net) w w'. procs N 0 = Some (sample_introducer, Serving, w) \<and>
     entries (st w) (key_of (node 2 7)) = Some (sample 2 100 StateAlive 6) \<and>
     scan_world later w = Running w' \<and> (\<forall>k e. entries (st w') k = Some e \<longrightarrow> ID e \<noteq> node 2 7)"
proof -
  obtain w0 where "nreach (net_asked w0)" using nreach_asked by blast
  then have r: "nreach (net_orphan w0)" unfolding net_orphan_def using nreach.step nstep.die by blast
  obtain N where q: "quiet (node 2 7) (net_orphan w0) N" and p: "procs N 0 = Some (sample_introducer, Serving, world3)"
    using orphan_run by blast
  have "daemon_inv world3"
    using net_proc_daemon [OF net_invD [OF nreach_inv p]] heard_quiet [OF q r orphan_facts(3)] by simp
  then obtain w' where s: "scan_world later world3 = Running w'" using world3_scan by blast
  from dead_node_forgotten [OF r orphan_facts(3) q p s world3_ready(1,2,4,6)] p s world3_ready(5) show ?thesis
    by blast
qed

end
