(* ===== verification/SenderProps.thy ===== *)
theory SenderProps
  imports ProcLaw
begin

text \<open>
  The goroutines that send (\<open>pingLoop\<close> in \<open>protocol/pingack/loop.go\<close>, \<open>gossipLoop\<close> in
  \<open>protocol/gossip/loop.go\<close>): how the steps of the process move their local values, that their tickers are always
  valid, and when a ticker follows the configuration.
\<close>

section \<open>The steps of a sender\<close>

text \<open>What a step does to the sender of a loop with the period \<open>p\<close>, which may be closed.\<close>

definition sender_step :: "Duration \<Rightarrow> bool \<Rightarrow> sender \<Rightarrow> sender \<Rightarrow> bool" where
  "sender_step p stopped s s' \<longleftrightarrow>
     s' = s \<or> s' = sender_read p s \<or> s' = sender_ticked p s \<or> stopped \<and> s' = sender_stop s"

definition senders_step :: "World \<Rightarrow> World \<Rightarrow> bool" where
  "senders_step w w' \<longleftrightarrow>
     (\<forall>r. ping_senders w' r = ping_senders w r \<or>
        (\<exists>l. pings w r = Some l \<and> sender_step (PingEvery l) (PStop l) (ping_senders w r) (ping_senders w' r))) \<and>
     (\<forall>r. gossip_senders w' r = gossip_senders w r \<or>
        (\<exists>g. gossips w r = Some g \<and> sender_step (GossipPeriod g) (GStop g) (gossip_senders w r) (gossip_senders w' r)))"

lemma senders_idle:
  "ping_senders w' = ping_senders w \<Longrightarrow> gossip_senders w' = gossip_senders w \<Longrightarrow> senders_step w w'"
  by (simp add: senders_step_def)

lemma senders_one:
  "pings w r = Some l \<Longrightarrow> sender_step (PingEvery l) (PStop l) (ping_senders w r) (f (ping_senders w r)) \<Longrightarrow>
   ping_senders w' = ping_senders w \<Longrightarrow> gossip_senders w' = gossip_senders w \<Longrightarrow> senders_step w (with_ping_sender r f w')"
  "gossips w r = Some g \<Longrightarrow> sender_step (GossipPeriod g) (GStop g) (gossip_senders w r) (f (gossip_senders w r)) \<Longrightarrow>
   ping_senders w' = ping_senders w \<Longrightarrow> gossip_senders w' = gossip_senders w \<Longrightarrow> senders_step w (with_gossip_sender r f w')"
  by (auto simp: senders_step_def with_ping_sender_def with_gossip_sender_def)

section \<open>Frames\<close>

definition same_senders :: "World \<Rightarrow> World \<Rightarrow> bool" where
  "same_senders w w' \<longleftrightarrow> ping_senders w' = ping_senders w \<and> gossip_senders w' = gossip_senders w"

lemma same_senders_step: "same_senders w w' \<Longrightarrow> senders_step w w'"
  by (simp add: same_senders_def senders_idle)

named_theorems sender_frames \<open>operations that leave the senders alone\<close>

lemma loops_senders [sender_frames]:
  "ping_senders (stopPingAck w) = ping_senders w" "gossip_senders (stopPingAck w) = gossip_senders w"
  "ping_senders (stopGossip w) = ping_senders w" "gossip_senders (stopGossip w) = gossip_senders w"
  "ping_senders (reconfigurePing c w) = ping_senders w" "gossip_senders (reconfigurePing c w) = gossip_senders w"
  "ping_senders (reconfigureGossip c w) = ping_senders w" "gossip_senders (reconfigureGossip c w) = gossip_senders w"
  "ping_senders (reconfigureManager c w) = ping_senders w" "gossip_senders (reconfigureManager c w) = gossip_senders w"
  "ping_senders (refreshDTO d w) = ping_senders w" "gossip_senders (refreshDTO d w) = gossip_senders w"
  by (simp_all add: stopPingAck_def stopGossip_def reconfigurePing_def reconfigureGossip_def reconfigureManager_def
      refreshDTO_def Let_def split: option.split)

lemma start_senders [sender_frames]:
  "ping_senders (startProtocol c w) = ping_senders w" "gossip_senders (startProtocol c w) = gossip_senders w"
  by (simp_all add: startProtocol_def Let_def sender_frames)

lemma runtime_senders [sender_frames]:
  "ping_senders (applyRuntime p c w) = ping_senders w" "gossip_senders (applyRuntime p c w) = gossip_senders w"
  by (simp_all add: applyRuntime_def Let_def sender_frames)

lemma commit_senders [sender_frames]:
  "ping_senders (fst (commit_remote d w)) = ping_senders w" "gossip_senders (fst (commit_remote d w)) = gossip_senders w"
  "ping_senders (fst (commit_local d w)) = ping_senders w" "gossip_senders (fst (commit_local d w)) = gossip_senders w"
  by (simp_all add: commit_remote_def commit_local_def split_beta)

lemma daemon_senders [sender_frames]:
  "same_senders w (onConfigFromWire d w)" "same_senders w (Close w)" "same_senders w (ManagerRun w)"
  "same_senders w (ManagerEnd w)" "same_senders w (fst (local_change d w))"
  by (simp_all add: same_senders_def onConfigFromWire_def Close_def ManagerRun_def ManagerEnd_def local_change_fst Let_def
      split_beta sender_frames split: option.split del: commit_frames)

lemma http_senders [sender_frames]:
  "same_senders w (fst (http_set file w))" "same_senders w (fst (http_switch body w))"
  "same_senders w (fst (http_leave snap ord now w))" "same_senders w (fst (http_list_mem snap ord w))"
  "same_senders w (fst (http_display_suspects snap ord w))"
  using daemon_senders(5)
  by (auto simp: http_fst same_senders_def http_leave_def http_list_mem_def http_display_suspects_def split: option.split prod.split)

lemma join_senders [sender_frames]:
  "same_senders w (fst (join_request snap ord w))" "same_senders w (fst (join_response answer clk w))"
  "same_senders w (fst (handleJoin clk snap ord msg w))"
  by (simp_all add: same_senders_def join_request_def join_response_def handleJoin_def Let_def split_beta sender_frames
      del: commit_frames split: option.split)

lemma scan_senders [sender_frames]: "scan_world v w = Running w' \<Longrightarrow> same_senders w w'"
  by (auto simp: scan_world_def same_senders_def split: outcome.splits)

lemma introducer_senders [sender_frames]: "startIntroducerServer l s w = Running w' \<Longrightarrow> same_senders w w'"
  by (auto simp: startIntroducerServer_def same_senders_def split: if_splits)

lemma rx_senders: "rx m w w' \<Longrightarrow> same_senders w w'"
  by (induction rule: rx.induct) (use daemon_senders(1) in \<open>simp_all add: same_senders_def\<close>)

lemma rxs_senders: "(rx m)\<^sup>*\<^sup>* w w' \<Longrightarrow> same_senders w w'"
proof (induction rule: rtranclp_induct)
  case (step y z)
  then show ?case using rx_senders [OF step.hyps(2)] by (simp add: same_senders_def)
qed (simp add: same_senders_def)

lemma rx_from_senders: "rx_from input w w' \<Longrightarrow> same_senders w w'"
  using rxs_senders by (auto simp: rx_from_def same_senders_def)

lemma after_senders [sender_frames]:
  "same_senders w (fst res) \<Longrightarrow> same_senders w (after_ping r res)"
  "same_senders w (fst gres) \<Longrightarrow> same_senders w (after_gossip r gres)"
  by (simp_all add: same_senders_def after_ping_def after_gossip_def Let_def)

lemma tick_senders:
  "ping_tick (ping_at r) v prev w = (w', out, period) \<Longrightarrow>
     ping_senders w' = ping_senders w \<and> gossip_senders w' = gossip_senders w \<and> period = PingEvery (get_ping (ping_at r) w)"
  "gossip_tick (gossip_at r) v prev w = (w', out, period) \<Longrightarrow>
     ping_senders w' = ping_senders w \<and> gossip_senders w' = gossip_senders w \<and> period = GossipPeriod (get_gossip (gossip_at r) w)"
  using ping_tick_out [of r v prev w w' out period] gossip_tick_out [of r v prev w w' out period]
  by (auto simp: ping_tick_def gossip_tick_def Let_def split_beta)

lemma dstep_senders: "dstep c0 p q \<Longrightarrow> senders_step (snd p) (snd q)"
proof (induction rule: dstep.induct)
  case (ping_begin w r l ph)
  then show ?case by (simp add: senders_one sender_step_def)
next
  case (ping_send w r ticker prev sv w' out period ph)
  then obtain l where "pings w r = Some l" by blast
  then show ?case
    using tick_senders(1) [OF ping_send.hyps(3)] by (simp add: ping_at_def senders_one sender_step_def)
next
  case (ping_quit w r l ph)
  then show ?case by (simp add: senders_one sender_step_def)
next
  case (gossip_begin w r g ph)
  then show ?case by (simp add: senders_one sender_step_def)
next
  case (gossip_send w r ticker prev sv w' out period ph)
  then obtain g where "gossips w r = Some g" by blast
  then show ?case
    using tick_senders(2) [OF gossip_send.hyps(3)] by (simp add: gossip_at_def senders_one sender_step_def)
next
  case (gossip_quit w r g ph)
  then show ?case by (simp add: senders_one sender_step_def)
next
  case (ping_receive r w ph rv input)
  then show ?case
    by (simp add: same_senders_step [OF after_senders(1) [OF rx_from_senders [OF conjunct1 [OF ping_recv_rx]]]])
next
  case (gossip_receive r w ph rv input)
  then show ?case
    by (simp add: same_senders_step [OF after_senders(2) [OF rx_from_senders [OF conjunct1 [OF gossip_recv_rx]]]])
next
  case (join_fails snap ord w w')
  then show ?case using join_senders(1) [of w snap ord] by (simp add: same_senders_step)
next
  case (join_asks snap ord w w' j)
  then show ?case using join_senders(1) [of w snap ord] by (simp add: same_senders_step)
next
  case (join_retry answer clk w w')
  then show ?case using join_senders(2) [of w answer clk] by (simp add: same_senders_step)
next
  case (join_done answer clk w w')
  then show ?case using join_senders(2) [of w answer clk] by (simp add: same_senders_step)
qed (simp_all add: same_senders_step sender_frames senders_idle)

section \<open>Valid tickers\<close>

text \<open>What holds of a sender: its periods are positive, and it has ended only if its loop is closed.\<close>

fun sender_ok :: "bool \<Rightarrow> sender \<Rightarrow> bool" where
  "sender_ok stopped Unstarted = True"
| "sender_ok stopped (Starting ticker) = (0 < ticker)"
| "sender_ok stopped (Ticking ticker lastPeriod) = (0 < ticker \<and> 0 < lastPeriod)"
| "sender_ok stopped Ended = stopped"

lemma sender_ok_step:
  "sender_step p stopped s s' \<Longrightarrow> 0 < p \<Longrightarrow> sender_ok stopped s \<Longrightarrow> sender_ok stopped s'"
  by (cases s) (auto simp: sender_step_def sender_read_def sender_ticked_def sender_stop_def)

lemma sender_ok_mono: "sender_ok stopped s \<Longrightarrow> stopped \<longrightarrow> stopped' \<Longrightarrow> sender_ok stopped' s"
  by (cases s) auto

definition senders_ok :: "World \<Rightarrow> bool" where
  "senders_ok w \<longleftrightarrow>
     (\<forall>r. case pings w r of None \<Rightarrow> ping_senders w r = Unstarted | Some l \<Rightarrow> sender_ok (PStop l) (ping_senders w r)) \<and>
     (\<forall>r. case gossips w r of None \<Rightarrow> gossip_senders w r = Unstarted | Some g \<Rightarrow> sender_ok (GStop g) (gossip_senders w r))"

lemma senders_okD:
  assumes "senders_ok w"
  shows "pings w r = Some l \<Longrightarrow> sender_ok (PStop l) (ping_senders w r)"
    and "gossips w r = Some g \<Longrightarrow> sender_ok (GStop g) (gossip_senders w r)"
    and "sender_ok True (ping_senders w r)" and "sender_ok True (gossip_senders w r)"
proof -
  have "case pings w r of None \<Rightarrow> ping_senders w r = Unstarted | Some l \<Rightarrow> sender_ok (PStop l) (ping_senders w r)"
    "case gossips w r of None \<Rightarrow> gossip_senders w r = Unstarted | Some g \<Rightarrow> sender_ok (GStop g) (gossip_senders w r)"
    using assms unfolding senders_ok_def by blast+
  then show "pings w r = Some l \<Longrightarrow> sender_ok (PStop l) (ping_senders w r)"
    "gossips w r = Some g \<Longrightarrow> sender_ok (GStop g) (gossip_senders w r)"
    "sender_ok True (ping_senders w r)" "sender_ok True (gossip_senders w r)"
    using sender_ok_mono by (auto split: option.splits)
qed

lemma sender_ok_next:
  assumes "case l of None \<Rightarrow> s = Unstarted | Some x \<Rightarrow> sender_ok (stop x) s"
    and "s' = s \<or> (\<exists>x. l = Some x \<and> sender_step (per x) (stop x) s s')"
    and "\<And>x. l = Some x \<Longrightarrow> 0 < per x \<and> (\<exists>x'. l' = Some x' \<and> (stop x \<longrightarrow> stop x'))"
  shows "case l' of None \<Rightarrow> s' = Unstarted | Some x \<Rightarrow> sender_ok (stop x) s'"
proof (cases l)
  case None
  then show ?thesis using assms(1,2) by (simp split: option.split)
next
  case (Some x)
  then obtain x' where x: "0 < per x" "l' = Some x'" "stop x \<longrightarrow> stop x'" using assms(3) by blast
  have "sender_ok (stop x) s" using assms(1) Some by simp
  then have "sender_ok (stop x) s'" using assms(2) Some x(1) sender_ok_step by auto
  then show ?thesis using x sender_ok_mono by simp
qed

lemma senders_ok_step:
  assumes "senders_step w w'" and "evolves w w'" and "tuned w" and "senders_ok w"
  shows "senders_ok w'"
proof -
  have p: "pings w r = Some l \<Longrightarrow> 0 < PingEvery l \<and> (\<exists>l'. pings w' r = Some l' \<and> (PStop l \<longrightarrow> PStop l'))" for r l
    using evolvesD(1) [OF assms(2)] assms(3) by (fastforce simp: tuned_def ping_later_def)
  have g: "gossips w r = Some l \<Longrightarrow> 0 < GossipPeriod l \<and> (\<exists>l'. gossips w' r = Some l' \<and> (GStop l \<longrightarrow> GStop l'))" for r l
    using evolvesD(2) [OF assms(2)] assms(3) by (fastforce simp: tuned_def gossip_later_def)
  note a = assms(4) [unfolded senders_ok_def] and b = assms(1) [unfolded senders_step_def]
  have "case pings w' r of None \<Rightarrow> ping_senders w' r = Unstarted | Some l \<Rightarrow> sender_ok (PStop l) (ping_senders w' r)" for r
    by (rule sender_ok_next [OF spec [OF conjunct1 [OF a], of r] spec [OF conjunct1 [OF b], of r] p])
  moreover have "case gossips w' r of None \<Rightarrow> gossip_senders w' r = Unstarted | Some g \<Rightarrow> sender_ok (GStop g) (gossip_senders w' r)" for r
    by (rule sender_ok_next [OF spec [OF conjunct2 [OF a], of r] spec [OF conjunct2 [OF b], of r] g])
  ultimately show ?thesis by (simp add: senders_ok_def)
qed

lemma reachable_senders:
  assumes "reachable c0 p" and "ValidateClusterParams c0 = None"
  shows "senders_ok (snd p)"
  using assms
proof (induction rule: reachable.induct)
  case (start resolver listens t now w)
  then show ?case by (auto simp: boot_def senders_ok_def Let_def split: sum.splits if_splits)
next
  case (step p q)
  then show ?case
    using senders_ok_step [OF dstep_senders [OF step.hyps(2)] dstep_evolves [OF step.hyps(2)]]
      reachable_inv [OF step.hyps(1)] reachable_tuned [OF step.hyps(1)] by simp
qed

text \<open>No ticker is ever made with a period that \<open>time.NewTicker\<close> refuses.\<close>

lemma tickers_valid:
  assumes "reachable c0 (ph, w)" and "ValidateClusterParams c0 = None"
  shows "ping_senders w r = Starting t \<Longrightarrow> 0 < t" and "ping_senders w r = Ticking t p \<Longrightarrow> 0 < t \<and> 0 < p"
    and "gossip_senders w r = Starting t \<Longrightarrow> 0 < t" and "gossip_senders w r = Ticking t p \<Longrightarrow> 0 < t \<and> 0 < p"
  using senders_okD(3,4) [OF reachable_senders [OF assms], of r] by simp_all

section \<open>Following the configuration\<close>

lemma sender_step_end: "sender_step p stopped Ended s' \<Longrightarrow> s' = Ended"
  by (auto simp: sender_step_def sender_read_def sender_ticked_def sender_stop_def)

lemma sender_step_steady:
  "sender_step p stopped (Ticking t p) s' \<Longrightarrow> s' = Ticking t p \<or> s' = Ended"
  by (auto simp: sender_step_def sender_read_def sender_ticked_def sender_stop_def)

text \<open>A sender whose ticker agrees with \<open>lastPeriod\<close>; a tick then sets both to the period of the loop.\<close>

definition settled :: "sender \<Rightarrow> bool" where
  "settled s \<longleftrightarrow> s = Ended \<or> (\<exists>p. s = Ticking p p)"

lemma settled_step: "settled s \<Longrightarrow> sender_step p stopped s s' \<Longrightarrow> settled s'"
  by (auto simp: settled_def sender_step_def sender_read_def sender_ticked_def sender_stop_def)

lemma settled_ticks: "settled s \<Longrightarrow> s \<noteq> Ended \<Longrightarrow> sender_ticked p s = Ticking p p"
  by (auto simp: settled_def sender_ticked_def)

text \<open>Runs in which the loop at \<open>r\<close> has the period \<open>p\<close> whenever a step begins.\<close>

inductive steady :: "Config \<Rightarrow> nat \<Rightarrow> Duration \<Rightarrow> phase \<times> World \<Rightarrow> phase \<times> World \<Rightarrow> bool"
  for c0 :: Config and r :: nat and p :: Duration and x :: "phase \<times> World" where
  start: "steady c0 r p x x"
| step: "steady c0 r p x y \<Longrightarrow> pings (snd y) r = Some l \<Longrightarrow> PingEvery l = p \<Longrightarrow> dstep c0 y z \<Longrightarrow> steady c0 r p x z"

lemma steady_ticking:
  assumes "steady c0 r p x y" and "ping_senders (snd x) r = Ticking t p"
  shows "ping_senders (snd y) r = Ticking t p \<or> ping_senders (snd y) r = Ended"
  using assms
proof (induction rule: steady.induct)
  case start
  then show ?case by simp
next
  case (step y l z)
  then have y: "ping_senders (snd y) r = Ticking t p \<or> ping_senders (snd y) r = Ended" by blast
  have "ping_senders (snd z) r = ping_senders (snd y) r \<or>
      sender_step p (PStop l) (ping_senders (snd y) r) (ping_senders (snd z) r)"
    using dstep_senders [OF step.hyps(4)] step.hyps(2,3) by (auto simp: senders_step_def)
  then show ?case using y sender_step_steady sender_step_end by metis
qed

text \<open>
  C35. A change of the period can be lost. The goroutine that pings makes its ticker with the period of
  its loop and afterwards reads the period again as \<open>lastPeriod\<close>; if the configuration changes in
  between, it goes on with the old period, and since it only looks for later changes, no number of ticks
  repairs this: until the period is changed once more, or the goroutine ends, it pings at the old one.
\<close>

theorem stale_ticker:
  assumes "pings w r = Some l" and "ping_senders w r = Starting old"
    and "w1 = with_ping_sender r (sender_read (PingEvery l)) w"
    and "steady c0 r (PingEvery l) (ph, w1) (ph', w')"
  shows "dstep c0 (ph, w) (ph, w1) \<and>
     (ping_senders w' r = Ticking old (PingEvery l) \<or> ping_senders w' r = Ended)"
proof -
  have "ping_senders w1 r = Ticking old (PingEvery l)"
    using assms(2,3) by (simp add: with_ping_sender_def sender_read_def)
  with steady_ticking [OF assms(4)] dstep.ping_begin [OF assms(1)] assms(3) show ?thesis by simp
qed

text \<open>
  An introducer pings every 200 ms; its new ping goroutine has made its ticker when the administrator
  sets the period to one second, which never reaches the ticker.
\<close>

definition slow :: Config where
  "slow = sample_introducer\<lparr>cPingEvery := ms 1000\<rparr>"

definition slow_file :: json where
  "slow_file = the (enc_dto (ToDTO slow))"

lemma slow_cfg_ok: "cfg_ok slow" "cfg_ok (slow\<lparr>cVersion := 2\<rparr>)"
  by (simp_all add: slow_def sample_introducer_def cfg_ok_def Defaults_def ValidateClusterParams_def cfg_ints_def
      int64_defs ms_def drop_rate_bad_def)

lemma slow_loaded: "loadConfig (Some slow_file) = Some (ToDTO slow)"
proof -
  have d: "sane_dto (ToDTO slow)"
    by (rule sane_ToDTO [OF slow_cfg_ok(1)]) (simp add: slow_def sample_introducer_def Defaults_def)
  then obtain j where "enc_dto (ToDTO slow) = Some j" using enc_dto_sane by blast
  then show ?thesis using dec_enc_dto [OF d] by (simp add: loadConfig_def slow_file_def dec_dto_def)
qed

lemma slow_bump: "BumpAndApplyLocal sample_introducer (ToDTO slow) = (adopt sample_introducer (slow\<lparr>cVersion := 2\<rparr>), Inr True)"
proof -
  have v: "cVersion sample_introducer = 1" "cVersion slow = 1" by (simp_all add: slow_def sample_introducer_def Defaults_def)
  have "(ToDTO slow)\<lparr>dVersion := 2\<rparr> = ToDTO (slow\<lparr>cVersion := 2\<rparr>)" by (simp add: ToDTO_def)
  then show ?thesis
    using v ApplyDTO_ToDTO [OF slow_cfg_ok(2), of sample_introducer] by (simp add: BumpAndApplyLocal_def int64_defs)
qed

lemma slow_run:
  "\<exists>w l. reachable sample_introducer (Serving, w) \<and> pings w 2 = Some l \<and> \<not> PStop l \<and> PingEvery l = ms 1000 \<and>
     ping_senders w 2 = Starting (ms 200)"
proof -
  let ?c = sample_introducer and ?c' = "adopt sample_introducer (slow\<lparr>cVersion := 2\<rparr>)"
  define w0 where "w0 = startProtocol ?c (sample_world 1 ?c)"
  have c: "cMode ?c = ModePingAck" "cPingEvery ?c = ms 200" by (simp_all add: sample_introducer_def Defaults_def)
  have r0: "reachable ?c (Serving, w0)" unfolding w0_def by (rule reachable_serving) simp
  obtain l0 where l0: "pings w0 2 = Some l0" "PingEvery l0 = ms 200" "\<not> PStop l0"
    and p0: "loopPA w0 = Some 2" "loopGo w0 = None" "cfg w0 = ?c"
    using c by (auto simp: w0_def startProtocol_def Let_def stopGossip_def sample_world_def NewPingAck_def PingSetConfigDTO_def)
  define w1 where "w1 = with_ping_sender 2 (sender_read (PingEvery l0)) w0"
  have s1: "ping_senders w1 2 = Starting (ms 200)"
    using l0 by (simp add: w1_def with_ping_sender_def sender_read_def) (simp add: w0_def sender_frames sample_world_def)
  have r1: "reachable ?c (Serving, w1)" unfolding w1_def by (rule reachable.step [OF r0 dstep.ping_begin [OF l0(1)]])
  have g1: "cfg w1 = ?c" "loopPA w1 = Some 2" "loopGo w1 = None" "pings w1 2 = Some l0"
    using p0 l0 by (simp_all add: w1_def with_ping_sender_def)
  define w2 where "w2 = fst (http_set (Some slow_file) w1)"
  have r2: "reachable ?c (Serving, w2)" unfolding w2_def by (rule reachable.step [OF r1 dstep.set_config])
  have s2: "ping_senders w2 2 = Starting (ms 200)" using http_senders(1) s1 by (simp add: w2_def same_senders_def)
  have m: "cMode ?c' = ModePingAck" "cPingEvery ?c' = ms 1000" using c by (simp_all add: adopt_def slow_def)
  have "w2 = applyRuntime ?c ?c' (w1\<lparr>cfg := ?c'\<rparr>)"
    using g1(1) by (simp add: w2_def http_fst slow_loaded local_change_fst commit_local_def slow_bump del: commit_frames)
  then have "pings w2 2 = Some (PingSetConfigDTO (ToDTO ?c') (PingReconfigure ?c' l0))"
    using g1 c(1) m(1) by (simp add: applyRuntime_def Let_def reconfigurePing_def reconfigureManager_def refreshDTO_def)
  then show ?thesis using r2 s2 l0(3) m(2) by (auto simp: PingReconfigure_def PingSetConfigDTO_def)
qed

theorem stale_ticker_witness:
  "\<exists>w l. reachable sample_introducer (Serving, w) \<and> pings w 2 = Some l \<and> PingEvery l = ms 1000 \<and>
     ping_senders w 2 = Ticking (ms 200) (ms 1000)"
proof -
  let ?c = sample_introducer
  obtain w l where w: "reachable ?c (Serving, w)" "pings w 2 = Some l" "\<not> PStop l" "PingEvery l = ms 1000"
    "ping_senders w 2 = Starting (ms 200)" using slow_run by blast
  define w1 where "w1 = with_ping_sender 2 (sender_read (PingEvery l)) w"
  have p1: "pings w1 2 = Some l" "ping_senders w1 2 = Ticking (ms 200) (ms 1000)"
    using w by (simp_all add: w1_def) (simp add: with_ping_sender_def sender_read_def)
  obtain w2 out period where t: "ping_tick (ping_at 2) 
      \<lparr>s_snap = at_wall 6, s_ord = [key_of (node 1 7)], s_perm = [], s_resolves = (\<lambda>_. True), s_nonces = of_nat,
        s_clk = (\<lambda>_. at_wall 6)\<rparr> (ms 1000) w1 = (w2, out, period)"
    by (metis prod.exhaust)
  let ?w3 = "with_ping_sender 2 (sender_ticked period) w2"
  have d: "dstep ?c (Serving, w1) (Serving, ?w3)" using p1 by (intro dstep.ping_send [OF _ _ t]) simp_all
  have run: "steady ?c 2 (PingEvery l) (Serving, w1) (Serving, ?w3)"
    by (rule steady.step [OF steady.start _ refl d]) (simp add: p1)
  from stale_ticker [OF w(2,5) w1_def run]
  have "dstep ?c (Serving, w) (Serving, w1)" and e: "ping_senders ?w3 2 = Ticking (ms 200) (ms 1000) \<or> ping_senders ?w3 2 = Ended"
    using w(4) by simp_all
  then have r: "reachable ?c (Serving, ?w3)" using w(1) d reachable.step by blast
  have p3: "pings ?w3 2 = Some l" using ticks_same_sender(1) [OF t] p1(1) by (simp add: same_config_def)
  have "ValidateClusterParams ?c = None" by (simp add: sample_introducer_def)
  then have "ping_senders ?w3 2 \<noteq> Ended"
    using senders_okD(1) [OF reachable_senders [OF r], of 2 l] p3 w(3) by auto
  then show ?thesis using r p3 w(4) e by blast
qed

end
