(* ===== verification/ConfigDiff.thy ===== *)
theory ConfigDiff
  imports Configs
begin

text \<open>
  The log of a configuration change, \<open>src/pkg/daemon/config_diff.go\<close>: a table of the cluster parameters
  with their old and new values, in which the changed ones are coloured and marked. The text is the
  UTF-8 text that is logged; the time in its first line is an argument. Of \<open>text/tabwriter\<close> the model has
  what the log uses: cells of a line that end in a tab are padded with spaces to the widest of their
  column plus 2, counted in runes.
\<close>

section \<open>Values\<close>

definition Sprint_int :: "int \<Rightarrow> string" where
  "Sprint_int i = (if i < 0 then CHR ''-'' # dec (nat (- i)) else dec (nat i))"

text \<open>The verb \<open>%.3f\<close>: the nearest multiple of 1/1000, ties to even. The sign of zero is not modelled.\<close>

definition Sprintf_3f :: "f64 \<Rightarrow> string" where
  "Sprintf_3f x =
     (case x of
        NaN \<Rightarrow> ''NaN''
      | PosInf \<Rightarrow> ''+Inf''
      | NegInf \<Rightarrow> ''-Inf''
      | Fin r \<Rightarrow>
          (let n = nat (round_half_even (\<bar>r\<bar> * 1000)); f = n mod 1000 in
           (if r < 0 then ''-'' else []) @ dec (n div 1000) @ ''.'' @
           [digit_char (f div 100), digit_char (f div 10 mod 10), digit_char (f mod 10)]))"

text \<open>The comparison \<open>!=\<close> of two \<open>float64\<close>: NaN differs from everything.\<close>

definition f64_differ :: "f64 \<Rightarrow> f64 \<Rightarrow> bool" where
  "f64_differ x y \<longleftrightarrow> x = NaN \<or> y = NaN \<or> x \<noteq> y"

section \<open>Rows\<close>

definition ansiReset :: string where "ansiReset = CHR 0x1B # ''[0m''"
definition ansiYellow :: string where "ansiYellow = CHR 0x1B # ''[33m''"

text \<open>The arrow, the delta and the mark, in UTF-8.\<close>

definition arrow :: string where "arrow = [CHR 0xE2, CHR 0x86, CHR 0x92]"
definition delta :: string where "delta = [CHR 0xCE, CHR 0x94]"
definition star :: string where "star = [CHR 0xE2, CHR 0x9C, CHR 0xB1]"

record diff_row =
  row_name :: string
  row_prev :: string
  row_next :: string
  row_mark :: string

definition add_row :: "string \<Rightarrow> string \<Rightarrow> string \<Rightarrow> bool \<Rightarrow> diff_row" where
  "add_row name pv nv changed =
     \<lparr>row_name = name, row_prev = pv, row_next = (if changed then ansiYellow @ nv @ ansiReset else nv),
      row_mark = (if changed then star else [])\<rparr>"

definition diff_rows :: "Config \<Rightarrow> Config \<Rightarrow> diff_row list" where
  "diff_rows prev next =
     [add_row ''Mode'' (cMode prev) (cMode next) (cMode prev \<noteq> cMode next),
      add_row ''PingEvery'' (Duration_String (cPingEvery prev)) (Duration_String (cPingEvery next))
        (cPingEvery prev \<noteq> cPingEvery next),
      add_row ''PingFanout'' (Sprint_int (cPingFanout prev)) (Sprint_int (cPingFanout next))
        (cPingFanout prev \<noteq> cPingFanout next),
      add_row ''GossipPeriod'' (Duration_String (cGossipPeriod prev)) (Duration_String (cGossipPeriod next))
        (cGossipPeriod prev \<noteq> cGossipPeriod next),
      add_row ''GossipFanout'' (Sprint_int (cGossipFanout prev)) (Sprint_int (cGossipFanout next))
        (cGossipFanout prev \<noteq> cGossipFanout next),
      add_row ''TSuspect'' (Duration_String (cTSuspect prev)) (Duration_String (cTSuspect next))
        (cTSuspect prev \<noteq> cTSuspect next),
      add_row ''TFail'' (Duration_String (cTFail prev)) (Duration_String (cTFail next)) (cTFail prev \<noteq> cTFail next),
      add_row ''TCleanup'' (Duration_String (cTCleanup prev)) (Duration_String (cTCleanup next))
        (cTCleanup prev \<noteq> cTCleanup next),
      add_row ''DropRateRecv'' (Sprintf_3f (cDropRateRecv prev)) (Sprintf_3f (cDropRateRecv next))
        (f64_differ (cDropRateRecv prev) (cDropRateRecv next))]"

section \<open>The table\<close>

text \<open>The number of runes of a UTF-8 text: the bytes that do not continue a rune.\<close>

definition runes :: "string \<Rightarrow> nat" where
  "runes s = length (filter (\<lambda>c. \<not> (128 \<le> (of_char c :: nat) \<and> (of_char c :: nat) < 192)) s)"

definition pad :: "nat \<Rightarrow> string \<Rightarrow> string" where
  "pad width s = s @ replicate (width - runes s) CHR '' ''"

definition column_width :: "(diff_row \<Rightarrow> string) \<Rightarrow> diff_row list \<Rightarrow> nat" where
  "column_width cell rows = Max ((\<lambda>r. runes (cell r) + 2) ` set rows)"

text \<open>What comes before the mark of a line.\<close>

definition line_head :: "diff_row list \<Rightarrow> diff_row \<Rightarrow> string" where
  "line_head rows r =
     pad (column_width row_name rows) (row_name r) @ pad (column_width row_prev rows) (row_prev r) @
     pad (column_width row_next rows) (row_next r)"

definition tabulate :: "diff_row list \<Rightarrow> string" where
  "tabulate rows = concat (map (\<lambda>r. line_head rows r @ row_mark r @ [CHR 0x0A]) rows)"

definition heading :: "diff_row list" where
  "heading =
     [\<lparr>row_name = ''Field'', row_prev = ''Prev'', row_next = ''Next'', row_mark = delta\<rparr>,
      \<lparr>row_name = ''-----'', row_prev = ''----'', row_next = ''----'', row_mark = ''-''\<rparr>]"

definition logConfigDiff :: "Config \<Rightarrow> Config \<Rightarrow> string \<Rightarrow> string" where
  "logConfigDiff prev next stamp =
     CHR 0x0A # ''Config change (version '' @ Sprint_int (cVersion prev) @ '' '' @ arrow @ '' '' @
     Sprint_int (cVersion next) @ '') @ '' @ stamp @ [CHR 0x0A] @ tabulate (heading @ diff_rows prev next)"

section \<open>Lemmas\<close>


lemma Sprint_int_inj [simp]: "Sprint_int a = Sprint_int b \<longleftrightarrow> a = b"
proof
  assume e: "Sprint_int a = Sprint_int b"
  have d: "dec m \<noteq> CHR ''-'' # s" for m s
    using is_digit_hd_dec [of m] by (auto simp: is_digit_def)
  show "a = b"
    using e d d [symmetric] by (auto simp: Sprint_int_def split: if_splits)
qed simp

lemma runes_append [simp]: "runes (a @ b) = runes a + runes b"
  by (simp add: runes_def)

lemma runes_pad: "runes s \<le> width \<Longrightarrow> runes (pad width s) = width"
  by (simp add: pad_def runes_def)

lemma column_width_ge: "r \<in> set rows \<Longrightarrow> runes (cell r) + 2 \<le> column_width cell rows"
  by (simp add: column_width_def)

lemma line_head_runes:
  assumes "r \<in> set rows"
  shows "runes (line_head rows r) =
     column_width row_name rows + column_width row_prev rows + column_width row_next rows"
  using column_width_ge [OF assms, of row_name] column_width_ge [OF assms, of row_prev]
    column_width_ge [OF assms, of row_next]
  by (simp add: line_head_def runes_pad)

lemma add_row_simps [simp]:
  "row_name (add_row name pv nv changed) = name" "row_prev (add_row name pv nv changed) = pv"
  "row_mark (add_row name pv nv changed) = [] \<longleftrightarrow> \<not> changed"
  "row_next (add_row name pv nv changed) = (if changed then ansiYellow @ nv @ ansiReset else nv)"
  by (simp_all add: add_row_def star_def)


section \<open>Properties\<close>


text \<open>The columns of the table are aligned: what precedes the mark has the same number of runes in every line.\<close>

lemma columns_aligned:
  assumes "r \<in> set rows" and "r' \<in> set rows"
  shows "runes (line_head rows r) = runes (line_head rows r')"
  using assms by (simp add: line_head_runes)


end
