(* ===== verification/StoreLog.thy ===== *)
theory StoreLog
  imports Samples
begin

text \<open>
  What the store logs, \<open>src/pkg/store/membership.go\<close> with the colours of \<open>src/pkg/utils/colors.go\<close>: a line
  for every change, and after most of them the whole table. A line is kept as the values it shows; the
  text that \<open>%+v\<close> makes of an entry is not modelled. \<open>t\<close> is the time in the head of a table and \<open>ord\<close> the order
  in which Go iterates over the map.
\<close>

section \<open>Lines\<close>

definition Red :: string where "Red = CHR 0x1B # ''[31m''"
definition Cyan :: string where "Cyan = CHR 0x1B # ''[36m''"
definition Underline :: string where "Underline = CHR 0x1B # ''[4m''"
definition Orange :: string where "Orange = CHR 0x1B # ''[38;5;208m''"

datatype line =
    NotFound
  | NoSelf
  | Applied string string MemberEntry
  | Table gotime "MemberEntry list"
  | Deleted MemberEntry
  | NewerBoot
  | NewIncarnation MemberEntry
  | NewState State
  | NewEntry MemberEntry

text \<open>The colour of the line about a change to a state, the same in \<open>apply\<close> and in \<open>PrintStateChange\<close>.\<close>

definition state_colour :: "State \<Rightarrow> string" where
  "state_colour x =
     (if x = StateSuspect then Orange
      else if x = StateFailed then Red
      else if x = StateLeft then Cyan
      else Underline)"

definition applied :: "MemberEntry \<Rightarrow> line" where
  "applied e = Applied (state_colour (EState e)) (StateToString (EState e)) e"

fun table_rows :: "string list \<Rightarrow> (string \<rightharpoonup> MemberEntry) \<Rightarrow> MemberEntry list" where
  "table_rows [] m = []"
| "table_rows (k # ks) m = (case m k of None \<Rightarrow> table_rows ks m | Some e \<Rightarrow> e # table_rows ks m)"

definition PrintSnapshot :: "gotime \<Rightarrow> string list \<Rightarrow> Store \<Rightarrow> line" where
  "PrintSnapshot t ord s = Table t (table_rows ord (entries s))"

definition PrintStateChange :: "gotime \<Rightarrow> string list \<Rightarrow> Store \<Rightarrow> MemberEntry \<Rightarrow> MemberEntry \<Rightarrow> line list" where
  "PrintStateChange t ord s prev next =
     (if EState prev \<noteq> EState next then [applied next, PrintSnapshot t ord s] else [])"

section \<open>Operations\<close>

text \<open>The lines of each operation; \<open>s\<close> is the store before it, and its table shows the store after it.\<close>

definition apply_log :: "gotime \<Rightarrow> Store \<Rightarrow> NodeID \<Rightarrow> u64 \<Rightarrow> State \<Rightarrow> bool \<Rightarrow> line list" where
  "apply_log now s n inc state updateVersion =
     (case entries (apply_entry now s n inc state updateVersion) (key_of n) of
        None \<Rightarrow> [NotFound]
      | Some entry \<Rightarrow> if updateVersion then [Applied (state_colour state) (StateToString state) entry] else [])"

definition ApplyLocked_log :: "gotime \<Rightarrow> string list \<Rightarrow> gotime \<Rightarrow> Store \<Rightarrow> NodeID \<Rightarrow> u64 \<Rightarrow> State \<Rightarrow> line list" where
  "ApplyLocked_log t ord now s n inc state =
     apply_log now s n inc state True @ [PrintSnapshot t ord (ApplyLocked now s n inc state)]"

definition RemoveEntry_log :: "gotime \<Rightarrow> string list \<Rightarrow> Store \<Rightarrow> NodeID \<Rightarrow> line list" where
  "RemoveEntry_log t ord s n =
     (case entries s (key_of n) of
        None \<Rightarrow> [NotFound]
      | Some entry \<Rightarrow> [Deleted entry, PrintSnapshot t ord (RemoveEntry s n)])"

definition selfBumpIncarnation_log :: "gotime \<Rightarrow> Store \<Rightarrow> line list" where
  "selfBumpIncarnation_log now s =
     (case entries (selfBumpIncarnation now s) (key_of (selfID s)) of
        None \<Rightarrow> [NoSelf]
      | Some entry \<Rightarrow> [NewIncarnation entry])"

definition SetSelfState_log :: "Store \<Rightarrow> State \<Rightarrow> line list" where
  "SetSelfState_log s x = (case entries s (key_of (selfID s)) of None \<Rightarrow> [NoSelf] | Some _ \<Rightarrow> [NewState x])"

definition updateMemberEntry_log :: "gotime \<Rightarrow> string list \<Rightarrow> gotime \<Rightarrow> Store \<Rightarrow> MemberEntry \<Rightarrow> line list" where
  "updateMemberEntry_log t ord now s incoming =
     (case entries s (key_of (ID incoming)) of
        Some existing \<Rightarrow>
          if TimeStamp (ID existing) < TimeStamp (ID incoming) then [NewerBoot]
          else if TimeStamp (ID incoming) < TimeStamp (ID existing) then []
          else if cTSuspect (config s) \<noteq> 0 then
            (if Incarnation existing < Incarnation incoming
             then PrintStateChange t ord (put_entry s incoming) existing incoming
             else if Incarnation incoming = Incarnation existing then
               (if ID incoming = selfID s \<and>
                   (EState incoming = StateSuspect \<or> EState incoming = StateFailed)
                then selfBumpIncarnation_log now s
                else if time_After (LastUpdate incoming) (LastUpdate existing)
                then PrintStateChange t ord (put_entry s incoming) existing incoming
                else [])
             else [])
          else
            (if time_After (LastUpdate incoming) (LastUpdate existing)
             then PrintStateChange t ord (put_entry s incoming) existing incoming
             else [])
      | None \<Rightarrow> [NewEntry incoming, PrintSnapshot t ord (put_entry s incoming)])"

text \<open>The clock and the order of iteration may differ from entry to entry.\<close>

fun MergeFullList_log ::
  "(nat \<Rightarrow> gotime) \<Rightarrow> (nat \<Rightarrow> string list) \<Rightarrow> (nat \<Rightarrow> gotime) \<Rightarrow> Store \<Rightarrow> MemberEntry list \<Rightarrow> line list" where
  "MergeFullList_log t ord clk s [] = []"
| "MergeFullList_log t ord clk s (e # es) =
     updateMemberEntry_log (t 0) (ord 0) (clk 0) s e @
     MergeFullList_log (\<lambda>i. t (Suc i)) (\<lambda>i. ord (Suc i)) (\<lambda>i. clk (Suc i)) (updateMemberEntry (clk 0) s e) es"

section \<open>Tables\<close>

lemma table_rows_iteration:
  assumes "iteration ord m"
  shows "map Some (table_rows ord m) = map m ord" and "set (table_rows ord m) = ran m"
    and "length (table_rows ord m) = card (dom m)"
proof -
  have "set ks \<subseteq> dom m \<Longrightarrow> map Some (table_rows ks m) = map m ks" for ks
    by (induction ks) auto
  then show m: "map Some (table_rows ord m) = map m ord" using assms by (simp add: iteration_def)
  have "Some ` set (table_rows ord m) = m ` set ord"
    using m by (metis list.set_map)
  also have "\<dots> = Some ` ran m"
    using assms by (force simp: iteration_def ran_def image_iff)
  finally show "set (table_rows ord m) = ran m" by (simp add: inj_image_eq_iff)
  show "length (table_rows ord m) = card (dom m)"
    using m assms by (metis distinct_card iteration_def length_map)
qed

section \<open>What a merge reports\<close>

text \<open>The state of every listed member, which is what the log is to report.\<close>

definition states :: "Store \<Rightarrow> string \<rightharpoonup> State" where
  "states s = map_option EState \<circ> entries s"

lemma states_eqI: "entries s' = entries s \<Longrightarrow> states s' = states s"
  by (simp add: states_def)

lemma states_put: "entries s (key_of (ID e)) = Some d \<Longrightarrow> EState d = EState e \<Longrightarrow> states (put_entry s e) = states s"
  by (auto simp: states_def put_entry_def fun_eq_iff)

lemma bump_log_nonempty: "selfBumpIncarnation_log now s \<noteq> []"
  by (simp add: selfBumpIncarnation_log_def split: option.split)

lemma update_silent: "updateMemberEntry_log t ord now s e = [] \<Longrightarrow> states (updateMemberEntry now s e) = states s"
  using states_put [of s e]
  by (auto simp: updateMemberEntry_log_def updateMemberEntry_def PrintStateChange_def bump_log_nonempty
      split: option.splits if_splits)

lemma PrintStateChange_lines:
  assumes "x \<in> set (PrintStateChange t ord s prev next)"
  shows "(x = applied next \<and> EState prev \<noteq> EState next) \<or> x = PrintSnapshot t ord s"
  using assms by (auto simp: PrintStateChange_def split: if_splits)

text \<open>A line about a changed entry shows the entry that is stored afterwards, in another state than before.\<close>

lemma update_applied:
  assumes "Applied c x d \<in> set (updateMemberEntry_log t ord now s e)"
  shows "d = e \<and> c = state_colour (EState e) \<and> x = StateToString (EState e) \<and>
     entries (updateMemberEntry now s e) (key_of (ID e)) = Some e \<and>
     (\<exists>prev. entries s (key_of (ID e)) = Some prev \<and> EState prev \<noteq> EState e)"
proof -
  have put: "entries (put_entry s e) (key_of (ID e)) = Some e" by (simp add: put_entry_def)
  show ?thesis
    using assms put
    by (auto simp: updateMemberEntry_log_def updateMemberEntry_def PrintStateChange_def PrintSnapshot_def applied_def
        selfBumpIncarnation_log_def split: option.splits if_splits)
qed

lemma update_table:
  assumes "Table u rows \<in> set (updateMemberEntry_log t ord now s e)"
  shows "u = t \<and> rows = table_rows ord (entries (updateMemberEntry now s e))"
  using assms
  by (auto simp: updateMemberEntry_log_def updateMemberEntry_def PrintStateChange_def PrintSnapshot_def applied_def
      selfBumpIncarnation_log_def split: option.splits if_splits)

lemma merge_silent:
  "MergeFullList_log t ord clk s es = [] \<Longrightarrow> states (MergeFullList clk s es) = states s"
proof (induction es arbitrary: t ord clk s)
  case Nil
  then show ?case by simp
next
  case (Cons e es)
  then have "updateMemberEntry_log (t 0) (ord 0) (clk 0) s e = []"
    "MergeFullList_log (\<lambda>i. t (Suc i)) (\<lambda>i. ord (Suc i)) (\<lambda>i. clk (Suc i)) (updateMemberEntry (clk 0) s e) es = []"
    by simp_all
  with Cons.IH update_silent show ?case by simp
qed

text \<open>
  C29. The log is complete and truthful. If a merge logs nothing, then no member has appeared and none has
  changed its state. For each entry that is merged, a line about a change shows the entry that is in the
  store afterwards, in the colour and name of its state, which differs from the one before; and the
  table after it lists every member of the store exactly once.
\<close>

theorem merge_log_faithful:
  "(MergeFullList_log ts ords clk s es = [] \<longrightarrow>
      (\<forall>k. map_option EState (entries (MergeFullList clk s es) k) = map_option EState (entries s k))) \<and>
   (\<forall>c x d. Applied c x d \<in> set (updateMemberEntry_log t ord now s e) \<longrightarrow>
      d = e \<and> c = state_colour (EState e) \<and> x = StateToString (EState e) \<and>
      entries (updateMemberEntry now s e) (key_of (ID e)) = Some e \<and>
      (\<exists>prev. entries s (key_of (ID e)) = Some prev \<and> EState prev \<noteq> EState e)) \<and>
   (\<forall>u rows. Table u rows \<in> set (updateMemberEntry_log t ord now s e) \<longrightarrow>
      iteration ord (entries (updateMemberEntry now s e)) \<longrightarrow>
      set rows = ran (entries (updateMemberEntry now s e)) \<and> length rows = Size (updateMemberEntry now s e))"
proof (intro conjI allI impI)
  fix k
  assume "MergeFullList_log ts ords clk s es = []"
  from merge_silent [OF this] show "map_option EState (entries (MergeFullList clk s es) k) = map_option EState (entries s k)"
    by (simp add: states_def fun_eq_iff)
next
  fix u rows
  assume "Table u rows \<in> set (updateMemberEntry_log t ord now s e)" and i: "iteration ord (entries (updateMemberEntry now s e))"
  from update_table [OF this(1)] table_rows_iteration(2,3) [OF i]
  show "set rows = ran (entries (updateMemberEntry now s e))" "length rows = Size (updateMemberEntry now s e)"
    by (simp_all add: Size_def)
qed (use update_applied in blast)+

theorem merge_log_faithful_witness:
  "let s = two_nodes ((Defaults ''h'')\<lparr>cTSuspect := 3\<rparr>) StateAlive 15; e = sample 2 101 StateSuspect 15;
       s' = updateMemberEntry (at_wall 20) s e; out = updateMemberEntry_log (at_wall 20) two_keys (at_wall 20) s e
   in \<exists>rows. out = [Applied Orange ''Suspect'' e, Table (at_wall 20) rows] \<and>
      entries s' (key_of (node 2 7)) = Some e \<and> set rows = ran (entries s') \<and> length rows = Size s'"
proof -
  let ?s = "two_nodes ((Defaults ''h'')\<lparr>cTSuspect := 3\<rparr>) StateAlive 15" and ?e = "sample 2 101 StateSuspect 15"
  let ?s' = "updateMemberEntry (at_wall 20) ?s ?e"
  have l: "updateMemberEntry_log (at_wall 20) two_keys (at_wall 20) ?s ?e =
      [Applied Orange ''Suspect'' ?e, PrintSnapshot (at_wall 20) two_keys ?s']"
    by (simp add: updateMemberEntry_log_def updateMemberEntry_def PrintStateChange_def applied_def state_colour_def
        StateToString_def state_defs)
  have "iteration two_keys (entries ?s)" by (rule two_nodes_simps(5))
  then have i: "iteration two_keys (entries ?s')"
    by (auto simp: updateMemberEntry_def put_entry_def iteration_def)
  note f = merge_log_faithful [where ts = "\<lambda>_. at_wall 20" and ords = "\<lambda>_. two_keys" and clk = "\<lambda>_. at_wall 20" and es = "[]"
      and s = ?s and t = "at_wall 20" and ord = two_keys and now = "at_wall 20" and e = ?e]
  have "Applied Orange ''Suspect'' ?e \<in> set (updateMemberEntry_log (at_wall 20) two_keys (at_wall 20) ?s ?e)"
    by (simp add: l)
  then have "entries ?s' (key_of (ID ?e)) = Some ?e" using f by blast
  moreover have "Table (at_wall 20) (table_rows two_keys (entries ?s')) \<in> set (updateMemberEntry_log (at_wall 20) two_keys (at_wall 20) ?s ?e)"
    by (simp add: l PrintSnapshot_def)
  then have "set (table_rows two_keys (entries ?s')) = ran (entries ?s') \<and> length (table_rows two_keys (entries ?s')) = Size ?s'"
    using f i by blast
  ultimately show ?thesis using l by (simp add: Let_def PrintSnapshot_def)
qed

end
