(* ===== verification/Pushing.thy ===== *)
theory Pushing
  imports InForce
begin

text \<open>
  How a new configuration is pushed into the components, access by access: \<open>applyRuntime\<close>, \<open>startProtocol\<close>,
  \<open>stopPingAck\<close> and \<open>stopGossip\<close> of \<open>src/pkg/daemon/daemon.go\<close>. The two pointers to the loops are shared by all
  goroutines that change the configuration and are guarded by no lock, so every reading and writing of a
  pointer is a step of its own, as is every call that takes a lock of a component; only the new loop is
  made, stored in its pointer, set up and started in one step. A method that is called
  on a nil pointer panics, and so does closing a channel a second time. Taken together, without a
  disturbance, the steps are \<open>applyRuntime\<close>.
\<close>

section \<open>The steps\<close>

text \<open>
  The places in \<open>applyRuntime\<close>: the choice between a new loop and new parameters for the running one; the
  stopping of the other loop, which looks at its pointer, closes it and clears it; the new loop; the new
  parameters; the manager, the shared table and the store; and the DTOs of the two loops, where each
  pointer is looked at and then used.
\<close>

datatype push =
  Choose | TestOther | CloseOther | ClearOther | Create | Tune | Manage | EmptyTable | TuneStore |
  TestGo | SetGo | TestPA | SetPA

text \<open>The calls of \<open>Close\<close> through the pointers.\<close>

definition close_ping :: "World \<Rightarrow> World option" where
  "close_ping w =
     Option.bind (loopPA w) (\<lambda>r. map_option (\<lambda>l. w\<lparr>pings := (pings w)(r \<mapsto> l)\<rparr>) (Option.bind (pings w r) PingClose))"

definition close_gossip :: "World \<Rightarrow> World option" where
  "close_gossip w =
     Option.bind (loopGo w) (\<lambda>r. map_option (\<lambda>l. w\<lparr>gossips := (gossips w)(r \<mapsto> l)\<rparr>) (Option.bind (gossips w r) GossipClose))"

text \<open>What \<open>startProtocol\<close> does after it has stopped the other loop.\<close>

definition create_loop :: "Config \<Rightarrow> World \<Rightarrow> World" where
  "create_loop c w =
     (let w' =
        (if cMode c = ModePingAck then
           (let t = next_ref w; r = t + 1;
                l = (NewPingAck t (cPingEvery c) (cTSuspect c) (cPingFanout c))\<lparr>PDropRateRecv := cDropRateRecv c\<rparr>
            in w\<lparr>tables := (tables w)(t := NewInflight), pings := (pings w)(r \<mapsto> PingSetConfigDTO (ToDTO c) l),
                 loopPA := Some r, next_ref := r + 1, ping_threads := insert r (ping_threads w)\<rparr>)
         else if cMode c = ModeGossip then
           (let r = next_ref w;
                l = (NewGossip (cGossipPeriod c) (cGossipFanout c))\<lparr>GDropRateRecv := cDropRateRecv c\<rparr>
            in w\<lparr>gossips := (gossips w)(r \<mapsto> GossipSetConfigDTO (ToDTO c) l), loopGo := Some r, next_ref := r + 1,
                 gossip_threads := insert r (gossip_threads w)\<rparr>)
         else w)
      in w'\<lparr>mode := cMode c\<rparr>)"

text \<open>A step: the process after it, and the place where the goroutine goes on, if any; a panic ends it.\<close>

definition or_panic :: "World \<Rightarrow> World option \<Rightarrow> push option \<Rightarrow> World \<times> push option" where
  "or_panic w x next = (case x of None \<Rightarrow> (w\<lparr>panicked := True\<rparr>, None) | Some w' \<Rightarrow> (w', next))"

fun push_step :: "Config \<Rightarrow> Config \<Rightarrow> push \<Rightarrow> World \<Rightarrow> World \<times> push option" where
  "push_step prev n Choose w =
     (w, Some (if cMode n = ModePingAck then (if cMode prev \<noteq> cMode n \<or> loopPA w = None then TestOther else Tune)
               else if cMode n = ModeGossip then (if cMode prev \<noteq> cMode n \<or> loopGo w = None then TestOther else Tune)
               else Manage))"
| "push_step prev n TestOther w =
     (w, Some (if (if cMode n = ModePingAck then loopGo w else loopPA w) = None then Create else CloseOther))"
| "push_step prev n CloseOther w =
     or_panic w (if cMode n = ModePingAck then close_gossip w else close_ping w) (Some ClearOther)"
| "push_step prev n ClearOther w =
     (if cMode n = ModePingAck then w\<lparr>loopGo := None\<rparr> else w\<lparr>loopPA := None\<rparr>, Some Create)"
| "push_step prev n Create w = (create_loop n w, Some Manage)"
| "push_step prev n Tune w =
     (if cMode n = ModePingAck
      then or_panic w (if loopPA w = None then None else Some (reconfigurePing n w)) (Some Manage)
      else or_panic w (if loopGo w = None then None else Some (reconfigureGossip n w)) (Some Manage))"
| "push_step prev n Manage w =
     (w\<lparr>sm := ManagerReconfigure (cTSuspect n) (cTFail n) (cTCleanup n) (cMode n = ModePingAck) (sm w)\<rparr>,
      Some (if cMode n = ModePingAck then TuneStore else EmptyTable))"
| "push_step prev n EmptyTable w =
     (w\<lparr>tables := (tables w)(inflight w := Reset (tables w (inflight w)))\<rparr>, Some TuneStore)"
| "push_step prev n TuneStore w = (w\<lparr>st := StoreReconfigure (st w) n\<rparr>, Some TestGo)"
| "push_step prev n TestGo w = (w, Some (if loopGo w = None then TestPA else SetGo))"
| "push_step prev n SetGo w =
     or_panic w (map_option (\<lambda>r. w\<lparr>gossips := (gossips w)(r := map_option (GossipSetConfigDTO (ToDTO n)) (gossips w r))\<rparr>)
       (loopGo w)) (Some TestPA)"
| "push_step prev n TestPA w = (w, if loopPA w = None then None else Some SetPA)"
| "push_step prev n SetPA w =
     or_panic w (map_option (\<lambda>r. w\<lparr>pings := (pings w)(r := map_option (PingSetConfigDTO (ToDTO n)) (pings w r))\<rparr>)
       (loopPA w)) None"

section \<open>The steps without disturbance\<close>

fun push_rank :: "push \<Rightarrow> nat" where
  "push_rank Choose = 12" | "push_rank TestOther = 11" | "push_rank CloseOther = 10" | "push_rank ClearOther = 9"
| "push_rank Create = 8" | "push_rank Tune = 8" | "push_rank Manage = 7" | "push_rank EmptyTable = 6"
| "push_rank TuneStore = 5" | "push_rank TestGo = 4" | "push_rank SetGo = 3" | "push_rank TestPA = 2" | "push_rank SetPA = 1"

lemma push_step_rank: "push_step prev n x w = (w', Some y) \<Longrightarrow> push_rank y < push_rank x"
  by (cases x) (auto simp: or_panic_def split: option.splits if_splits)

function push_all :: "Config \<Rightarrow> Config \<Rightarrow> push \<Rightarrow> World \<Rightarrow> World" where
  "push_all prev n x w = (case push_step prev n x w of (w', None) \<Rightarrow> w' | (w', Some y) \<Rightarrow> push_all prev n y w')"
  by pat_completeness auto
termination by (relation "measure (\<lambda>(prev, n, x, w). push_rank x)") (auto dest: push_step_rank sym)

declare push_all.simps [simp del]

lemma push_all_next: "push_step prev n x w = (w', Some y) \<Longrightarrow> push_all prev n x w = push_all prev n y w'"
  by (simp add: push_all.simps [of prev n x w])

lemma push_all_last: "push_step prev n x w = (w', None) \<Longrightarrow> push_all prev n x w = w'"
  by (simp add: push_all.simps [of prev n x w])

lemma close_form:
  "close_ping w = Some w' \<Longrightarrow> \<exists>p. w' = w\<lparr>pings := p\<rparr>" "close_gossip w = Some w' \<Longrightarrow> \<exists>g. w' = w\<lparr>gossips := g\<rparr>"
  unfolding close_ping_def close_gossip_def bind_eq_Some_conv map_option_eq_Some by blast+

lemma start_created:
  "startProtocol c w = create_loop c (if cMode c = ModePingAck then stopGossip w else if cMode c = ModeGossip then stopPingAck w else w)"
  by (simp add: startProtocol_def create_loop_def Let_def)

lemma close_then_clear:
  assumes "heap_inv w"
  shows "loopPA w = Some r \<Longrightarrow> \<exists>w'. close_ping w = Some w' \<and> w'\<lparr>loopPA := None\<rparr> = stopPingAck w"
    and "loopGo w = Some r \<Longrightarrow> \<exists>w'. close_gossip w = Some w' \<and> w'\<lparr>loopGo := None\<rparr> = stopGossip w"
  using assms by (auto simp: heap_inv_def close_ping_def close_gossip_def stopPingAck_def stopGossip_def PingClose_def GossipClose_def)

lemma stop_nothing: "loopPA w = None \<Longrightarrow> stopPingAck w = w" "loopGo w = None \<Longrightarrow> stopGossip w = w"
  by (simp_all add: stopPingAck_def stopGossip_def)

lemma push_start:
  assumes "heap_inv w" and "cMode n = ModePingAck \<or> cMode n = ModeGossip"
  shows "push_all prev n TestOther w = push_all prev n Manage (startProtocol n w)"
proof -
  have create: "push_all prev n Create v = push_all prev n Manage (create_loop n v)" for v
    by (rule push_all_next) simp
  show ?thesis
  proof (cases "(if cMode n = ModePingAck then loopGo w else loopPA w) = None")
    case True
    then have "startProtocol n w = create_loop n w" using assms(2) by (auto simp: start_created stop_nothing)
    moreover have "push_all prev n TestOther w = push_all prev n Create w"
      by (rule push_all_next) (use True in simp)
    ultimately show ?thesis by (simp add: create)
  next
    case False
    let ?stop = "if cMode n = ModePingAck then stopGossip w else stopPingAck w"
    obtain w' where "(if cMode n = ModePingAck then close_gossip w else close_ping w) = Some w'"
      and c: "(if cMode n = ModePingAck then w'\<lparr>loopGo := None\<rparr> else w'\<lparr>loopPA := None\<rparr>) = ?stop"
      using False close_then_clear [OF assms(1)] by (auto split: if_splits)
    then have "push_all prev n CloseOther w = push_all prev n ClearOther w'"
      by (intro push_all_next) (simp add: or_panic_def)
    moreover have "push_all prev n ClearOther w' = push_all prev n Create ?stop"
      by (rule push_all_next) (simp only: push_step.simps c)
    moreover have "push_all prev n TestOther w = push_all prev n CloseOther w"
      by (rule push_all_next) (use False in simp)
    moreover have "startProtocol n w = create_loop n ?stop" using assms(2) by (auto simp: start_created)
    ultimately show ?thesis by (simp add: create)
  qed
qed

lemma push_refresh: "push_all prev n TestGo w = refreshDTO (ToDTO n) w"
proof -
  have pa: "push_all prev n TestPA v =
      (case loopPA v of None \<Rightarrow> v | Some r \<Rightarrow> v\<lparr>pings := (pings v)(r := map_option (PingSetConfigDTO (ToDTO n)) (pings v r))\<rparr>)" for v
  proof (cases "loopPA v")
    case None
    then show ?thesis by (simp add: push_all_last)
  next
    case (Some r)
    then have "push_all prev n TestPA v = push_all prev n SetPA v" by (intro push_all_next) simp
    with Some show ?thesis by (simp add: push_all_last or_panic_def)
  qed
  show ?thesis
  proof (cases "loopGo w")
    case None
    then have "push_all prev n TestGo w = push_all prev n TestPA w" by (intro push_all_next) simp
    with None show ?thesis by (simp add: pa refreshDTO_def)
  next
    case (Some r)
    let ?w = "w\<lparr>gossips := (gossips w)(r := map_option (GossipSetConfigDTO (ToDTO n)) (gossips w r))\<rparr>"
    have "push_all prev n TestGo w = push_all prev n SetGo w" by (rule push_all_next) (use Some in simp)
    also have "\<dots> = push_all prev n TestPA ?w" by (rule push_all_next) (use Some in \<open>simp add: or_panic_def\<close>)
    finally show ?thesis using Some by (simp add: pa refreshDTO_def Let_def)
  qed
qed

lemma push_rest:
  "push_all prev n Manage w =
   (let w2 = reconfigureManager n w in refreshDTO (ToDTO n) (w2\<lparr>st := StoreReconfigure (st w2) n\<rparr>))"
proof -
  let ?w = "w\<lparr>sm := ManagerReconfigure (cTSuspect n) (cTFail n) (cTCleanup n) (cMode n = ModePingAck) (sm w)\<rparr>"
  have s: "push_all prev n TuneStore v = push_all prev n TestGo (v\<lparr>st := StoreReconfigure (st v) n\<rparr>)" for v
    by (rule push_all_next) simp
  have "push_all prev n Manage w = push_all prev n (if cMode n = ModePingAck then TuneStore else EmptyTable) ?w"
    by (rule push_all_next) simp
  moreover have "push_all prev n EmptyTable ?w =
      push_all prev n TuneStore (?w\<lparr>tables := (tables ?w)(inflight ?w := Reset (tables ?w (inflight ?w)))\<rparr>)"
    by (rule push_all_next) simp
  ultimately have "push_all prev n Manage w = push_all prev n TuneStore (reconfigureManager n w)"
    by (cases "cMode n = ModePingAck") (simp_all add: reconfigureManager_def Let_def)
  then show ?thesis by (simp add: s push_refresh Let_def)
qed

lemma chosen_Tune:
  assumes "push_step prev n Choose w = (w, Some Tune)"
  shows "cMode prev = cMode n" and "cMode n = ModePingAck \<and> loopPA w \<noteq> None \<or>
     cMode n \<noteq> ModePingAck \<and> cMode n = ModeGossip \<and> loopGo w \<noteq> None"
  using assms by (simp_all split: if_splits)

lemma tune_step:
  "cMode n = ModePingAck \<Longrightarrow> loopPA w \<noteq> None \<Longrightarrow> push_step prev n Tune w = (reconfigurePing n w, Some Manage)"
  "cMode n \<noteq> ModePingAck \<Longrightarrow> loopGo w \<noteq> None \<Longrightarrow> push_step prev n Tune w = (reconfigureGossip n w, Some Manage)"
  by (auto simp: or_panic_def)

text \<open>
  Without a disturbance the steps do what \<open>applyRuntime\<close> does: from any process whose pointers lead to
  loops that are not stopped, they come to their end, without a panic, in the same state.
\<close>

lemma push_undisturbed:
  assumes "daemon_inv w"
  shows "push_all prev n Choose w = applyRuntime prev n w \<and> \<not> panicked (push_all prev n Choose w)"
proof -
  have h: "heap_inv w" using assms by (simp add: daemon_inv_def)
  obtain x where c: "push_step prev n Choose w = (w, Some x)" by simp
  note c1 = push_all_next [OF c]
  have r: "applyRuntime prev n w = push_all prev n Manage
      (if cMode n = ModePingAck then
         (if cMode prev \<noteq> cMode n \<or> loopPA w = None then startProtocol n w else reconfigurePing n w)
       else if cMode n = ModeGossip then
         (if cMode prev \<noteq> cMode n \<or> loopGo w = None then startProtocol n w else reconfigureGossip n w)
       else w)"
    by (simp add: push_rest applyRuntime_def Let_def)
  have "push_all prev n Choose w = applyRuntime prev n w"
  proof (cases "x = Tune")
    case True
    note t = chosen_Tune [OF c [unfolded True]]
    show ?thesis using t unfolding r c1 True by (auto simp: push_all_next [OF tune_step(1)] push_all_next [OF tune_step(2)])
  next
    case False
    with c show ?thesis unfolding r c1 by (auto simp: push_start [OF h] split: if_splits)
  qed
  moreover have "heap_inv (applyRuntime prev n w)" using heap_applyRuntime [OF h] .
  ultimately show ?thesis by (simp add: heap_inv_def)
qed

end
