(* ===== verification/Threads.thy ===== *)
theory Threads
  imports Pushing Network
begin

text \<open>
  The goroutines of a process at the grain of the code: every handler, every iteration of a receive loop, every
  tick and every scan is cut at each point where it takes or gives up a lock, reads a pointer that others
  write, or sends a packet, and all of them interleave. \<open>DaemonSteps\<close> and \<open>Network\<close> run each of these
  operations as one step. Between two of its steps a goroutine holds a job, which remembers where it is and the values of its
  local variables. Receivers of packets are left out, since a packet may arrive anywhere. The stop and the new loop at the
  end of \<open>Run\<close> and the calls of \<open>Close\<close> are one step each.
\<close>

section \<open>Jobs\<close>

text \<open>
  Of a receive loop: apply the configuration of the message, look for the own state, treat the message by
  its type, take the snapshot for the answer, answer, merge, and look at \<open>stop\<close>. Of a change of the
  configuration: the places of \<open>push\<close>, and what the goroutine does after it. Of a tick: take the
  snapshot, send to the remaining targets, enter a ping into the table, send the gossip, compare the period. Of the suspicion manager: take the
  snapshot of the scan, judge the remaining entries, collect the expired pings, look whether suspicion is
  on, take the snapshot, treat the remaining expired pings. Of the handlers: commit a change, list the
  members and mark the own entry, merge a request to join, list the members for the response, respond.
  Of the joining node: adopt the configuration and merge the list of the response.
\<close>

datatype job =
  RxConfig Message | RxLook Message | RxSwitch Message | RxAnswer u64 | RxReply u64 "MemberEntry list"
| RxMerge Message | RxHead
| Push push Config Config "job option"
| TxSnap Duration int Duration | TxPing Duration Duration "MemberEntry list" "string list"
| TxAdd Duration Duration "MemberEntry list" u64 string "string list"
| TxGossip Duration "MemberEntry list" "string list" | TxEnd Duration
| ScanSnap gotime Duration Duration Duration bool
| ScanList gotime Duration Duration Duration bool "MemberEntry list" | ScanReap gotime
| ReapLook "ExpiredRec list" | ReapSnap bool "ExpiredRec list" | ReapList bool "MemberEntry list" "ExpiredRec list"
| LocalCommit ConfigDTO | LeaveSnap | LeaveList "MemberEntry list"
| IntroMerge "MemberEntry list" | IntroSnap | IntroReply "MemberEntry list"
| JoinCommit JoinResponse | JoinMerge "MemberEntry list"

text \<open>After a step a goroutine has another job, waits for its next one, ends, or ends the process.\<close>

datatype continuation = Goto job | Idle | Stop | Exit

text \<open>What the runtime provides to a step: readings of the clock, an iteration order, random numbers, resolved addresses.\<close>

record runtime =
  v_time :: gotime
  v_ord :: "string list"
  v_merge :: "nat \<Rightarrow> gotime"
  v_perm :: "nat list"
  v_nonce :: u64
  v_resolves :: "string \<Rightarrow> bool"
  v_expired :: "u64 list"

definition resume :: "job option \<Rightarrow> continuation" where
  "resume k = (case k of None \<Rightarrow> Idle | Some j \<Rightarrow> Goto j)"

text \<open>The locked half of a change of the configuration, and the way into the other half.\<close>

definition commit_then ::
  "job option \<Rightarrow> World \<Rightarrow> World \<times> (config_error + bool) \<Rightarrow> World \<times> packet list \<times> continuation" where
  "commit_then k w wr =
     (fst wr, [], if snd wr = Inr True then Goto (Push Choose (cfg w) (cfg (fst wr)) k) else resume k)"

definition send_udp :: "World \<Rightarrow> json \<Rightarrow> packet list" where
  "send_udp w b = map (\<lambda>x. Udp (fst x)) (UDP_WriteTo (net_open w) (b, ()))"

section \<open>The receive loops\<close>

text \<open>What a receive loop does with the return of \<open>Read\<close>, up to the decoded message.\<close>

definition arrival :: "f64 \<Rightarrow> rat \<Rightarrow> 'a read \<Rightarrow> continuation" where
  "arrival rate coin input =
     (case input of
        ReadError \<Rightarrow> Stop
      | Datagram b _ \<Rightarrow>
          if drops rate coin then Goto RxHead
          else case decode_datagram b of None \<Rightarrow> Goto RxHead | Some m \<Rightarrow> Goto (RxConfig m))"

definition rx_config :: "Message \<Rightarrow> World \<Rightarrow> World \<times> packet list \<times> continuation" where
  "rx_config m w =
     (case MCfg m of
        None \<Rightarrow> (w, [], Goto (RxLook m))
      | Some d \<Rightarrow> commit_then (Some (RxLook m)) w (commit_remote d w))"

definition rx_look :: "runtime \<Rightarrow> Message \<Rightarrow> World \<Rightarrow> World \<times> packet list \<times> continuation" where
  "rx_look v m w =
     (let (list, self, s) = Snapshot (v_time v) (v_ord v) (st w)
      in (w\<lparr>st := s\<rparr>, [], if lists_self_left list self then Stop else Goto (RxSwitch m)))"

definition rx_merge :: "runtime \<Rightarrow> Message \<Rightarrow> World \<Rightarrow> World" where
  "rx_merge v m w = w\<lparr>st := MergeFullList (v_merge v) (st w) (MList m)\<rparr>"

fun ping_rx :: "nat \<Rightarrow> runtime \<Rightarrow> job \<Rightarrow> World \<Rightarrow> World \<times> packet list \<times> continuation" where
  "ping_rx r v (RxConfig m) w = rx_config m w"
| "ping_rx r v (RxLook m) w = rx_look v m w"
| "ping_rx r v (RxSwitch m) w =
     (if MType m = MsgPing then (rx_merge v m w, [], Goto (RxAnswer (MNonce m)))
      else if MType m = MsgAck then
        (let i = PInflight (get_ping (ping_at r) w)
         in (w\<lparr>tables := (tables w)(i := fst (Done (MNonce m) (tables w i)))\<rparr>, [], Goto (RxMerge m)))
      else if MType m = MsgGossip then (rx_merge v m w, [], Goto RxHead)
      else (w, [], Goto RxHead))"
| "ping_rx r v (RxAnswer n) w =
     (let (list, _, s) = Snapshot (v_time v) (v_ord v) (st w) in (w\<lparr>st := s\<rparr>, [], Goto (RxReply n list)))"
| "ping_rx r v (RxReply n list) w =
     (let reply = \<lparr>MType = MsgAck, MNonce = n, MList = list, MCfg = Some (PcfgDTO (get_ping (ping_at r) w))\<rparr>
      in (w, case EncodeMessage reply of None \<Rightarrow> [] | Some b \<Rightarrow> send_udp w b, Goto RxHead))"
| "ping_rx r v (RxMerge m) w = (rx_merge v m w, [], Goto RxHead)"
| "ping_rx r v RxHead w = (w, [], if ping_enter (get_ping (ping_at r) w) then Idle else Stop)"
| "ping_rx r v _ w = (w, [], Idle)"

fun gossip_rx :: "nat \<Rightarrow> runtime \<Rightarrow> job \<Rightarrow> World \<Rightarrow> World \<times> packet list \<times> continuation" where
  "gossip_rx r v (RxConfig m) w = rx_config m w"
| "gossip_rx r v (RxLook m) w = rx_look v m w"
| "gossip_rx r v (RxSwitch m) w =
     (if MType m = MsgGossip \<or> MType m = MsgPing \<or> MType m = MsgAck then rx_merge v m w else w, [], Goto RxHead)"
| "gossip_rx r v RxHead w = (w, [], if gossip_enter (get_gossip (gossip_at r) w) then Idle else Stop)"
| "gossip_rx r v _ w = (w, [], Idle)"

section \<open>The ticks\<close>

text \<open>
  The parameters \<open>period\<close>, \<open>fanout\<close> and \<open>tSuspect\<close> of the job \<open>TxSnap\<close> have been read together under the lock; the
  gossip loop has no \<open>tSuspect\<close>.
\<close>

definition targets_of :: "runtime \<Rightarrow> int \<Rightarrow> MemberEntry list \<Rightarrow> NodeID \<Rightarrow> string list" where
  "targets_of v fanout list self =
     (let peers = ResolvePeersFromMemberList list self
      in if peers = [] then [] else chosen_peers fanout (v_perm v) peers)"

fun ping_tx :: "nat \<Rightarrow> runtime \<Rightarrow> job \<Rightarrow> World \<Rightarrow> World \<times> packet list \<times> continuation" where
  "ping_tx r v (TxSnap period fanout tSuspect) w =
     (let (list, self, s) = Snapshot (v_time v) (v_ord v) (st w)
      in (w\<lparr>st := s\<rparr>, [], Goto (TxPing period tSuspect list (targets_of v fanout list self))))"
| "ping_tx r v (TxPing period tSuspect list []) w = (w, [], Goto (TxEnd period))"
| "ping_tx r v (TxPing period tSuspect list (a # as)) w =
     (let ping = \<lparr>MType = MsgPing, MNonce = v_nonce v, MList = list, MCfg = Some (PcfgDTO (get_ping (ping_at r) w))\<rparr>
      in case EncodeMessage ping of
           None \<Rightarrow> (w, [], Goto (TxPing period tSuspect list as))
         | Some b \<Rightarrow>
             if v_resolves v a then (w, send_udp w b, Goto (TxAdd period tSuspect list (v_nonce v) a as))
             else (w, [], Goto (TxPing period tSuspect list as)))"
| "ping_tx r v (TxAdd period tSuspect list nonce a as) w =
     (let i = PInflight (get_ping (ping_at r) w)
      in (w\<lparr>tables := (tables w)(i := Add (v_time v) nonce tSuspect a (tables w i))\<rparr>, [],
          Goto (TxPing period tSuspect list as)))"
| "ping_tx r v (TxEnd period) w = (with_ping_sender r (sender_ticked period) w, [], Idle)"
| "ping_tx r v _ w = (w, [], Idle)"

fun gossip_tx :: "nat \<Rightarrow> runtime \<Rightarrow> job \<Rightarrow> World \<Rightarrow> World \<times> packet list \<times> continuation" where
  "gossip_tx r v (TxSnap period fanout tSuspect) w =
     (let (list, self, s) = Snapshot (v_time v) (v_ord v) (st w)
      in (w\<lparr>st := s\<rparr>, [], Goto (TxGossip period list (targets_of v fanout list self))))"
| "gossip_tx r v (TxGossip period list targets) w =
     (let msg = \<lparr>MType = MsgGossip, MNonce = 0, MList = list, MCfg = Some (GcfgDTO (get_gossip (gossip_at r) w))\<rparr>
      in (w, if targets = [] then []
             else case EncodeMessage msg of
               None \<Rightarrow> []
             | Some b \<Rightarrow> concat (map (\<lambda>a. send_udp w b) (filter (v_resolves v) targets)), Goto (TxEnd period)))"
| "gossip_tx r v (TxEnd period) w = (with_gossip_sender r (sender_ticked period) w, [], Idle)"
| "gossip_tx r v _ w = (w, [], Idle)"

section \<open>The suspicion manager\<close>

text \<open>After the scan: the expired pings, if the gate that was read with the thresholds is open.\<close>

definition after_scan :: "gotime \<Rightarrow> bool \<Rightarrow> World \<Rightarrow> continuation" where
  "after_scan now useTO w = (if useTO \<and> MInflight (sm w) \<noteq> None then Goto (ScanReap now) else Idle)"

definition set_marks :: "Store \<times> int \<Rightarrow> World \<Rightarrow> World" where
  "set_marks sn w = w\<lparr>st := fst sn, sm := (sm w)\<lparr>failMarks := snd sn\<rparr>\<rparr>"

fun scanner :: "runtime \<Rightarrow> job \<Rightarrow> World \<Rightarrow> World \<times> packet list \<times> continuation" where
  "scanner v (ScanSnap now tSuspect tFail tCleanup useTO) w =
     (let (list, self, s) = Snapshot (v_time v) (v_ord v) (st w); w' = w\<lparr>st := s\<rparr> in
      case find (\<lambda>e. ID e = self \<and> EState e = StateLeft) list of
        Some e \<Rightarrow> if tCleanup \<le> time_Sub now (LastUpdate e) then (w', [], Exit) else (w', [], after_scan now useTO w')
      | None \<Rightarrow> (w', [], Goto (ScanList now tSuspect tFail tCleanup useTO list)))"
| "scanner v (ScanList now tSuspect tFail tCleanup useTO []) w = (w, [], after_scan now useTO w)"
| "scanner v (ScanList now tSuspect tFail tCleanup useTO (e # es)) w =
     (set_marks (scan_entry (v_time v) now tSuspect tFail tCleanup (st w, failMarks (sm w)) e) w, [],
      Goto (ScanList now tSuspect tFail tCleanup useTO es))"
| "scanner v (ScanReap now) w =
     (case MInflight (sm w) of
        None \<Rightarrow> (w\<lparr>panicked := True\<rparr>, [], Idle)
      | Some i \<Rightarrow>
          (let (m', recs) = Expired now (v_expired v) (tables w i)
           in (w\<lparr>tables := (tables w)(i := m')\<rparr>, [], if recs = [] then Idle else Goto (ReapLook recs))))"
| "scanner v (ReapLook recs) w = (w, [], Goto (ReapSnap (TSuspect (sm w) = 0) recs))"
| "scanner v (ReapSnap disabled recs) w =
     (let (list, _, s) = Snapshot (v_time v) (v_ord v) (st w) in (w\<lparr>st := s\<rparr>, [], Goto (ReapList disabled list recs)))"
| "scanner v (ReapList disabled list []) w = (w, [], Idle)"
| "scanner v (ReapList disabled list (rec # recs)) w =
     (set_marks (reap_rec (v_time v) disabled list (st w, failMarks (sm w)) rec) w, [], Goto (ReapList disabled list recs))"
| "scanner v _ w = (w, [], Idle)"

section \<open>The handlers and the joining node\<close>

fun server :: "runtime \<Rightarrow> job \<Rightarrow> World \<Rightarrow> World \<times> packet list \<times> continuation" where
  "server v (LocalCommit d) w = commit_then None w (commit_local d w)"
| "server v LeaveSnap w =
     (let (list, _, s) = Snapshot (v_time v) (v_ord v) (st w) in (w\<lparr>st := s\<rparr>, [], Goto (LeaveList list)))"
| "server v (LeaveList []) w = (w, [], Idle)"
| "server v (LeaveList (e # es)) w =
     (if ID e = SelfID (st w) then w\<lparr>st := ApplyLocked (v_time v) (st w) (SelfID (st w)) (Incarnation e + 1) StateLeft\<rparr>
      else w, [], Goto (LeaveList es))"
| "server v (IntroMerge es) w = (w\<lparr>st := MergeFullList (v_merge v) (st w) es\<rparr>, [], Goto IntroSnap)"
| "server v IntroSnap w =
     (let (list, _, s) = Snapshot (v_time v) (v_ord v) (st w) in (w\<lparr>st := s\<rparr>, [], Goto (IntroReply list)))"
| "server v (IntroReply list) w =
     (w, case EncodeJoinResponse \<lparr>RConfigDTO = ToDTO (cfg w), RList = list\<rparr> of None \<Rightarrow> [] | Some j \<Rightarrow> [Resp j], Idle)"
| "server v (JoinCommit resp) w = commit_then (Some (JoinMerge (RList resp))) w (commit_remote (RConfigDTO resp) w)"
| "server v (JoinMerge es) w = (w\<lparr>st := MergeFullList (v_merge v) (st w) es\<rparr>, [], Idle)"
| "server v _ w = (w, [], Idle)"

section \<open>A step of a process\<close>

text \<open>A panic ends the process, except in a request to the HTTP server, whose goroutine alone ends then.\<close>

definition recovered :: "goroutine \<Rightarrow> World \<Rightarrow> World" where
  "recovered g w = (case g of Handler h \<Rightarrow> w\<lparr>panicked := False\<rparr> | _ \<Rightarrow> w)"

lemma recovered_simps [simp]:
  "st (recovered g w) = st w" "pings (recovered g w) = pings w" "gossips (recovered g w) = gossips w"
  "ping_threads (recovered g w) = ping_threads w" "gossip_threads (recovered g w) = gossip_threads w" "cfg (recovered g w) = cfg w"
  by (simp_all add: recovered_def split: goroutine.split)

text \<open>One step of the goroutine \<open>g\<close> on its job.\<close>

definition micro :: "goroutine \<Rightarrow> runtime \<Rightarrow> job \<Rightarrow> World \<Rightarrow> World \<times> packet list \<times> continuation" where
  "micro g v j w =
     (case j of
        Push x prev n k \<Rightarrow>
          (case push_step prev n x w of
             (w', None) \<Rightarrow> (recovered g w', [], resume k)
           | (w', Some y) \<Rightarrow> (w', [], Goto (Push y prev n k)))
      | _ \<Rightarrow>
          (case g of
             PingRx r \<Rightarrow> ping_rx r v j w
           | GossipRx r \<Rightarrow> gossip_rx r v j w
           | PingTx r \<Rightarrow> ping_tx r v j w
           | GossipTx r \<Rightarrow> gossip_tx r v j w
           | Scanner \<Rightarrow> scanner v j w
           | _ \<Rightarrow> server v j w))"

type_synonym jobs = "goroutine \<Rightarrow> job option"

text \<open>What the end of a goroutine and of a job mean for the process: \<open>Run\<close> goes on once the node has joined.\<close>

definition job_next :: "continuation \<Rightarrow> job option" where
  "job_next n = (case n of Goto j \<Rightarrow> Some j | _ \<Rightarrow> None)"

definition ended :: "goroutine \<Rightarrow> continuation \<Rightarrow> World \<Rightarrow> World" where
  "ended g n w =
     (case (n, g) of
        (Stop, PingRx r) \<Rightarrow> w\<lparr>ping_threads := ping_threads w - {r}\<rparr>
      | (Stop, GossipRx r) \<Rightarrow> w\<lparr>gossip_threads := gossip_threads w - {r}\<rparr>
      | _ \<Rightarrow> w)"

definition phase_next :: "goroutine \<Rightarrow> continuation \<Rightarrow> phase \<Rightarrow> phase" where
  "phase_next g n ph = (if g = Main \<and> n = Idle \<and> ph = Asked then Booted else ph)"

lemma goto_simps [simp]: "ended g (Goto j) w = w" "phase_next g (Goto j) ph = ph" "job_next (Goto j) = Some j"
  by (simp_all add: ended_def phase_next_def job_next_def)

text \<open>
  The steps, with the packets that are read, the job that is executed, and the packets that are sent: a
  goroutine goes on with its job, or one that waits begins: a datagram arrives, a ticker fires, a request
  comes in, the answer of the introducer arrives. Nothing happens after a panic.
\<close>

inductive fstep :: "Config \<Rightarrow> phase \<times> World \<times> jobs \<Rightarrow> packet set \<Rightarrow> job option \<Rightarrow> packet set \<Rightarrow> phase \<times> World \<times> jobs \<Rightarrow> bool"
  for c0 :: Config where
  run: "\<not> panicked w \<Longrightarrow> J g = Some j \<Longrightarrow> micro g v j w = (w', out, n) \<Longrightarrow> n \<noteq> Exit \<Longrightarrow>
    fstep c0 (ph, w, J) {} (Some j) (set out) (phase_next g n ph, ended g n w', J(g := job_next n))"
| solo: "\<not> panicked w \<Longrightarrow> J g = None \<Longrightarrow> solo_step c0 g (ph, w) outs (ph', w') \<Longrightarrow>
    fstep c0 (ph, w, J) {} None outs (ph', w', J)"
| ping_arrive: "\<not> panicked w \<Longrightarrow> J (PingRx r) = None \<Longrightarrow> r \<in> ping_threads w \<Longrightarrow>
    UDP_Read (net_open w) (inp :: string read) = input \<Longrightarrow>
    arrival (PDropRateRecv (get_ping (ping_at r) w)) coin input = n \<Longrightarrow>
    fstep c0 (ph, w, J) (taken Udp DecodeMessage (datagram input)) None {} (ph, ended (PingRx r) n w, J(PingRx r := job_next n))"
| gossip_arrive: "\<not> panicked w \<Longrightarrow> J (GossipRx r) = None \<Longrightarrow> r \<in> gossip_threads w \<Longrightarrow>
    UDP_Read (net_open w) (inp :: string read) = input \<Longrightarrow>
    arrival (GDropRateRecv (get_gossip (gossip_at r) w)) coin input = n \<Longrightarrow>
    fstep c0 (ph, w, J) (taken Udp DecodeMessage (datagram input)) None {} (ph, ended (GossipRx r) n w, J(GossipRx r := job_next n))"
| ping_fires: "\<not> panicked w \<Longrightarrow> J (PingTx r) = None \<Longrightarrow> pings w r = Some l \<Longrightarrow> ping_senders w r = Ticking ticker prev \<Longrightarrow>
    fstep c0 (ph, w, J) {} None {} (ph, w, J(PingTx r \<mapsto> TxSnap (PingEvery l) (PingFanout l) (PTSuspect l)))"
| gossip_fires: "\<not> panicked w \<Longrightarrow> J (GossipTx r) = None \<Longrightarrow> gossips w r = Some l \<Longrightarrow> gossip_senders w r = Ticking ticker prev \<Longrightarrow>
    fstep c0 (ph, w, J) {} None {} (ph, w, J(GossipTx r \<mapsto> TxSnap (GossipPeriod l) (GossipFanout l) 0))"
| scan_fires: "\<not> panicked w \<Longrightarrow> J Scanner = None \<Longrightarrow> mgr_waits w \<Longrightarrow>
    fstep c0 (ph, w, J) {} None {}
      (ph, w, J(Scanner \<mapsto> ScanSnap now (TSuspect (sm w)) (TFail (sm w)) (TCleanup (sm w)) (UsePingTimeout (sm w))))"
| set_config: "\<not> panicked w \<Longrightarrow> J (Handler h) = None \<Longrightarrow> loadConfig text = Some d \<Longrightarrow>
    fstep c0 (Serving, w, J) {} None {} (Serving, w, J(Handler h \<mapsto> LocalCommit d))"
| switch: "\<not> panicked w \<Longrightarrow> J (Handler h) = None \<Longrightarrow> switch_dto req (cfg w) = Some d \<Longrightarrow>
    fstep c0 (Serving, w, J) {} None {} (Serving, w, J(Handler h \<mapsto> LocalCommit d))"
| leave: "\<not> panicked w \<Longrightarrow> J (Handler h) = None \<Longrightarrow>
    fstep c0 (Serving, w, J) {} None {} (Serving, w, J(Handler h \<mapsto> LeaveSnap))"
| introduce: "\<not> panicked w \<Longrightarrow> J (Handler h) = None \<Longrightarrow> cIsIntroducer c0 \<Longrightarrow> accepting w \<Longrightarrow> DecodeJoinRequest j = Some q \<Longrightarrow>
    fstep c0 (ph, w, J) {Req j} None {} (ph, w, J(Handler h \<mapsto> IntroMerge (QList q)))"
| answered: "\<not> panicked w \<Longrightarrow> J Main = None \<Longrightarrow> DecodeJoinResponse j = Some resp \<Longrightarrow>
    fstep c0 (Asked, w, J) {Resp j} None {} (Asked, w, J(Main \<mapsto> JoinCommit resp))"

text \<open>A goroutine that waits for nothing else has no job.\<close>

definition no_jobs :: jobs where "no_jobs = (\<lambda>_. None)"

end
