(* ===== verification/Interleaving.thy ===== *)
theory Interleaving
  imports Threads NetInv
begin

text \<open>
  The cluster with interleaving goroutines: the processes of \<open>Threads\<close> and their packets, with the histories of
  \<open>Network\<close>, and the invariant of its states. Since every goroutine works on values that may be stale when it uses them,
  an entry can mix what different boots of an endpoint said; the invariant traces it back to the boots of
  its endpoint.
\<close>

section \<open>The network\<close>

text \<open>
  What a step adds to the histories: a node is asked to leave when the handler lists its members, and
  marks itself at the next incarnation; a local change is made when it is committed.
\<close>

fun asked_by :: "job option \<Rightarrow> World \<Rightarrow> NodeID set" where
  "asked_by (Some LeaveSnap) w = {SelfID (st w)}"
| "asked_by _ w = {}"

fun said_by :: "job option \<Rightarrow> World \<Rightarrow> claims" where
  "said_by (Some (LeaveList (e # es))) w =
     (if ID e = SelfID (st w) then {(SelfID (st w), Incarnation e + 1, StateLeft)} else {})"
| "said_by _ w = {}"

fun made_by :: "job option \<Rightarrow> World \<Rightarrow> ConfigDTO set" where
  "made_by (Some (LocalCommit d)) w = {ToDTO (cfg w)}"
| "made_by _ w = {}"

text \<open>Whom a goroutine is about to accuse: those that it found silent, or whose pings have expired.\<close>

fun charges :: "job \<Rightarrow> accusations" where
  "charges (ScanList now tSuspect tFail tCleanup useTO es) =
     (\<lambda>e. (ID e, Incarnation e)) ` set (filter (overdue now tSuspect tFail) es)"
| "charges (ReapList disabled es recs) =
     (\<lambda>e. (ID e, Incarnation e)) ` set (filter (\<lambda>e. key_of (ID e) \<in> EAddr ` set recs) es)"
| "charges _ = {}"

definition charged :: "jobs \<Rightarrow> accusations" where
  "charged J = (\<Union>g. case J g of None \<Rightarrow> {} | Some j \<Rightarrow> charges j)"

type_synonym fine_net = "Net \<times> (nat \<Rightarrow> jobs)"

definition fine_put ::
  "nat \<Rightarrow> Config \<Rightarrow> job option \<Rightarrow> packet set \<Rightarrow> World \<Rightarrow> phase \<times> World \<times> jobs \<Rightarrow> Net \<Rightarrow> Net" where
  "fine_put i c j outs w q N =
     (case q of (ph', w', K) \<Rightarrow>
        (put_proc i c (ph', w') N)
          \<lparr>packets := packets N \<union> outs, said := said N \<union> said_by j w \<union> own_claims (st w'),
           leavers := leavers N \<union> asked_by j w, accused := accused N \<union> charged K, made := made N \<union> made_by j w'\<rparr>)"

inductive fnstep :: "fine_net \<Rightarrow> fine_net \<Rightarrow> bool" where
  boot: "procs N i = None \<Longrightarrow> flag_ints (e_flags v) \<Longrightarrow> main_start v = Inr (c, w) \<Longrightarrow>
    fnstep (N, J) ((put_proc i c (first_phase c, w) N)\<lparr>made := insert (ToDTO c) (made N)\<rparr>, J(i := no_jobs))"
| move: "procs N i = Some (c, ph, w) \<Longrightarrow> fstep c (ph, w, J i) ins j outs (ph', w', K) \<Longrightarrow> ins \<subseteq> packets N \<Longrightarrow>
    fnstep (N, J) (fine_put i c j outs w (ph', w', K) N, J(i := K))"
| die: "fnstep (N, J) (N\<lparr>procs := (procs N)(i := None)\<rparr>, J)"

inductive freach :: "fine_net \<Rightarrow> bool" where
  init: "freach (no_net, \<lambda>_. no_jobs)"
| step: "freach X \<Longrightarrow> fnstep X Y \<Longrightarrow> freach Y"

section \<open>What may be known of an endpoint\<close>

definition near_claimed :: "claims \<Rightarrow> MemberEntry \<Rightarrow> bool" where
  "near_claimed S e \<longleftrightarrow>
     (\<exists>i x. (ID e, i, x) \<in> S) \<and> (\<exists>n x. key_of n = key_of (ID e) \<and> (n, Incarnation e, x) \<in> S) \<and>
     (EState e \<noteq> StateSuspect \<and> EState e \<noteq> StateFailed \<longrightarrow>
       (\<exists>n. key_of n = key_of (ID e) \<and> (n, Incarnation e, EState e) \<in> S))"

definition near_left :: "NodeID set \<Rightarrow> MemberEntry \<Rightarrow> bool" where
  "near_left L e \<longleftrightarrow> (EState e = StateLeft \<longrightarrow> (\<exists>n \<in> L. key_of n = key_of (ID e)))"

definition near_accused :: "accusations \<Rightarrow> MemberEntry \<Rightarrow> bool" where
  "near_accused A e \<longleftrightarrow>
     (EState e = StateSuspect \<or> EState e = StateFailed \<longrightarrow> (\<exists>n. key_of n = key_of (ID e) \<and> (n, Incarnation e) \<in> A))"

definition near :: "claims \<Rightarrow> NodeID set \<Rightarrow> accusations \<Rightarrow> NodeID \<Rightarrow> MemberEntry \<Rightarrow> bool" where
  "near S L A me e \<longleftrightarrow> (near_claimed S e \<or> ID e = me) \<and> near_left L e \<and> near_accused A e"

definition told_of :: "claims \<Rightarrow> NodeID set \<Rightarrow> accusations \<Rightarrow> MemberEntry \<Rightarrow> bool" where
  "told_of S L A e \<longleftrightarrow> near_claimed S e \<and> near_left L e \<and> near_accused A e"

lemma near_time [simp]:
  "near_claimed S (e\<lparr>LastUpdate := t\<rparr>) = near_claimed S e" "near_left L (e\<lparr>LastUpdate := t\<rparr>) = near_left L e"
  "near_accused A (e\<lparr>LastUpdate := t\<rparr>) = near_accused A e"
  by (simp_all add: near_claimed_def near_left_def near_accused_def)

lemma told_on_wire [simp]: "told_of S L A (on_wire e) = told_of S L A e"
  by (simp add: told_of_def near_claimed_def near_left_def near_accused_def on_wire_def)

lemma near_claimed_mono: "near_claimed S e \<Longrightarrow> S \<subseteq> S' \<Longrightarrow> near_claimed S' e"
  unfolding near_claimed_def by blast

lemma near_left_mono: "near_left L e \<Longrightarrow> L \<subseteq> L' \<Longrightarrow> near_left L' e"
  unfolding near_left_def by blast

lemma near_accused_mono: "near_accused A e \<Longrightarrow> A \<subseteq> A' \<Longrightarrow> near_accused A' e"
  unfolding near_accused_def by blast

lemma told_mono: "told_of S L A e \<Longrightarrow> S \<subseteq> S' \<Longrightarrow> L \<subseteq> L' \<Longrightarrow> A \<subseteq> A' \<Longrightarrow> told_of S' L' A' e"
  using near_claimed_mono [of S e S'] near_left_mono [of L e L'] near_accused_mono [of A e A'] by (simp add: told_of_def)

lemma near_mono:
  "near S L A me e \<Longrightarrow> S \<subseteq> S' \<Longrightarrow> L \<subseteq> L' \<Longrightarrow> A \<subseteq> A' \<Longrightarrow> near S' L' A' me e"
  using near_claimed_mono [of S e S'] near_left_mono [of L e L'] near_accused_mono [of A e A'] by (auto simp: near_def)

lemma told_near: "told_of S L A e \<Longrightarrow> near S L A me e"
  by (simp add: told_of_def near_def)

lemma near_told:
  assumes "all_entries (near S L A (selfID s)) s" and "store_inv s" and "entries s k = Some e"
  shows "told_of (S \<union> own_claims s) L A e"
proof -
  have t: "near S L A (selfID s) e" using assms(1,3) by (simp add: all_entries_def)
  show ?thesis
  proof (cases "ID e = selfID s")
    case True
    then have "entries s (key_of (selfID s)) = Some e" using store_invD [OF assms(2,3)] assms(3) by simp
    with True have "(ID e, Incarnation e, EState e) \<in> own_claims s" by (simp add: own_claims_def)
    then have "near_claimed (S \<union> own_claims s) e" by (auto simp: near_claimed_def)
    with t show ?thesis by (simp add: told_of_def near_def)
  next
    case False
    with t show ?thesis using near_claimed_mono [of S e "S \<union> own_claims s"] by (simp add: near_def told_of_def)
  qed
qed

text \<open>A mark by key on the entry \<open>d\<close>, whoever is filed there by now, at an incarnation of the endpoint.\<close>

lemma near_marked:
  assumes "near S L A me d" and "near_claimed S e" and "key_of (ID d) = key_of (ID e)" and "(ID e, Incarnation e) \<in> A"
    and "x = StateSuspect \<or> x = StateFailed"
  shows "near S L A me (d\<lparr>EState := x, Incarnation := Incarnation e\<rparr>)"
proof -
  obtain n y where n: "key_of n = key_of (ID e)" "(n, Incarnation e, y) \<in> S"
    using assms(2) unfolding near_claimed_def by blast
  have x: "x \<noteq> StateLeft" using assms(5) by auto
  have "near_claimed S (d\<lparr>EState := x, Incarnation := Incarnation e\<rparr>)" if "near_claimed S d"
    unfolding near_claimed_def using that assms(3,5) n by (auto simp: near_claimed_def)
  moreover have "near_accused A (d\<lparr>EState := x, Incarnation := Incarnation e\<rparr>)"
    using assms(3,4) by (auto simp: near_accused_def)
  ultimately show ?thesis using assms(1) x by (auto simp: near_def near_left_def)
qed

interpretation near: talk_law "near S L A me" "\<lambda>n i. (n, i) \<in> A" me "told_of S L A"
    "\<lambda>s. told_of (S \<union> own_claims s) L A" for S L A me
proof unfold_locales
  show "told_of (S \<union> own_claims s) L A (on_wire e)"
    if "all_entries (near S L A me) s" "selfID s = me" "store_inv s" "entries s k = Some e" for s k e
    using near_told [of S L A s] that by simp
  show "near S L A me (d\<lparr>EState := x, Incarnation := Incarnation e\<rparr>)"
    if "near S L A me d" "near S L A me e" "ID d = ID e" "(ID e, Incarnation e) \<in> A" "ID e \<noteq> me"
      "x = StateSuspect \<or> x = StateFailed" for d e x
    using near_marked [of S L A me d e x] that by (simp add: near_def)
qed (auto simp: near_def told_of_def near_left_def near_accused_def)

lemma near_mark:
  assumes "all_entries (near S L A me) s" and "store_inv s" and "told_of S L A e" and "(ID e, Incarnation e) \<in> A"
    and "x = StateSuspect \<or> x = StateFailed"
  shows "all_entries (near S L A me) (ApplyLocked now s (ID e) (Incarnation e) x)"
proof (cases "entries s (key_of (ID e))")
  case None
  then show ?thesis using assms(1) by (simp add: ApplyLocked_def apply_entry_def)
next
  case (Some d)
  have "near S L A me d" using Some assms(1) by (simp add: all_entries_def)
  moreover have "key_of (ID d) = key_of (ID e)" using store_invD [OF assms(2) Some] by simp
  ultimately have "near S L A me (d\<lparr>EState := x, Incarnation := Incarnation e\<rparr>)"
    using near_marked assms(3-5) by (simp add: told_of_def)
  from all_entries_upd [OF assms(1) this] show ?thesis
    using Some assms(5) by (auto simp: ApplyLocked_def apply_entry_def)
qed

lemma near_remove: "all_entries P s \<Longrightarrow> all_entries P (RemoveEntry s n)"
  by (auto simp: all_entries_def dest: remove_ids)

lemma near_leave:
  assumes "all_entries (near S L A me) s" and "store_inv s" and "(me, i, StateLeft) \<in> S" and "me \<in> L"
  shows "all_entries (near S L A me) (ApplyLocked now s me i StateLeft)"
proof (cases "entries s (key_of me)")
  case None
  then show ?thesis using assms(1) by (simp add: ApplyLocked_def apply_entry_def)
next
  case (Some d)
  have "near S L A me d" using Some assms(1) by (simp add: all_entries_def)
  moreover have "key_of (ID d) = key_of me" using store_invD [OF assms(2) Some] by simp
  ultimately have "near S L A me (d\<lparr>LastUpdate := now, EState := StateLeft, Incarnation := i\<rparr>)"
    using assms(3,4) by (auto simp: near_def near_claimed_def near_left_def near_accused_def)
  from all_entries_upd [OF assms(1) this] show ?thesis
    using Some by (simp add: ApplyLocked_def apply_entry_def Let_def)
qed

lemma near_scan_entry:
  assumes "all_entries (near S L A me) s" and "store_inv s" and "told_of S L A e"
    and "overdue now tS tF e \<longrightarrow> (ID e, Incarnation e) \<in> A"
  shows "all_entries (near S L A me) (fst (scan_entry clock now tS tF tC (s, n) e))"
  using scan_entry_outcomes [of clock now tS tF tC s n e] near_remove [OF assms(1)] near_mark [OF assms(1-3)] assms(1,4)
  unfolding Let_def by metis

lemma near_reap:
  assumes "all_entries (near S L A me) s" and "store_inv s" and "\<forall>e \<in> set list. told_of S L A e"
    and "\<forall>e \<in> set list. key_of (ID e) = EAddr rec \<longrightarrow> (ID e, Incarnation e) \<in> A"
  shows "all_entries (near S L A me) (fst (reap_rec clock dis list (s, n) rec))"
  using assms(3,4)
proof (induction list)
  case (Cons e es)
  then show ?case using near_mark [OF assms(1,2), of e] by simp
qed (simp add: assms(1))

end
