(* ===== verification/FineInv.thy ===== *)
theory FineInv
  imports Interleaving
begin

text \<open>
  What the jobs of a process may be trusted with, and that every step of a goroutine keeps it, whatever the
  other goroutines have done since its last one.
\<close>

section \<open>Jobs\<close>

definition msg_ok :: "(MemberEntry \<Rightarrow> bool) \<Rightarrow> ConfigDTO set \<Rightarrow> Message \<Rightarrow> bool" where
  "msg_ok B M m \<longleftrightarrow> entries_ok B (MList m) \<and> (\<forall>d. MCfg m = Some d \<longrightarrow> d \<in> M)"

definition list_ok :: "(MemberEntry \<Rightarrow> bool) \<Rightarrow> MemberEntry list \<Rightarrow> bool" where
  "list_ok B es \<longleftrightarrow> (\<forall>e \<in> set es. B e)"

fun job_ok :: "claims \<Rightarrow> NodeID set \<Rightarrow> accusations \<Rightarrow> ConfigDTO set \<Rightarrow> NodeID \<Rightarrow> job \<Rightarrow> bool" where
  "job_ok S L A M me (RxConfig m) = msg_ok (told_of S L A) M m"
| "job_ok S L A M me (RxLook m) = msg_ok (told_of S L A) M m"
| "job_ok S L A M me (RxSwitch m) = msg_ok (told_of S L A) M m"
| "job_ok S L A M me (RxMerge m) = msg_ok (told_of S L A) M m"
| "job_ok S L A M me (RxReply n es) = list_ok (told_of S L A) es"
| "job_ok S L A M me (Push x prev n k) = (ToDTO n \<in> M \<and> (\<forall>j \<in> set_option k. job_ok S L A M me j))"
| "job_ok S L A M me (TxPing period tS es targets) = list_ok (told_of S L A) es"
| "job_ok S L A M me (TxAdd period tS es nonce a targets) = list_ok (told_of S L A) es"
| "job_ok S L A M me (TxGossip period es targets) = list_ok (told_of S L A) es"
| "job_ok S L A M me (ScanList now tS tF tC u es) =
     (list_ok (told_of S L A) es \<and> charges (ScanList now tS tF tC u es) \<subseteq> A)"
| "job_ok S L A M me (ReapList dis es recs) = (list_ok (told_of S L A) es \<and> charges (ReapList dis es recs) \<subseteq> A)"
| "job_ok S L A M me (LocalCommit d) = dto_ints d"
| "job_ok S L A M me (LeaveList es) = (me \<in> L)"
| "job_ok S L A M me (IntroMerge es) = entries_ok (told_of S L A) es"
| "job_ok S L A M me (IntroReply es) = list_ok (told_of S L A) es"
| "job_ok S L A M me (JoinCommit resp) = (entries_ok (told_of S L A) (RList resp) \<and> RConfigDTO resp \<in> M)"
| "job_ok S L A M me (JoinMerge es) = entries_ok (told_of S L A) es"
| "job_ok S L A M me _ = True"

definition next_ok :: "claims \<Rightarrow> NodeID set \<Rightarrow> accusations \<Rightarrow> ConfigDTO set \<Rightarrow> NodeID \<Rightarrow> continuation \<Rightarrow> bool" where
  "next_ok S L A M me n \<longleftrightarrow> (\<forall>j. n = Goto j \<longrightarrow> job_ok S L A M me j)"

lemma next_ok_simps [simp]:
  "next_ok S L A M me (Goto j) = job_ok S L A M me j" "next_ok S L A M me Idle" "next_ok S L A M me Stop"
  "next_ok S L A M me Exit" "next_ok S L A M me (resume k) = (\<forall>j \<in> set_option k. job_ok S L A M me j)"
  by (auto simp: next_ok_def resume_def split: option.splits)

lemma list_ok_mono: "list_ok B es \<Longrightarrow> (\<And>e. B e \<Longrightarrow> B' e) \<Longrightarrow> list_ok B' es"
  by (simp add: list_ok_def)

lemma msg_ok_mono: "msg_ok B M m \<Longrightarrow> (\<And>e. B e \<Longrightarrow> B' e) \<Longrightarrow> M \<subseteq> M' \<Longrightarrow> msg_ok B' M' m"
  using entries_ok_mono [of B "MList m" B'] by (auto simp: msg_ok_def)

lemma job_ok_mono:
  assumes "S \<subseteq> S'" and "L \<subseteq> L'" and "A \<subseteq> A'" and "M \<subseteq> M'"
  shows "job_ok S L A M me j \<Longrightarrow> job_ok S' L' A' M' me j"
proof (induction j)
  case (Push x prev n k)
  then show ?case using assms(4) by auto
next
  case (ScanList now tS tF tC u es)
  then show ?case using list_ok_mono [OF _ told_mono [OF _ assms(1-3)]] assms(3) by (auto simp del: charges.simps)
next
  case (ReapList dis es recs)
  then show ?case using list_ok_mono [OF _ told_mono [OF _ assms(1-3)]] assms(3) by (auto simp del: charges.simps)
qed (use assms in \<open>auto intro: list_ok_mono msg_ok_mono entries_ok_mono told_mono\<close>)

section \<open>Steps\<close>

text \<open>What is known of the process when a goroutine takes a step, and what the step guarantees.\<close>

abbreviation fine_proc :: "claims \<Rightarrow> NodeID set \<Rightarrow> accusations \<Rightarrow> ConfigDTO set \<Rightarrow> Config \<Rightarrow> NodeID \<Rightarrow> World \<Rightarrow> bool" where
  "fine_proc S L A M c me \<equiv> proc_ok (near S L A me) M c me"

definition fine_ok ::
  "claims \<Rightarrow> NodeID set \<Rightarrow> accusations \<Rightarrow> ConfigDTO set \<Rightarrow> Config \<Rightarrow> NodeID \<Rightarrow> World \<times> packet list \<times> continuation \<Rightarrow> bool" where
  "fine_ok S L A M c me r \<longleftrightarrow>
     (case r of (w', out, n) \<Rightarrow>
        step_ok (near S L A me) (\<lambda>s. told_of (S \<union> own_claims s) L A) M c me (set out) w' \<and>
        next_ok (S \<union> own_claims (st w')) L A M me n)"

lemma fine_silent:
  "fine_proc S L A M c me w \<Longrightarrow> next_ok (S \<union> own_claims (st w)) L A M me n \<Longrightarrow> fine_ok S L A M c me (w, [], n)"
  by (simp add: fine_ok_def step_ok_silent)

lemma fine_goto:
  "fine_proc S L A M c me w \<Longrightarrow> job_ok S L A M me j \<Longrightarrow> fine_ok S L A M c me (w, [], Goto j)"
  using job_ok_mono [of S "S \<union> own_claims (st w)" L L A A M M me j] by (intro fine_silent) auto

lemma fine_snapshot:
  assumes "fine_proc S L A M c me w" and "Snapshot t ord (st w) = (list, self, s)"
  shows "fine_proc S L A M c me (w\<lparr>st := s\<rparr>)" and "list_ok (told_of (S \<union> own_claims s) L A) list"
proof -
  show p: "fine_proc S L A M c me (w\<lparr>st := s\<rparr>)" by (rule near.proc_ok_snapshot [OF assms])
  show "list_ok (told_of (S \<union> own_claims s) L A) list"
    using near.listed_told [OF p, of t ord "st w" list self] assms(2) by (simp add: list_ok_def)
qed

lemma fine_merge:
  assumes "fine_proc S L A M c me w" and "entries_ok (told_of S L A) es"
  shows "fine_proc S L A M c me (w\<lparr>st := MergeFullList clk (st w) es\<rparr>)"
  by (rule near.proc_ok_merge [OF assms])

lemma fine_marks:
  assumes "fine_proc S L A M c me w" and "all_entries (near S L A me) (fst sn)" and "store_inv (fst sn)"
    and "selfID (fst sn) = me"
  shows "fine_proc S L A M c me (set_marks sn w)"
  using assms by (simp add: set_marks_def proc_ok_def from_made_def)

lemma fine_tables: "fine_proc S L A M c me (w\<lparr>tables := t\<rparr>) = fine_proc S L A M c me w"
  by (simp add: proc_ok_def from_made_def)

section \<open>Pushing a configuration\<close>

lemma push_step_made:
  assumes "from_made M c w" and "ToDTO n \<in> M"
  shows "from_made M c (fst (push_step prev n x w))"
  using assms
  by (cases x)
    (auto simp: or_panic_def close_ping_def close_gossip_def create_loop_def Let_def from_made_def PingClose_def
      GossipClose_def NewPingAck_def NewGossip_def PingSetConfigDTO_def GossipSetConfigDTO_def reconfigurePing_def
      reconfigureGossip_def PingReconfigure_def GossipReconfigure_def bind_eq_Some_conv split: option.splits if_splits)

lemma or_panic_st: "st (fst (or_panic w x y)) = (case x of None \<Rightarrow> st w | Some w' \<Rightarrow> st w')"
  by (simp add: or_panic_def split: option.split)

lemma pointer_frames [simp]:
  "close_ping w = Some w' \<Longrightarrow> st w' = st w" "close_gossip w = Some w' \<Longrightarrow> st w' = st w"
  "st (create_loop c w) = st w"
  by (auto simp: close_ping_def close_gossip_def create_loop_def Let_def bind_eq_Some_conv)

lemma push_step_store:
  "entries (st (fst (push_step prev n x w))) = entries (st w) \<and> selfID (st (fst (push_step prev n x w))) = selfID (st w)"
  by (cases x) (simp_all add: or_panic_st split: option.split)

lemma commit_then_ok:
  assumes "fine_proc S L A M c me w" and "from_made M c (fst wr)" and "st (fst wr) = st w"
    and "\<forall>j \<in> set_option k. job_ok S L A M me j"
  shows "fine_ok S L A M c me (commit_then k w wr)"
proof -
  have p: "fine_proc S L A M c me (fst wr)"
    using assms(1-3) by (intro proc_ok_config [OF assms(1)]) simp_all
  have "ToDTO (cfg (fst wr)) \<in> M" using assms(2) by (simp add: from_made_def)
  moreover have "\<forall>j \<in> set_option k. job_ok (S \<union> own_claims (st (fst wr))) L A M me j"
    using assms(4) job_ok_mono [of S "S \<union> own_claims (st (fst wr))" L L A A M M me] by blast
  ultimately show ?thesis using p by (auto simp: commit_then_def intro: fine_silent)
qed

lemma remote_ok:
  assumes "fine_proc S L A M c me w" and "whole M" and "d \<in> M" and "\<forall>j \<in> set_option k. job_ok S L A M me j"
  shows "fine_ok S L A M c me (commit_then k w (commit_remote d w))"
  using assms from_made_commit(1) [OF assms(2,3), of c w] by (intro commit_then_ok) (simp_all add: proc_ok_def)

lemma local_ok:
  assumes "fine_proc S L A M c me w" and "dto_ints d" and "ToDTO (cfg (fst (commit_local d w))) \<in> M"
  shows "fine_ok S L A M c me (commit_then None w (commit_local d w))"
proof (rule commit_then_ok [OF assms(1)])
  have "cfg_ok (cfg (fst (commit_local d w)))"
    using assms(1,2) bump_cfg_ok by (simp add: proc_ok_def from_made_def)
  then show "from_made M c (fst (commit_local d w))"
    using assms(1,3) by (auto simp: proc_ok_def from_made_def commit_local_def split_beta)
qed simp_all

lemma recovered_ok: "proc_ok P M c me (recovered g w) = proc_ok P M c me w"
  by (simp add: proc_ok_def from_made_def)

lemma push_ok:
  assumes "fine_proc S L A M c me w" and "job_ok S L A M me (Push x prev n k)"
  shows "fine_ok S L A M c me (micro g v (Push x prev n k) w)"
proof -
  let ?w = "fst (push_step prev n x w)"
  have p: "fine_proc S L A M c me ?w"
    using assms push_step_made [of M c w n prev x] push_step_store [of prev n x w]
    by (intro proc_ok_config [OF assms(1)]) (simp_all add: proc_ok_def)
  have "job_ok S' L A M me (Push y prev n k)" "next_ok S' L A M me (resume k)" if "S \<subseteq> S'" for S' y
    using job_ok_mono [OF that order_refl [of L] order_refl [of A] order_refl [of M], of me] assms(2) by auto
  with p show ?thesis
    by (auto simp: micro_def recovered_ok split: prod.split option.split intro!: fine_silent simp del: job_ok.simps)
qed

section \<open>The goroutines\<close>

lemma rx_config_ok:
  assumes "fine_proc S L A M c me w" and "whole M" and "msg_ok (told_of S L A) M m"
  shows "fine_ok S L A M c me (rx_config m w)"
proof (cases "MCfg m")
  case None
  then show ?thesis using assms by (simp add: rx_config_def fine_goto)
next
  case (Some d)
  then have "d \<in> M" using assms(3) by (simp add: msg_ok_def)
  with Some assms show ?thesis by (simp add: rx_config_def remote_ok)
qed

lemma rx_look_ok:
  assumes "fine_proc S L A M c me w" and "msg_ok (told_of S L A) M m"
  shows "fine_ok S L A M c me (rx_look v m w)"
proof -
  obtain list self s where s: "Snapshot (v_time v) (v_ord v) (st w) = (list, self, s)" by (metis prod.exhaust)
  have "fine_proc S L A M c me (w\<lparr>st := s\<rparr>)" by (rule fine_snapshot(1) [OF assms(1) s])
  then show ?thesis using assms(2) s by (simp add: rx_look_def fine_silent fine_goto)
qed

lemma rx_merge_ok: "fine_proc S L A M c me w \<Longrightarrow> msg_ok (told_of S L A) M m \<Longrightarrow> fine_proc S L A M c me (rx_merge v m w)"
  by (simp add: rx_merge_def msg_ok_def fine_merge)

text \<open>A snapshot that the goroutine keeps.\<close>

lemma kept_snapshot:
  assumes "fine_proc S L A M c me w" and "Snapshot t ord (st w) = (list, self, s)"
    and "job_ok (S \<union> own_claims s) L A M me j = list_ok (told_of (S \<union> own_claims s) L A) list"
  shows "fine_ok S L A M c me (w\<lparr>st := s\<rparr>, [], Goto j)"
  using fine_snapshot [OF assms(1,2)] assms(3) by (intro fine_silent) simp_all

text \<open>A message with a list that the goroutine has kept, and the configuration of its loop.\<close>

lemma sent_ok:
  assumes "fine_proc S L A M c me w" and "whole M" and "list_ok (told_of S L A) list" and "d \<in> M"
    and "EncodeMessage \<lparr>MType = t, MNonce = n, MList = list, MCfg = Some d\<rparr> = Some b" and "set out \<subseteq> {Udp b}"
    and "job_ok S L A M me j"
  shows "fine_ok S L A M c me (w, out, Goto j)"
proof -
  let ?S = "S \<union> own_claims (st w)"
  have "\<forall>e \<in> set list. told_of ?S L A (on_wire e)"
    using assms(3) told_mono [of S L A _ ?S L A] by (auto simp: list_ok_def)
  then have "packet_ok (told_of ?S L A) M (Udp b)"
    using sent_message_ok [OF assms(5) _ assms(4,2)] by (simp del: packet_ok.simps)
  then show ?thesis
    using assms(1,6,7) job_ok_mono [of S ?S L L A A M M me j] by (auto simp: fine_ok_def step_ok_def simp del: packet_ok.simps)
qed

lemma send_udp_sub: "set (send_udp w b) \<subseteq> {Udp b}"
  by (auto simp: send_udp_def UDP_WriteTo_def)

lemma ping_dto_made: "from_made M c w \<Longrightarrow> pings w r \<noteq> None \<Longrightarrow> PcfgDTO (get_ping (ping_at r) w) \<in> M"
  by (auto simp: from_made_def ping_at_def)

lemma gossip_dto_made: "from_made M c w \<Longrightarrow> gossips w r \<noteq> None \<Longrightarrow> GcfgDTO (get_gossip (gossip_at r) w) \<in> M"
  by (auto simp: from_made_def gossip_at_def)

lemma ping_rx_ok:
  assumes "fine_proc S L A M c me w" and "whole M" and "job_ok S L A M me j" and "pings w r \<noteq> None"
  shows "fine_ok S L A M c me (ping_rx r v j w)"
proof (cases "(r, v, j, w)" rule: ping_rx.cases)
  case (3 r v m w)
  then show ?thesis
    using assms by (auto simp: Let_def fine_tables rx_merge_ok intro!: fine_goto)
next
  case (4 r v n w)
  obtain list self s where s: "Snapshot (v_time v) (v_ord v) (st w) = (list, self, s)" by (metis prod.exhaust)
  with 4 show ?thesis using assms(1) kept_snapshot [OF _ s] by simp
next
  case (5 r' v' n list w')
  have d: "PcfgDTO (get_ping (ping_at r) w) \<in> M" using assms(1,4) ping_dto_made unfolding proc_ok_def by blast
  show ?thesis
    using 5 assms(1-3) sent_ok [OF _ _ _ d _ send_udp_sub] by (auto simp: Let_def fine_goto split: option.split)
next
  case (7 r v w)
  then show ?thesis using assms(1) by (auto intro: fine_silent)
qed (use assms in \<open>simp_all add: rx_config_ok rx_look_ok rx_merge_ok fine_goto fine_silent\<close>)

lemma gossip_rx_ok:
  assumes "fine_proc S L A M c me w" and "whole M" and "job_ok S L A M me j"
  shows "fine_ok S L A M c me (gossip_rx r v j w)"
proof (cases "(r, v, j, w)" rule: gossip_rx.cases)
  case (3 r v m w)
  then show ?thesis using assms by (auto simp: rx_merge_ok intro!: fine_goto)
next
  case (4 r v w)
  then show ?thesis using assms(1) by (auto intro: fine_silent)
qed (use assms in \<open>simp_all add: rx_config_ok rx_look_ok fine_silent\<close>)

lemma fine_sender:
  "fine_proc S L A M c me (with_ping_sender r f w) = fine_proc S L A M c me w"
  "fine_proc S L A M c me (with_gossip_sender r f w) = fine_proc S L A M c me w"
  by (simp_all add: proc_ok_def from_made_def)

lemma ping_tx_ok:
  assumes "fine_proc S L A M c me w" and "whole M" and "job_ok S L A M me j" and "pings w r \<noteq> None"
  shows "fine_ok S L A M c me (ping_tx r v j w)"
proof (cases "(r, v, j, w)" rule: ping_tx.cases)
  case (1 r v period fanout tS w)
  obtain list self s where s: "Snapshot (v_time v) (v_ord v) (st w) = (list, self, s)" by (metis prod.exhaust)
  with 1 show ?thesis using assms(1) kept_snapshot [OF _ s] by simp
next
  case (3 r' v' period tS list a as w')
  have d: "PcfgDTO (get_ping (ping_at r) w) \<in> M" using assms(1,4) ping_dto_made unfolding proc_ok_def by blast
  show ?thesis
    using 3 assms(1-3) sent_ok [OF _ _ _ d _ send_udp_sub] by (auto simp: Let_def fine_goto split: option.split)
next
  case (4 r v period tS list n a as w)
  then show ?thesis using assms(1,3) by (auto simp: Let_def fine_tables intro!: fine_goto)
next
  case (5 r v period w)
  then show ?thesis using assms(1) by (simp add: fine_sender fine_silent)
qed (use assms in \<open>simp_all add: fine_goto fine_silent\<close>)

lemma gossip_tx_ok:
  assumes "fine_proc S L A M c me w" and "whole M" and "job_ok S L A M me j" and "gossips w r \<noteq> None"
  shows "fine_ok S L A M c me (gossip_tx r v j w)"
proof (cases "(r, v, j, w)" rule: gossip_tx.cases)
  case (1 r v period fanout tS w)
  obtain list self s where s: "Snapshot (v_time v) (v_ord v) (st w) = (list, self, s)" by (metis prod.exhaust)
  with 1 show ?thesis using assms(1) kept_snapshot [OF _ s] by simp
next
  case (2 r' v' period list targets w')
  have d: "GcfgDTO (get_gossip (gossip_at r) w) \<in> M" using assms(1,4) gossip_dto_made unfolding proc_ok_def by blast
  have sub: "set (concat (map (\<lambda>a. send_udp w b) as)) \<subseteq> {Udp b}" for b and as :: "string list"
    by (auto simp: send_udp_def UDP_WriteTo_def)
  show ?thesis
    using 2 assms(1-3) sent_ok [OF _ _ _ d _ sub] by (auto simp: Let_def fine_goto split: option.split)
next
  case (3 r v period w)
  then show ?thesis using assms(1) by (simp add: fine_sender fine_silent)
qed (use assms in \<open>simp_all add: fine_silent\<close>)

lemma scan_store:
  "store_inv (fst sn) \<Longrightarrow> store_inv (fst (scan_entry clock now tS tF tC sn e))"
  "selfID (fst (scan_entry clock now tS tF tC sn e)) = selfID (fst sn)"
  by (cases sn, auto simp: scan_entry_def Let_def store_inv_intros)+

lemma reap_store:
  "store_inv (fst sn) \<Longrightarrow> store_inv (fst (reap_rec clock dis list sn rec))"
  "selfID (fst (reap_rec clock dis list sn rec)) = selfID (fst sn)"
  by (induction list) (auto simp: store_inv_intros)

lemma after_scan_ok [simp]: "next_ok S L A M me (after_scan now u w)"
  by (simp add: after_scan_def)

lemma scan_entry_fine:
  assumes "fine_proc S L A M c me w" and "job_ok S L A M me (ScanList now tS tF tC u (e # es))"
  shows "fine_ok S L A M c me (set_marks (scan_entry clock now tS tF tC (st w, failMarks (sm w)) e) w, [],
    Goto (ScanList now tS tF tC u es))"
proof (rule fine_goto)
  have e: "told_of S L A e" "overdue now tS tF e \<longrightarrow> (ID e, Incarnation e) \<in> A"
    using assms(2) by (auto simp: list_ok_def)
  show "fine_proc S L A M c me (set_marks (scan_entry clock now tS tF tC (st w, failMarks (sm w)) e) w)"
    using assms(1) scan_store [where sn = "(st w, failMarks (sm w))"] near_scan_entry [OF _ _ e]
    by (intro fine_marks) (simp_all add: proc_ok_def)
  show "job_ok S L A M me (ScanList now tS tF tC u es)"
    using assms(2) by (auto simp: list_ok_def)
qed

lemma reap_fine:
  assumes "fine_proc S L A M c me w" and "job_ok S L A M me (ReapList dis es (rec # recs))"
  shows "fine_ok S L A M c me (set_marks (reap_rec clock dis es (st w, failMarks (sm w)) rec) w, [],
    Goto (ReapList dis es recs))"
proof (rule fine_goto)
  have e: "\<forall>e \<in> set es. told_of S L A e" "\<forall>e \<in> set es. key_of (ID e) = EAddr rec \<longrightarrow> (ID e, Incarnation e) \<in> A"
    using assms(2) by (auto simp: list_ok_def)
  show "fine_proc S L A M c me (set_marks (reap_rec clock dis es (st w, failMarks (sm w)) rec) w)"
    using assms(1) reap_store [where sn = "(st w, failMarks (sm w))"] near_reap [OF _ _ e]
    by (intro fine_marks) (simp_all add: proc_ok_def)
  show "job_ok S L A M me (ReapList dis es recs)"
    using assms(2) by (auto simp: list_ok_def)
qed

text \<open>Here the accusations of the job that follows must be known.\<close>

definition charges_in :: "accusations \<Rightarrow> continuation \<Rightarrow> bool" where
  "charges_in A n \<longleftrightarrow> (\<forall>j. n = Goto j \<longrightarrow> charges j \<subseteq> A)"

lemma charges_in_Goto [simp]: "charges_in A (Goto j) = (charges j \<subseteq> A)"
  by (simp add: charges_in_def)

lemma scanner_ok:
  assumes "fine_proc S L A M c me w" and "job_ok S L A M me j" and "charges_in A (snd (snd (scanner v j w)))"
  shows "fine_ok S L A M c me (scanner v j w)"
proof (cases "(v, j, w)" rule: scanner.cases)
  case (1 v' now tS tF tC u w')
  obtain list self s where s: "Snapshot (v_time v) (v_ord v) (st w) = (list, self, s)" by (metis prod.exhaust)
  show ?thesis
  proof (cases "find (\<lambda>e. ID e = self \<and> EState e = StateLeft) list")
    case None
    then have "charges (ScanList now tS tF tC u list) \<subseteq> A" using assms(3) 1 s by simp
    with None 1 s show ?thesis
      using kept_snapshot [OF assms(1) s, where j = "ScanList now tS tF tC u list"] by (simp del: charges.simps)
  next
    case (Some e)
    with 1 s show ?thesis using fine_snapshot(1) [OF assms(1) s] by (simp add: fine_silent Let_def)
  qed
next
  case (3 v' now tS tF tC u e es w')
  then show ?thesis using scan_entry_fine [OF assms(1)] assms(2) by (simp del: job_ok.simps)
next
  case (4 v' now w')
  then show ?thesis
    using assms(1) by (auto simp: fine_tables proc_ok_def from_made_def intro!: fine_silent split: option.split prod.split)
next
  case (6 v' dis recs w')
  obtain list self s where s: "Snapshot (v_time v) (v_ord v) (st w) = (list, self, s)" by (metis prod.exhaust)
  then have "charges (ReapList dis list recs) \<subseteq> A" using assms(3) 6 by simp
  with 6 s show ?thesis
    using kept_snapshot [OF assms(1) s, where j = "ReapList dis list recs"] by (simp del: charges.simps)
next
  case (8 v' dis es rec recs w')
  then show ?thesis using reap_fine [OF assms(1)] assms(2) by (simp del: job_ok.simps)
qed (use assms in \<open>simp_all add: fine_silent\<close>)

lemma server_ok:
  assumes "fine_proc S L A M c me w" and "whole M" and "job_ok S L A M me j"
    and "said_by (Some j) w \<subseteq> S" and "asked_by (Some j) w \<subseteq> L" and "made_by (Some j) (fst (server v j w)) \<subseteq> M"
  shows "fine_ok S L A M c me (server v j w)"
proof (cases "(v, j, w)" rule: server.cases)
  case (1 v' d w')
  then show ?thesis using assms(1,3,6) local_ok by (simp add: commit_then_def)
next
  case (2 v' w')
  obtain list self s where s: "Snapshot (v_time v) (v_ord v) (st w) = (list, self, s)" by (metis prod.exhaust)
  have "me \<in> L" using assms(1,5) 2 by (simp add: proc_ok_def SelfID_def)
  with 2 s show ?thesis using fine_snapshot(1) [OF assms(1) s] by (simp add: fine_silent)
next
  case (4 v' e es w')
  let ?s = "ApplyLocked (v_time v) (st w) (SelfID (st w)) (Incarnation e + 1) StateLeft"
  have me: "SelfID (st w) = me" using assms(1) by (simp add: proc_ok_def SelfID_def)
  have "fine_proc S L A M c me (w\<lparr>st := ?s\<rparr>)" if "ID e = SelfID (st w)"
    using that assms(1,3,4) 4 near_leave [of S L A me "st w" "Incarnation e + 1" "v_time v"] me
    by (intro proc_ok_parts [OF assms(1)]) (simp_all add: proc_ok_def store_inv_intros)
  then show ?thesis using 4 assms(1,3) by (simp add: fine_goto)
next
  case (5 v' es w')
  then show ?thesis using assms(1,3) fine_merge by (simp add: fine_goto)
next
  case (6 v' w')
  obtain list self s where s: "Snapshot (v_time v) (v_ord v) (st w) = (list, self, s)" by (metis prod.exhaust)
  with 6 show ?thesis using assms(1) kept_snapshot [OF _ s] by simp
next
  case (7 v' list w')
  let ?S = "S \<union> own_claims (st w)"
  have "\<forall>e \<in> set list. told_of ?S L A (on_wire e)"
    using assms(3) 7 told_mono [of S L A _ ?S L A] by (auto simp: list_ok_def)
  moreover have "ToDTO (cfg w) \<in> M" using assms(1) by (simp add: proc_ok_def from_made_def)
  ultimately have "packet_ok (told_of ?S L A) M (Resp j)"
    if "EncodeJoinResponse \<lparr>RConfigDTO = ToDTO (cfg w), RList = list\<rparr> = Some j" for j
    using sent_response_ok [OF that] assms(2) by (simp del: packet_ok.simps)
  with 7 show ?thesis
    using assms(1) by (auto simp: fine_ok_def step_ok_def simp del: packet_ok.simps split: option.split)
next
  case (8 v' resp w')
  then show ?thesis using assms(1-3) by (simp add: remote_ok)
next
  case (9 v' es w')
  then show ?thesis using assms(1,3) fine_merge by (simp add: fine_silent)
qed (use assms in \<open>simp_all add: fine_silent fine_goto\<close>)

text \<open>A goroutine of a loop works on a loop that exists.\<close>

definition has_loop :: "goroutine \<Rightarrow> World \<Rightarrow> bool" where
  "has_loop g w =
     (case g of
        PingRx r \<Rightarrow> pings w r \<noteq> None | PingTx r \<Rightarrow> pings w r \<noteq> None
      | GossipRx r \<Rightarrow> gossips w r \<noteq> None | GossipTx r \<Rightarrow> gossips w r \<noteq> None | _ \<Rightarrow> True)"

lemma micro_ok:
  assumes "micro g v j w = (w', out, n)" and "fine_proc S L A M c me w" and "whole M" and "job_ok S L A M me j"
    and "has_loop g w" and "said_by (Some j) w \<subseteq> S" and "asked_by (Some j) w \<subseteq> L" and "made_by (Some j) w' \<subseteq> M"
    and "charges_in A n"
  shows "fine_ok S L A M c me (w', out, n)"
proof (cases "\<exists>x p y k. j = Push x p y k")
  case True
  then show ?thesis using push_ok [OF assms(2)] assms(1,4) by metis
next
  case False
  then have m: "micro g v j w = (case g of PingRx r \<Rightarrow> ping_rx r v j w | GossipRx r \<Rightarrow> gossip_rx r v j w
      | PingTx r \<Rightarrow> ping_tx r v j w | GossipTx r \<Rightarrow> gossip_tx r v j w | Scanner \<Rightarrow> scanner v j w | _ \<Rightarrow> server v j w)"
    unfolding micro_def by (auto split: job.split)
  have c: "charges_in A (snd (snd (micro g v j w)))" "made_by (Some j) (fst (micro g v j w)) \<subseteq> M"
    using assms(1,8,9) by simp_all
  have "fine_ok S L A M c me (micro g v j w)"
    using c assms(5) unfolding m
    by (cases g)
      (simp_all add: has_loop_def ping_rx_ok [OF assms(2-4)] gossip_rx_ok [OF assms(2-4)] ping_tx_ok [OF assms(2-4)]
        gossip_tx_ok [OF assms(2-4)] scanner_ok [OF assms(2,4)] server_ok [OF assms(2-4,6,7)])
  then show ?thesis using assms(1) by simp
qed

end
