(* ===== verification/FineNet.thy ===== *)
theory FineNet
  imports FineInv
begin

text \<open>The invariant of the network with interleaving goroutines.\<close>

section \<open>Loops and their goroutines\<close>

definition keeps_loops :: "World \<Rightarrow> World \<Rightarrow> bool" where
  "keeps_loops w w' \<longleftrightarrow>
     (\<forall>r. pings w r \<noteq> None \<longrightarrow> pings w' r \<noteq> None) \<and> (\<forall>r. gossips w r \<noteq> None \<longrightarrow> gossips w' r \<noteq> None) \<and>
     (\<forall>r \<in> ping_threads w'. r \<in> ping_threads w \<or> pings w' r \<noteq> None) \<and>
     (\<forall>r \<in> gossip_threads w'. r \<in> gossip_threads w \<or> gossips w' r \<noteq> None)"

lemma keeps_loops_same:
  "pings w' = pings w \<Longrightarrow> gossips w' = gossips w \<Longrightarrow> ping_threads w' \<subseteq> ping_threads w \<Longrightarrow>
   gossip_threads w' \<subseteq> gossip_threads w \<Longrightarrow> keeps_loops w w'"
  by (auto simp: keeps_loops_def)

lemma keeps_loops_refl [simp]: "keeps_loops w w"
  by (simp add: keeps_loops_def)

lemma keeps_loops_add:
  "(\<And>r. pings w r \<noteq> None \<Longrightarrow> pings w' r \<noteq> None) \<Longrightarrow> (\<And>r. gossips w r \<noteq> None \<Longrightarrow> gossips w' r \<noteq> None) \<Longrightarrow>
   ping_threads w' \<subseteq> ping_threads w \<union> {r. pings w' r \<noteq> None} \<Longrightarrow>
   gossip_threads w' \<subseteq> gossip_threads w \<union> {r. gossips w' r \<noteq> None} \<Longrightarrow> keeps_loops w w'"
  by (auto simp: keeps_loops_def)

lemma pointer_loops:
  "close_ping w = Some w' \<Longrightarrow> keeps_loops w w'" "close_gossip w = Some w' \<Longrightarrow> keeps_loops w w'"
  "keeps_loops w (create_loop c w)" "keeps_loops w (reconfigurePing c w)" "keeps_loops w (reconfigureGossip c w)"
proof -
  show "keeps_loops w w'" if c: "close_ping w = Some w'"
  proof -
    obtain r l where "w' = w\<lparr>pings := (pings w)(r \<mapsto> l)\<rparr>"
      using c unfolding close_ping_def bind_eq_Some_conv map_option_eq_Some by blast
    then show ?thesis by (simp add: keeps_loops_def)
  qed
  show "keeps_loops w w'" if c: "close_gossip w = Some w'"
  proof -
    obtain r l where "w' = w\<lparr>gossips := (gossips w)(r \<mapsto> l)\<rparr>"
      using c unfolding close_gossip_def bind_eq_Some_conv map_option_eq_Some by blast
    then show ?thesis by (simp add: keeps_loops_def)
  qed
  show "keeps_loops w (create_loop c w)"
  proof (rule keeps_loops_add)
    show "pings (create_loop c w) r \<noteq> None" if "pings w r \<noteq> None" for r
      using that unfolding create_loop_def Let_def by auto
    show "gossips (create_loop c w) r \<noteq> None" if "gossips w r \<noteq> None" for r
      using that unfolding create_loop_def Let_def by auto
    show "ping_threads (create_loop c w) \<subseteq> ping_threads w \<union> {r. pings (create_loop c w) r \<noteq> None}"
      unfolding create_loop_def Let_def by auto
    show "gossip_threads (create_loop c w) \<subseteq> gossip_threads w \<union> {r. gossips (create_loop c w) r \<noteq> None}"
      unfolding create_loop_def Let_def by auto
  qed
  show "keeps_loops w (reconfigurePing c w)" "keeps_loops w (reconfigureGossip c w)"
    by (rule keeps_loops_add; auto simp: reconfigurePing_def reconfigureGossip_def split: option.split)+
qed

lemma or_panic_loops:
  "(\<And>w'. x = Some w' \<Longrightarrow> keeps_loops w w') \<Longrightarrow> keeps_loops w (fst (or_panic w x y))"
  by (auto simp: or_panic_def intro: keeps_loops_same split: option.split)

lemma dto_loops:
  "keeps_loops w (w\<lparr>pings := (pings w)(r := map_option f (pings w r))\<rparr>)"
  "keeps_loops w (w\<lparr>gossips := (gossips w)(r := map_option g (gossips w r))\<rparr>)"
  by (auto simp: keeps_loops_def)

lemma push_step_loops: "keeps_loops w (fst (push_step prev n x w))"
proof (cases x)
  case CloseOther
  then show ?thesis using pointer_loops(1,2) by (auto intro!: or_panic_loops split: if_splits)
next
  case Create
  then show ?thesis using pointer_loops(3) by simp
next
  case Tune
  then show ?thesis using pointer_loops(4,5) by (auto intro!: or_panic_loops split: if_splits)
next
  case SetGo
  then show ?thesis using dto_loops(2) by (auto intro!: or_panic_loops)
next
  case SetPA
  then show ?thesis using dto_loops(1) by (auto intro!: or_panic_loops)
qed (auto intro!: keeps_loops_same)

definition same_loops :: "World \<Rightarrow> World \<Rightarrow> bool" where
  "same_loops w w' \<longleftrightarrow> pings w' = pings w \<and> gossips w' = gossips w \<and> ping_threads w' = ping_threads w \<and>
     gossip_threads w' = gossip_threads w"

lemma same_loops_keep: "same_loops w w' \<Longrightarrow> keeps_loops w w'"
  by (simp add: same_loops_def keeps_loops_same)

lemma same_loops_simps [simp]:
  "same_loops w w" "same_loops w (w\<lparr>st := s\<rparr>)" "same_loops w (w\<lparr>tables := t\<rparr>)" "same_loops w (set_marks sn w)"
  "same_loops w (rx_merge v m w)" "same_loops w (fst (commit_then k w (commit_remote d w)))"
  "same_loops w (fst (commit_then k w (commit_local e w)))" "same_loops w (fst (rx_look v m w))"
  "same_loops w (fst (rx_config m w))" "same_loops w (with_ping_sender r f w)" "same_loops w (with_gossip_sender r f w)"
  "same_loops w (w\<lparr>panicked := b\<rparr>)"
  by (simp_all add: same_loops_def set_marks_def rx_merge_def commit_then_def commit_remote_def commit_local_def split_beta
      rx_look_def rx_config_def with_ping_sender_def with_gossip_sender_def split: option.split prod.split)

lemma goroutine_loops:
  "same_loops w (fst (ping_rx r v j w))" "same_loops w (fst (gossip_rx r v j w))" "same_loops w (fst (ping_tx r v j w))"
  "same_loops w (fst (gossip_tx r v j w))" "same_loops w (fst (scanner v j w))" "same_loops w (fst (server v j w))"
proof -
  show "same_loops w (fst (ping_rx r v j w))"
    by (cases "(r, v, j, w)" rule: ping_rx.cases) (simp_all add: Let_def split: prod.split)
  show "same_loops w (fst (gossip_rx r v j w))"
    by (cases "(r, v, j, w)" rule: gossip_rx.cases) simp_all
  show "same_loops w (fst (ping_tx r v j w))"
    by (cases "(r, v, j, w)" rule: ping_tx.cases) (simp_all add: Let_def split: prod.split option.split)
  show "same_loops w (fst (gossip_tx r v j w))"
    by (cases "(r, v, j, w)" rule: gossip_tx.cases) (simp_all add: Let_def split: prod.split)
  show "same_loops w (fst (scanner v j w))"
    by (cases "(v, j, w)" rule: scanner.cases) (simp_all add: Let_def split: prod.split option.split)
  show "same_loops w (fst (server v j w))"
    by (cases "(v, j, w)" rule: server.cases) (simp_all split: prod.split)
qed

lemma keeps_trans_same: "keeps_loops w w1 \<Longrightarrow> pings w2 = pings w1 \<Longrightarrow> gossips w2 = gossips w1 \<Longrightarrow>
    ping_threads w2 \<subseteq> ping_threads w1 \<Longrightarrow> gossip_threads w2 \<subseteq> gossip_threads w1 \<Longrightarrow> keeps_loops w w2"
  by (auto simp: keeps_loops_def)

lemma micro_loops: "keeps_loops w (fst (micro g v j w))"
proof (cases "\<exists>x p y k. j = Push x p y k")
  case True
  then obtain x p y k where "j = Push x p y k" by blast
  then have "same_loops (fst (push_step p y x w)) (fst (micro g v j w))"
    by (simp add: micro_def same_loops_def split: prod.split option.split)
  then show ?thesis using push_step_loops [of w p y x] keeps_trans_same [of w "fst (push_step p y x w)"] by (simp add: same_loops_def)
next
  case False
  then have "micro g v j w = (case g of PingRx r \<Rightarrow> ping_rx r v j w | GossipRx r \<Rightarrow> gossip_rx r v j w
      | PingTx r \<Rightarrow> ping_tx r v j w | GossipTx r \<Rightarrow> gossip_tx r v j w | Scanner \<Rightarrow> scanner v j w | _ \<Rightarrow> server v j w)"
    unfolding micro_def by (auto split: job.split)
  then show ?thesis using same_loops_keep goroutine_loops by (cases g) simp_all
qed

lemma ended_frames [simp]:
  "st (ended g n w) = st w" "cfg (ended g n w) = cfg w" "pings (ended g n w) = pings w" "gossips (ended g n w) = gossips w"
  "ping_threads (ended g n w) \<subseteq> ping_threads w" "gossip_threads (ended g n w) \<subseteq> gossip_threads w"
  by (auto simp: ended_def split: continuation.split goroutine.split)

lemma ended_loops: "keeps_loops w (ended g n w)"
  by (rule keeps_loops_same) simp_all

lemma solo_loops: "solo_step c0 g p outs q \<Longrightarrow> keeps_loops (snd p) (snd q)"
proof (induction rule: solo_step.induct)
  case (serve w)
  then show ?case
    by (auto simp: keeps_loops_def startProtocol_def Let_def stopPingAck_def stopGossip_def split: option.splits)
next
  case (shutdown w)
  then show ?case
    by (auto simp: keeps_loops_def Close_def Let_def stopPingAck_def stopGossip_def split: option.splits)
qed (auto simp: same_loops_keep startIntroducerServer_def join_request_def http_list_mem_def http_display_suspects_def
    ManagerRun_def ManagerEnd_def split: prod.splits if_splits intro!: keeps_loops_same)

text \<open>Every goroutine of a loop, at rest or at work, has its loop.\<close>

definition loops_ok :: "World \<Rightarrow> jobs \<Rightarrow> bool" where
  "loops_ok w J \<longleftrightarrow>
     (\<forall>r \<in> ping_threads w. pings w r \<noteq> None) \<and> (\<forall>r \<in> gossip_threads w. gossips w r \<noteq> None) \<and>
     (\<forall>g. J g \<noteq> None \<longrightarrow> has_loop g w)"

lemma has_loop_keeps: "keeps_loops w w' \<Longrightarrow> has_loop g w \<Longrightarrow> has_loop g w'"
  by (auto simp: keeps_loops_def has_loop_def split: goroutine.splits)

lemma loops_ok_keeps:
  assumes "loops_ok w J" and "keeps_loops w w'" and "has_loop g w"
  shows "loops_ok w' (J(g := n))" and "loops_ok w' J"
  using assms has_loop_keeps [OF assms(2)] by (auto simp: loops_ok_def keeps_loops_def)

lemma fstep_loops:
  assumes "fstep c0 (ph, w, J) ins j outs (ph', w', J')" and "loops_ok w J"
  shows "loops_ok w' J'"
  using assms(1)
proof (cases rule: fstep.cases)
  case (run g j' v w1 out n)
  have "has_loop g w" using assms(2) run(8) by (simp add: loops_ok_def)
  moreover have "keeps_loops w w'"
  proof (rule keeps_trans_same)
    show "keeps_loops w w1" using micro_loops [of w g v j'] run(9) by simp
  qed (simp_all add: run(5))
  ultimately show ?thesis using loops_ok_keeps(1) [OF assms(2)] unfolding run(6) by blast
next
  case (solo g)
  then show ?thesis using solo_loops [of c0 g "(ph, w)" outs "(ph', w')"] loops_ok_keeps(2) [OF assms(2), of w' Scanner]
    by (simp add: has_loop_def)
next
  case (ping_arrive r inp input coin n)
  then have "has_loop (PingRx r) w" using assms(2) by (simp add: loops_ok_def has_loop_def)
  then show ?thesis using loops_ok_keeps(1) [OF assms(2) ended_loops] unfolding ping_arrive(5,6) by blast
next
  case (gossip_arrive r inp input coin n)
  then have "has_loop (GossipRx r) w" using assms(2) by (simp add: loops_ok_def has_loop_def)
  then show ?thesis using loops_ok_keeps(1) [OF assms(2) ended_loops] unfolding gossip_arrive(5,6) by blast
qed (use assms(2) in \<open>auto simp: loops_ok_def has_loop_def\<close>)

section \<open>A step of a process\<close>

lemma ended_proc [simp]: "fine_proc S L A M c me (ended g n w) = fine_proc S L A M c me w"
  by (simp add: proc_ok_def from_made_def)

definition jobs_ok :: "claims \<Rightarrow> NodeID set \<Rightarrow> accusations \<Rightarrow> ConfigDTO set \<Rightarrow> NodeID \<Rightarrow> jobs \<Rightarrow> bool" where
  "jobs_ok S L A M me J \<longleftrightarrow> (\<forall>g j. J g = Some j \<longrightarrow> job_ok S L A M me j)"

lemma jobs_ok_mono:
  "jobs_ok S L A M me J \<Longrightarrow> S \<subseteq> S' \<Longrightarrow> L \<subseteq> L' \<Longrightarrow> A \<subseteq> A' \<Longrightarrow> M \<subseteq> M' \<Longrightarrow> jobs_ok S' L' A' M' me J"
  using job_ok_mono [of S S' L L' A A' M M' me] unfolding jobs_ok_def by blast

lemma jobs_ok_next:
  "jobs_ok S L A M me J \<Longrightarrow> next_ok S L A M me n \<Longrightarrow> jobs_ok S L A M me (J(g := job_next n))"
  by (auto simp: jobs_ok_def job_next_def next_ok_def split: continuation.splits)

lemma jobs_ok_put: "jobs_ok S L A M me J \<Longrightarrow> job_ok S L A M me j \<Longrightarrow> jobs_ok S L A M me (J(g \<mapsto> j))"
  by (simp add: jobs_ok_def)

lemma arrival_ok:
  assumes "\<forall>x \<in> taken Udp DecodeMessage (datagram input). packet_ok (told_of S L A) M x"
  shows "next_ok S L A M me (arrival rate coin input)"
  using assms
  by (auto simp: arrival_def taken_def datagram_def decode_datagram_def msg_ok_def bind_eq_Some_conv split: read.splits option.splits)

definition stepped :: "claims \<Rightarrow> NodeID set \<Rightarrow> accusations \<Rightarrow> ConfigDTO set \<Rightarrow> Config \<Rightarrow> NodeID \<Rightarrow> packet set \<Rightarrow> World \<Rightarrow> jobs \<Rightarrow> bool" where
  "stepped S L A M c me outs w J \<longleftrightarrow>
     step_ok (near S L A me) (\<lambda>s. told_of (S \<union> own_claims s) L A) M c me outs w \<and>
     jobs_ok (S \<union> own_claims (st w)) L A M me J"

lemma stepped_silent:
  "fine_proc S L A M c me w \<Longrightarrow> jobs_ok S L A M me J \<Longrightarrow> stepped S L A M c me {} w J"
  using jobs_ok_mono [of S L A M me J "S \<union> own_claims (st w)" L A M] by (simp add: stepped_def step_ok_silent)

lemma charges_charged: "K g = Some j \<Longrightarrow> charges j \<subseteq> charged K"
  unfolding charged_def by (rule UN_upper [THEN subset_trans [rotated], of g]) simp_all

lemma fstep_ok:
  assumes "fstep c (ph, w, K) ins j outs (ph', w', K')" and "fine_proc S L A M c me w" and "whole M"
    and "\<forall>x \<in> ins. packet_ok (told_of S L A) M x" and "loops_ok w K" and "jobs_ok S L A M me K"
    and "said_by j w \<subseteq> S" and "asked_by j w \<subseteq> L" and "charged K' \<subseteq> A" and "made_by j w' \<subseteq> M"
  shows "stepped S L A M c me outs w' K'"
  using assms(1)
proof (cases rule: fstep.cases)
  case (run g j' v w1 out n)
  have j: "job_ok S L A M me j'" "has_loop g w" using assms(5,6) run(8) by (auto simp: jobs_ok_def loops_ok_def)
  have "charges x \<subseteq> A" if "K' g = Some x" for x using charges_charged [of K' g x] that assms(9) by blast
  then have a: "charges_in A n" using run(6) by (auto simp: charges_in_def job_next_def)
  have "made_by (Some j') w1 \<subseteq> M" using assms(10) run(2,5) by (cases j') auto
  then have "fine_ok S L A M c me (w1, out, n)"
    using micro_ok [OF run(9) assms(2,3) j _ _ _ a] assms(7,8) run(2) by simp
  then have "step_ok (near S L A me) (\<lambda>s. told_of (S \<union> own_claims s) L A) M c me outs w'"
    and "next_ok (S \<union> own_claims (st w')) L A M me n"
    using run(3,5) by (simp_all add: fine_ok_def step_ok_def)
  then show ?thesis
    using jobs_ok_next [of "S \<union> own_claims (st w')" L A M me K n g] run(6)
      jobs_ok_mono [OF assms(6), of "S \<union> own_claims (st w')" L A M] by (simp add: stepped_def)
next
  case (solo g)
  have "step_ok (near S L A me) (\<lambda>s. told_of (S \<union> own_claims s) L A) M c me outs w'"
    using near.solo_ok [OF solo(6)] assms(2,3) by simp
  then show ?thesis
    using jobs_ok_mono [OF assms(6), of "S \<union> own_claims (st w')" L A M] solo(3) by (simp add: stepped_def)
next
  case (ping_arrive r inp input coin n)
  then show ?thesis using assms(2,4,6) arrival_ok [of input S L A M me] jobs_ok_next by (auto intro!: stepped_silent)
next
  case (gossip_arrive r inp input coin n)
  then show ?thesis using assms(2,4,6) arrival_ok [of input S L A M me] jobs_ok_next by (auto intro!: stepped_silent)
next
  case (set_config h input d)
  then show ?thesis using assms(2,6) loadConfig_ints by (auto intro!: stepped_silent jobs_ok_put)
next
  case (switch h req d)
  then have "dto_ints d" using switch_dto_ints assms(2) by (auto simp: proc_ok_def from_made_def)
  with switch show ?thesis using assms(2,6) by (auto intro!: stepped_silent jobs_ok_put)
qed (use assms(2,4,6) in \<open>auto intro!: stepped_silent jobs_ok_put\<close>)

section \<open>The invariant\<close>

definition fine_process :: "Net \<Rightarrow> Config \<Rightarrow> World \<Rightarrow> jobs \<Rightarrow> bool" where
  "fine_process N c w K \<longleftrightarrow>
     store_inv (st w) \<and> from_made (made N) c w \<and> all_entries (told_of (said N) (leavers N) (accused N)) (st w) \<and>
     loops_ok w K \<and> jobs_ok (said N) (leavers N) (accused N) (made N) (selfID (st w)) K"

definition fine_inv :: "fine_net \<Rightarrow> bool" where
  "fine_inv X \<longleftrightarrow>
     (case X of (N, J) \<Rightarrow>
        whole (made N) \<and> (\<forall>x \<in> packets N. packet_ok (told_of (said N) (leavers N) (accused N)) (made N) x) \<and>
        (\<forall>i c ph w. procs N i = Some (c, ph, w) \<longrightarrow> fine_process N c w (J i)))"

lemma fine_process_mono:
  assumes "fine_process N c w K" and "said N \<subseteq> said N'" and "leavers N \<subseteq> leavers N'" and "accused N \<subseteq> accused N'"
    and "made N \<subseteq> made N'"
  shows "fine_process N' c w K"
  using assms told_mono [OF _ assms(2-4)] from_made_mono jobs_ok_mono [OF _ assms(2-5)]
  by (auto simp: fine_process_def all_entries_def)

text \<open>One process moves.\<close>

lemma fine_inv_move:
  assumes "fine_inv (N, J)" and "procs N' = (procs N)(i \<mapsto> (c, ph', w'))" and "packets N' = packets N \<union> outs"
    and "said N' = S \<union> own_claims (st w')" and "said N \<subseteq> S" and "leavers N \<subseteq> leavers N'" and "accused N \<subseteq> accused N'"
    and "made N \<subseteq> made N'" and "whole (made N')" and "loops_ok w' K"
    and "stepped S (leavers N') (accused N') (made N') c (selfID (st w')) outs w' K"
  shows "fine_inv (N', J(i := K))"
proof -
  have s: "said N \<subseteq> said N'" using assms(4,5) by blast
  have "fine_process N' c w' K"
    using assms(4,10,11) near_told
    by (auto simp: stepped_def step_ok_def proc_ok_def fine_process_def all_entries_def)
  moreover have "fine_process N' c' w (J k)" if "procs N k = Some (c', ph, w)" for k c' ph w
    using fine_process_mono [OF _ s assms(6-8)] assms(1) that by (auto simp: fine_inv_def)
  moreover have "packet_ok (told_of (said N') (leavers N') (accused N')) (made N') x" if "x \<in> packets N'" for x
  proof (cases "x \<in> outs")
    case True
    then show ?thesis using assms(4,11) by (simp add: stepped_def step_ok_def del: packet_ok.simps)
  next
    case False
    then have "packet_ok (told_of (said N) (leavers N) (accused N)) (made N) x"
      using assms(1,3) that by (simp add: fine_inv_def del: packet_ok.simps)
    then show ?thesis by (rule packet_ok_mono [OF _ told_mono [OF _ s assms(6,7)] assms(8)])
  qed
  ultimately show ?thesis using assms(2,9) by (auto simp: fine_inv_def simp del: packet_ok.simps split: if_splits)
qed

lemma fine_boot:
  assumes "boot r l t now c = Inr w" and "cfg_ok c"
  shows "stepped S L A (insert (ToDTO c) M) c (selfID (st w)) {} w no_jobs" and "loops_ok w no_jobs"
proof -
  obtain self where s: "st w = NewStore now self c" using boot_facts [OF assms(1)] by blast
  then have "store_inv (st w)" "all_entries (near S L A (selfID (st w))) (st w)"
    by (simp_all add: store_inv_New) (simp add: all_entries_def NewStore_def near_def near_left_def near_accused_def)
  then have "fine_proc S L A (insert (ToDTO c) M) c (selfID (st w)) w"
    using boot_facts [OF assms(1)] assms(2) by (simp add: proc_ok_def from_made_def)
  then show "stepped S L A (insert (ToDTO c) M) c (selfID (st w)) {} w no_jobs"
    by (rule stepped_silent) (simp add: jobs_ok_def no_jobs_def)
  show "loops_ok w no_jobs"
    using assms(1) by (auto simp: boot_def loops_ok_def no_jobs_def Let_def split: sum.splits if_splits)
qed

text \<open>A local change is valid when it is committed.\<close>

lemma made_whole:
  assumes "fstep c (ph, w, K) ins j outs (ph', w', K')" and "fine_process N c w K" and "whole (made N)"
  shows "whole (made N \<union> made_by j w')"
proof (cases "\<exists>d. j = Some (LocalCommit d)")
  case True
  then obtain d where d: "j = Some (LocalCommit d)" by blast
  have "cfg_ok (cfg w')"
    using assms(1)
  proof (cases rule: fstep.cases)
    case (run g j' v w1 out n)
    then have "job_ok (said N) (leavers N) (accused N) (made N) (selfID (st w)) (LocalCommit d)"
      using assms(2) d unfolding fine_process_def jobs_ok_def by blast
    then have "dto_ints d" by simp
    moreover have ok: "cfg_ok (cfg w)" using assms(2) by (simp add: fine_process_def from_made_def)
    ultimately have "cfg_ok (cfg (fst (micro g v (LocalCommit d) w)))"
      using bump_cfg_ok by (cases g) (simp_all add: micro_def commit_then_def)
    then show ?thesis using run d by simp
  qed (simp_all add: d)
  then show ?thesis using d assms(3) whole_insert by simp
next
  case False
  then have "made_by j w' = {}" by (cases "(j, w')" rule: made_by.cases) auto
  then show ?thesis using assms(3) by simp
qed

lemma move_stepped:
  assumes "fine_inv (N, J)" and "procs N i = Some (c, ph, w)" and "fstep c (ph, w, J i) ins j outs (ph', w', K)"
    and "ins \<subseteq> packets N"
  shows "stepped (said N \<union> said_by j w) (leavers N \<union> asked_by j w) (accused N \<union> charged K) (made N \<union> made_by j w') c
      (selfID (st w)) outs w' K"
    and "whole (made N \<union> made_by j w')" and "loops_ok w' K" and "selfID (st w') = selfID (st w)"
proof -
  let ?S = "said N \<union> said_by j w" and ?L = "leavers N \<union> asked_by j w" and ?A = "accused N \<union> charged K"
    and ?M = "made N \<union> made_by j w'" and ?me = "selfID (st w)"
  have p: "fine_process N c w (J i)" using assms(1,2) by (simp add: fine_inv_def)
  have "all_entries (near ?S ?L ?A ?me) (st w)"
    using p told_near [OF told_mono [of "said N" "leavers N" "accused N" _ ?S ?L ?A]]
    by (auto simp: fine_process_def all_entries_def)
  then have f: "fine_proc ?S ?L ?A ?M c ?me w"
    using p from_made_mono [of "made N" c w ?M] by (simp add: proc_ok_def fine_process_def)
  have k: "jobs_ok ?S ?L ?A ?M ?me (J i)"
    using p jobs_ok_mono [of "said N" "leavers N" "accused N" "made N" ?me "J i" ?S ?L ?A ?M] by (simp add: fine_process_def)
  have l: "loops_ok w (J i)" using p by (simp add: fine_process_def)
  show w: "whole ?M" using made_whole [OF assms(3) p] assms(1) by (simp add: fine_inv_def)
  have "packet_ok (told_of ?S ?L ?A) ?M x" if "packet_ok (told_of (said N) (leavers N) (accused N)) (made N) x" for x
    by (rule packet_ok_mono [OF that told_mono]) auto
  then have x: "\<forall>x \<in> ins. packet_ok (told_of ?S ?L ?A) ?M x"
    using assms(1,4) by (auto simp: fine_inv_def simp del: packet_ok.simps)
  show t: "stepped ?S ?L ?A ?M c ?me outs w' K"
    by (rule fstep_ok [OF assms(3) f w x l k]) auto
  then show "selfID (st w') = ?me" by (simp add: stepped_def step_ok_def proc_ok_def)
  show "loops_ok w' K" by (rule fstep_loops [OF assms(3) l])
qed

lemma fnstep_inv:
  assumes "fnstep X Y" and "fine_inv X"
  shows "fine_inv Y"
  using assms
proof (induction rule: fnstep.induct)
  case (boot N i v c w J)
  have c: "cfg_ok c" using flags_cfg_ok main_start_facts(1) boot.hyps(2,3) by blast
  note b = fine_boot [OF main_start_facts(2) [OF boot.hyps(3)] c]
  show ?case
    by (rule fine_inv_move [OF boot.prems, where ph' = "first_phase c" and w' = w and c = c and outs = "{}" and S = "said N"])
      (use b boot.prems whole_insert c in \<open>auto simp: put_proc_def fine_inv_def\<close>)
next
  case (move N i c ph w J ins j outs ph' w' K)
  note m = move_stepped [OF move.prems move.hyps]
  show ?case
    using m unfolding fine_put_def prod.case
    by (intro fine_inv_move [OF move.prems, where ph' = ph' and w' = w' and c = c and outs = outs and S = "said N \<union> said_by j w"])
      (auto simp: put_proc_def)
next
  case (die N J i)
  then show ?case by (auto simp: fine_inv_def fine_process_def)
qed

lemma freach_inv: "freach X \<Longrightarrow> fine_inv X"
proof (induction rule: freach.induct)
  case init
  then show ?case by (simp add: fine_inv_def no_net_def whole_def)
next
  case (step X Y)
  then show ?case using fnstep_inv by blast
qed

end
