(* ===== verification/FineSim.thy ===== *)
theory FineSim
  imports FineNet
begin

text \<open>
  Every run of the cluster in which the operations are atomic (\<open>nstep\<close> of \<open>Network\<close>) is one of the runs of
  the interleaving goroutines: the steps of each operation, executed one after the other, have its effect.
\<close>

section \<open>The run of one goroutine\<close>

inductive gruns :: "goroutine \<Rightarrow> World \<times> continuation \<Rightarrow> packet set \<Rightarrow> World \<times> continuation \<Rightarrow> bool" for g :: goroutine where
  rest: "gruns g x {} x"
| go: "\<not> panicked w \<Longrightarrow> micro g v j w = (w1, out, n) \<Longrightarrow> n \<noteq> Exit \<Longrightarrow> gruns g (w1, n) outs y \<Longrightarrow>
    gruns g (w, Goto j) (set out \<union> outs) y"

lemma gruns_trans: "gruns g x outs y \<Longrightarrow> gruns g y outs' z \<Longrightarrow> gruns g x (outs \<union> outs') z"
proof (induction rule: gruns.induct)
  case (go w v j w1 out n outs y)
  then show ?case using gruns.go [OF go.hyps(1-3)] by (simp add: Un_assoc)
qed simp

lemma gruns_quiet: "gruns g x {} y \<Longrightarrow> gruns g y outs z \<Longrightarrow> gruns g x outs z"
  using gruns_trans [of g x "{}" y outs z] by simp

lemma gruns_then_quiet: "gruns g x outs y \<Longrightarrow> gruns g y {} z \<Longrightarrow> gruns g x outs z"
  using gruns_trans [of g x outs y "{}" z] by simp

lemma gruns_one:
  assumes "micro g v j w = (w1, out, n)" and "\<not> panicked w" and "n \<noteq> Exit" and "outs = set out"
  shows "gruns g (w, Goto j) outs (w1, n)"
  using gruns.go [OF assms(2,1,3) gruns.rest] assms(4) by simp

lemma gruns_one_quiet: "micro g v j w = (w1, [], n) \<Longrightarrow> \<not> panicked w \<Longrightarrow> n \<noteq> Exit \<Longrightarrow> gruns g (w, Goto j) {} (w1, n)"
  using gruns_one [of g v j w w1 "[]" n "{}"] by simp

text \<open>The runs of a process with the packets \<open>P\<close> at hand.\<close>

inductive fruns :: "Config \<Rightarrow> packet set \<Rightarrow> phase \<times> World \<times> jobs \<Rightarrow> packet set \<Rightarrow> phase \<times> World \<times> jobs \<Rightarrow> bool"
  for c0 :: Config and P :: "packet set" where
  rest: "fruns c0 P x {} x"
| go: "fstep c0 x ins j out y \<Longrightarrow> ins \<subseteq> P \<Longrightarrow> fruns c0 P y outs z \<Longrightarrow> fruns c0 P x (out \<union> outs) z"

lemma gruns_fruns:
  assumes "gruns g x outs y" and "fst y = w'" and "snd y = n'" and "n' = Idle \<or> n' = Stop"
    and "snd x = Goto j" and "J g = Some j"
  shows "fruns c0 P (ph, fst x, J) outs (phase_next g n' ph, ended g n' w', J(g := None))"
  using assms
proof (induction arbitrary: j J ph rule: gruns.induct)
  case (rest x)
  then show ?case by auto
next
  case (go w v i w1 out n outs y)
  have s: "fstep c0 (ph, w, J) {} (Some j) (set out) (phase_next g n ph, ended g n w1, J(g := job_next n))"
    using fstep.run [of w J g j v w1 out n c0 ph] go.hyps(1-3) go.prems by simp
  show ?case
  proof (cases n)
    case (Goto i')
    let ?K = "J(g \<mapsto> i')"
    have a: "fruns c0 P (ph, fst (w1, n), ?K) outs (phase_next g n' ph, ended g n' w', ?K(g := None))"
      by (rule go.IH [of i' ?K ph, OF go.prems(1-3)]) (simp_all add: Goto)
    have "fstep c0 (ph, w, J) {} (Some j) (set out) (ph, w1, ?K)" using s Goto by simp
    from fruns.go [OF this empty_subsetI a [unfolded fun_upd_upd fst_conv]] show ?thesis unfolding fst_conv .
  next
    case Exit
    then show ?thesis using go.hyps(3) by simp
  next
    case Idle
    have o: "outs = {}" "y = (w1, Idle)" using go.hyps(4) Idle by (auto elim: gruns.cases)
    have "fstep c0 (ph, w, J) {} (Some j) (set out) (phase_next g Idle ph, ended g Idle w1, J(g := None))"
      using s Idle by (simp only: job_next_def continuation.case)
    from fruns.go [OF this empty_subsetI fruns.rest] show ?thesis
      using go.prems(1,2) unfolding o by (simp only: fst_conv snd_conv)
  next
    case Stop
    have o: "outs = {}" "y = (w1, Stop)" using go.hyps(4) Stop by (auto elim: gruns.cases)
    have "fstep c0 (ph, w, J) {} (Some j) (set out) (phase_next g Stop ph, ended g Stop w1, J(g := None))"
      using s Stop by (simp only: job_next_def continuation.case)
    from fruns.go [OF this empty_subsetI fruns.rest] show ?thesis
      using go.prems(1,2) unfolding o by (simp only: fst_conv snd_conv)
  qed
qed

text \<open>A goroutine of an idle process gets its job and works it off.\<close>

lemma job_done:
  assumes "fstep c0 (ph, w, no_jobs) ins None {} (ph, w, no_jobs(g \<mapsto> j))" and "ins \<subseteq> P"
    and "gruns g (w, Goto j) outs (w', n)" and "n = Idle \<or> n = Stop"
  shows "fruns c0 P (ph, w, no_jobs) outs (phase_next g n ph, ended g n w', no_jobs)"
proof -
  have "(no_jobs(g \<mapsto> j))(g := None) = no_jobs" by (simp add: no_jobs_def fun_eq_iff)
  then show ?thesis
    using fruns.go [OF assms(1,2)] gruns_fruns [OF assms(3) _ _ assms(4), where J = "no_jobs(g \<mapsto> j)"] by simp
qed

section \<open>Changes of the configuration\<close>

lemma pointer_panicked [simp]:
  "close_ping w = Some w' \<Longrightarrow> panicked w' = panicked w" "close_gossip w = Some w' \<Longrightarrow> panicked w' = panicked w"
  "panicked (create_loop c w) = panicked w" "panicked (reconfigurePing c w) = panicked w"
  "panicked (reconfigureGossip c w) = panicked w"
  by (auto simp: create_loop_def Let_def reconfigurePing_def reconfigureGossip_def dest: close_form split: option.split)

lemma or_panic_panicked: "(\<And>w'. x = Some w' \<Longrightarrow> panicked w' = panicked w) \<Longrightarrow> panicked w \<Longrightarrow> panicked (fst (or_panic w x y))"
  by (simp add: or_panic_def split: option.split)

lemma push_step_panicked: "panicked w \<Longrightarrow> panicked (fst (push_step prev n x w))"
  by (cases x) (auto intro!: or_panic_panicked split: if_splits)

lemma push_all_panicked: "panicked w \<Longrightarrow> panicked (push_all prev n x w)"
proof (induction prev n x w rule: push_all.induct)
  case (1 prev n x w)
  obtain w' y where p: "push_step prev n x w = (w', y)" by fastforce
  then have "panicked w'" using push_step_panicked [OF 1(2), of prev n x] by simp
  then show ?case
    using p 1(1) push_all_next [of prev n x w w'] push_all_last [of prev n x w w'] by (cases y) auto
qed

lemma push_runs:
  "\<not> panicked (push_all prev n x w) \<Longrightarrow> gruns g (w, Goto (Push x prev n k)) {} (push_all prev n x w, resume k)"
proof (induction prev n x w rule: push_all.induct)
  case (1 prev n x w)
  have w: "\<not> panicked w" using 1(2) push_all_panicked by blast
  obtain w' y where p: "push_step prev n x w = (w', y)" by fastforce
  show ?case
  proof (cases y)
    case None
    have "\<not> panicked w'" using 1(2) p None push_all_last by auto
    then have "recovered g w' = w'" by (simp add: recovered_def split: goroutine.split)
    then have "micro g v (Push x prev n k) w = (w', [], resume k)" for v using p None by (simp add: micro_def)
    then show ?thesis using w p None push_all_last gruns_one_quiet by (auto simp: resume_def split: option.splits)
  next
    case (Some z)
    have m: "micro g v (Push x prev n k) w = (w', [], Goto (Push z prev n k))" for v
      using p Some by (simp add: micro_def)
    have a: "push_all prev n x w = push_all prev n z w'" using p Some push_all_next by simp
    have "gruns g (w', Goto (Push z prev n k)) {} (push_all prev n z w', resume k)"
      using 1 p Some a by simp
    then show ?thesis using gruns.go [OF w m] a by simp
  qed
qed

text \<open>A committed change, pushed.\<close>

lemma commit_runs:
  assumes "micro g v j w = commit_then k w wr" and "daemon_inv w" and "daemon_inv (fst wr)"
  shows "gruns g (w, Goto j) {} (if snd wr = Inr True then applyRuntime (cfg w) (cfg (fst wr)) (fst wr) else fst wr, resume k)"
proof -
  have w: "\<not> panicked w" using assms(2) by (simp add: daemon_inv_def heap_inv_def)
  show ?thesis
  proof (cases "snd wr = Inr True")
    case True
    then have "micro g v j w = (fst wr, [], Goto (Push Choose (cfg w) (cfg (fst wr)) k))"
      using assms(1) by (simp add: commit_then_def)
    then have "gruns g (w, Goto j) {} (fst wr, Goto (Push Choose (cfg w) (cfg (fst wr)) k))"
      using w by (rule gruns_one_quiet) simp
    moreover have "gruns g (fst wr, Goto (Push Choose (cfg w) (cfg (fst wr)) k)) {}
        (applyRuntime (cfg w) (cfg (fst wr)) (fst wr), resume k)"
      using push_runs [OF conjunct2 [OF push_undisturbed [OF assms(3), of "cfg w" "cfg (fst wr)"]], of g k]
      unfolding conjunct1 [OF push_undisturbed [OF assms(3)]] .
    ultimately show ?thesis using True gruns_quiet by auto
  next
    case False
    then have "micro g v j w = (fst wr, [], resume k)" using assms(1) by (simp add: commit_then_def)
    then show ?thesis using False w gruns_one_quiet by (auto simp: resume_def split: option.splits)
  qed
qed

lemma committed_inv:
  "daemon_inv w \<Longrightarrow> daemon_inv (fst (commit_remote d w))" "daemon_inv w \<Longrightarrow> daemon_inv (fst (commit_local d w))"
  using committed_ok(1) [of w "commit_remote d" d] committed_ok(1) [of w "commit_local d" d] by (auto simp: world_ok_def)

section \<open>One datagram\<close>

definition at_time :: "gotime \<Rightarrow> string list \<Rightarrow> (nat \<Rightarrow> gotime) \<Rightarrow> runtime" where
  "at_time t ord clk = \<lparr>v_time = t, v_ord = ord, v_merge = clk, v_perm = [], v_nonce = 0, v_resolves = (\<lambda>_. False), v_expired = []\<rparr>"

lemma at_time_simps [simp]:
  "v_time (at_time t ord clk) = t" "v_ord (at_time t ord clk) = ord" "v_merge (at_time t ord clk) = clk"
  "v_expired (at_time t ord clk) = []"
  by (simp_all add: at_time_def)

definition configured :: "Message \<Rightarrow> World \<Rightarrow> World" where
  "configured m w = (case MCfg m of None \<Rightarrow> w | Some d \<Rightarrow> onConfigFromWire d w)"

lemma configured_at [simp]:
  "apply_config (world_ops.truncate (ping_at r)) m w = configured m w"
  "apply_config (world_ops.truncate (gossip_at r)) m w = configured m w"
  by (simp_all add: apply_config_def configured_def split: option.split)

lemma snapshot_at [simp]:
  "take_snapshot (world_ops.truncate (ping_at r)) t ord w = (let (list, self, s) = Snapshot t ord (st w) in (list, self, w\<lparr>st := s\<rparr>))"
  "take_snapshot (world_ops.truncate (gossip_at r)) t ord w = (let (list, self, s) = Snapshot t ord (st w) in (list, self, w\<lparr>st := s\<rparr>))"
  by (simp_all add: take_snapshot_def)

lemma merge_at [simp]:
  "merge_list (world_ops.truncate (ping_at r)) clk es w = w\<lparr>st := MergeFullList clk (st w) es\<rparr>"
  "merge_list (world_ops.truncate (gossip_at r)) clk es w = w\<lparr>st := MergeFullList clk (st w) es\<rparr>"
  by (simp_all add: merge_list_def)

lemma configured_inv: "daemon_inv w \<Longrightarrow> daemon_inv (configured m w)"
  by (auto simp: configured_def daemon_onConfig split: option.split)

lemma not_panicked: "daemon_inv w \<Longrightarrow> \<not> panicked w"
  by (simp add: daemon_inv_def heap_inv_def)

lemma rx_config_runs:
  assumes "daemon_inv w" and "g = PingRx r \<or> g = GossipRx r"
  shows "gruns g (w, Goto (RxConfig m)) {} (configured m w, Goto (RxLook m))"
proof (cases "MCfg m")
  case None
  have "micro g v (RxConfig m) w = (w, [], Goto (RxLook m))" for v
    using assms(2) None by (auto simp: micro_def rx_config_def)
  then show ?thesis using None not_panicked [OF assms(1)] gruns_one_quiet by (simp add: configured_def)
next
  case (Some d)
  have m: "micro g v (RxConfig m) w = commit_then (Some (RxLook m)) w (commit_remote d w)" for v
    using assms(2) Some by (auto simp: micro_def rx_config_def)
  have "configured m w = (if snd (commit_remote d w) = Inr True
      then applyRuntime (cfg w) (cfg (fst (commit_remote d w))) (fst (commit_remote d w)) else fst (commit_remote d w))"
    using Some by (simp add: configured_def onConfigFromWire_def Let_def split_beta)
  then show ?thesis
    using commit_runs [OF m assms(1) committed_inv(1) [OF assms(1)]] by (simp add: resume_def)
qed

lemma gruns_snapshot:
  assumes "micro g v j w = (w\<lparr>st := s\<rparr>, [], n)" and "\<not> panicked w" and "n \<noteq> Exit"
  shows "gruns g (w, Goto j) {} (w\<lparr>st := s\<rparr>, n)"
  using gruns_one_quiet [OF assms] .

lemma net_open_stop [simp]:
  "net_open (stopPingAck w) = net_open w" "net_open (stopGossip w) = net_open w" "net_open (startProtocol c w) = net_open w"
  "net_open (reconfigurePing c w) = net_open w" "net_open (reconfigureGossip c w) = net_open w"
  "net_open (reconfigureManager c w) = net_open w" "net_open (refreshDTO d w) = net_open w"
proof -
  show s: "net_open (stopPingAck w) = net_open w" "net_open (stopGossip w) = net_open w" for w
    by (simp_all add: stopPingAck_def stopGossip_def split: option.split)
  show "net_open (startProtocol c w) = net_open w" by (simp add: startProtocol_def Let_def s)
qed (simp_all add: reconfigurePing_def reconfigureGossip_def reconfigureManager_def refreshDTO_def Let_def split: option.split)

lemma net_open_config [simp]: "net_open (configured m w) = net_open w"
proof -
  have "net_open (applyRuntime prev n w) = net_open w" for prev n w by (simp add: applyRuntime_def Let_def)
  moreover have "net_open (fst (commit_remote d w)) = net_open w" for d by (simp add: commit_remote_def split_beta)
  ultimately show ?thesis
    by (simp add: configured_def onConfigFromWire_def Let_def split_beta split: option.split)
qed

lemma ping_head_runs:
  "\<not> panicked w \<Longrightarrow> gruns (PingRx r) (w, Goto RxHead) {} (w, if ping_enter (get_ping (ping_at r) w) then Idle else Stop)"
  by (rule gruns_one_quiet) (auto simp: micro_def)

lemma gossip_head_runs:
  "\<not> panicked w \<Longrightarrow> gruns (GossipRx r) (w, Goto RxHead) {} (w, if gossip_enter (get_gossip (gossip_at r) w) then Idle else Stop)"
  by (rule gruns_one_quiet) (auto simp: micro_def)

lemma rx_look_runs:
  assumes "\<not> panicked w" and "g = PingRx r \<or> g = GossipRx r" and "Snapshot t ord (st w) = (list, self, s)"
  shows "gruns g (w, Goto (RxLook m)) {} (w\<lparr>st := s\<rparr>, if lists_self_left list self then Stop else Goto (RxSwitch m))"
proof (rule gruns_one_quiet)
  show "micro g (at_time t ord undefined) (RxLook m) w =
      (w\<lparr>st := s\<rparr>, [], if lists_self_left list self then Stop else Goto (RxSwitch m))"
    using assms(2,3) by (auto simp: micro_def rx_look_def)
qed (use assms(1) in auto)

text \<open>What the ping loop does with a message, by its type.\<close>

lemma ping_answer_runs:
  fixes src
  assumes "MType m = MsgPing" and "\<not> panicked w" and "net_open w"
    and "Snapshot t ord (MergeFullList clk (st w) (MList m)) = (list, self, s)" and "w' = w\<lparr>st := s\<rparr>"
    and "reply = \<lparr>MType = MsgAck, MNonce = MNonce m, MList = list, MCfg = Some (PcfgDTO (get_ping (ping_at r) w'))\<rparr>"
  shows "gruns (PingRx r) (w, Goto (RxSwitch m)) (replies (Continue (case EncodeMessage reply of None \<Rightarrow> [] | Some j \<Rightarrow> [(j, src)])))
     (w', if ping_enter (get_ping (ping_at r) w') then Idle else Stop)"
proof -
  let ?g = "PingRx r" and ?v = "at_time t ord clk" and ?w1 = "w\<lparr>st := MergeFullList clk (st w) (MList m)\<rparr>"
  let ?outs = "replies (Continue (case EncodeMessage reply of None \<Rightarrow> [] | Some j \<Rightarrow> [(j, src)]))"
  have 1: "gruns ?g (w, Goto (RxSwitch m)) {} (?w1, Goto (RxAnswer (MNonce m)))"
    using assms(1,2) by (intro gruns_one_quiet [where v = ?v]) (simp_all add: micro_def rx_merge_def)
  have 2: "gruns ?g (?w1, Goto (RxAnswer (MNonce m))) {} (w', Goto (RxReply (MNonce m) list))"
    using assms(2,4,5) by (intro gruns_one_quiet [where v = ?v]) (simp_all add: micro_def)
  have 3: "gruns ?g (w', Goto (RxReply (MNonce m) list)) ?outs (w', Goto RxHead)"
    using assms(2,3,5,6)
    by (cases "EncodeMessage reply")
      (auto simp: micro_def Let_def send_udp_def UDP_WriteTo_def replies_def intro!: gruns_one [where v = ?v])
  have 4: "gruns ?g (w', Goto RxHead) {} (w', if ping_enter (get_ping (ping_at r) w') then Idle else Stop)"
    using assms(2,5) by (intro ping_head_runs) simp
  show ?thesis using gruns_quiet [OF 1 gruns_quiet [OF 2 gruns_then_quiet [OF 3 4]]] .
qed

lemma ping_ack_runs:
  assumes "MType m = MsgAck" and "\<not> panicked w" and "i = PInflight (get_ping (ping_at r) w)"
    and "w' = w\<lparr>tables := (tables w)(i := fst (Done (MNonce m) (tables w i))), st := MergeFullList clk (st w) (MList m)\<rparr>"
  shows "gruns (PingRx r) (w, Goto (RxSwitch m)) {} (w', if ping_enter (get_ping (ping_at r) w') then Idle else Stop)"
proof -
  let ?g = "PingRx r" and ?v = "at_time undefined [] clk" and ?w1 = "w\<lparr>tables := (tables w)(i := fst (Done (MNonce m) (tables w i)))\<rparr>"
  have 1: "gruns ?g (w, Goto (RxSwitch m)) {} (?w1, Goto (RxMerge m))"
    using assms(1-3) by (intro gruns_one_quiet [where v = ?v]) (simp_all add: micro_def Let_def)
  have 2: "gruns ?g (?w1, Goto (RxMerge m)) {} (w', Goto RxHead)"
    using assms(2,4) by (intro gruns_one_quiet [where v = ?v]) (simp_all add: micro_def rx_merge_def)
  have "\<not> panicked w'" using assms(2,4) by simp
  from gruns_quiet [OF 1 gruns_quiet [OF 2 ping_head_runs [OF this]]] show ?thesis .
qed

lemma ping_other_runs:
  assumes "MType m \<noteq> MsgPing" and "MType m \<noteq> MsgAck" and "\<not> panicked w"
    and "w' = (if MType m = MsgGossip then w\<lparr>st := MergeFullList clk (st w) (MList m)\<rparr> else w)"
  shows "gruns (PingRx r) (w, Goto (RxSwitch m)) {} (w', if ping_enter (get_ping (ping_at r) w') then Idle else Stop)"
proof -
  have 1: "gruns (PingRx r) (w, Goto (RxSwitch m)) {} (w', Goto RxHead)"
    using assms by (intro gruns_one_quiet [where v = "at_time undefined [] clk"]) (simp_all add: micro_def rx_merge_def)
  have "\<not> panicked w'" using assms(3,4) by simp
  from gruns_quiet [OF 1 ping_head_runs [OF this]] show ?thesis .
qed

lemma ping_recv_runs:
  fixes b src
  assumes "daemon_inv w" and "decode_datagram b = Some m" and "\<not> drops (PDropRateRecv (get_ping (ping_at r) w)) (r_coin rv)"
    and "net_open w" and "ping_recv (ping_at r) rv (Datagram b src) w = (w', res)"
  shows "gruns (PingRx r) (w, Goto (RxConfig m)) (replies res)
     (w', if res = Stopped \<or> \<not> ping_enter (get_ping (ping_at r) w') then Stop else Idle)"
proof -
  let ?w1 = "configured m w" and ?g = "PingRx r"
  obtain list self s where s: "Snapshot (r_snap rv) (r_ord rv) (st ?w1) = (list, self, s)" by (metis prod.exhaust)
  let ?w2 = "?w1\<lparr>st := s\<rparr>"
  have p: "\<not> panicked ?w1" using not_panicked configured_inv assms(1) by blast
  have c: "gruns ?g (w, Goto (RxConfig m)) {} (?w1, Goto (RxLook m))" by (rule rx_config_runs [OF assms(1)]) simp
  have l: "gruns ?g (?w1, Goto (RxLook m)) {} (?w2, if lists_self_left list self then Stop else Goto (RxSwitch m))"
    by (rule rx_look_runs [OF p _ s]) simp
  note cl = gruns_quiet [OF c l]
  note res = assms(5) [unfolded ping_recv_def read.case if_not_P [OF assms(3)] assms(2) option.case Let_def configured_at
      snapshot_at s prod.case merge_at]
  show ?thesis
  proof (cases "lists_self_left list self")
    case True
    then show ?thesis using cl res by (auto simp: replies_def)
  next
    case False
    note cl = cl [unfolded if_not_P [OF False]] and res = res [unfolded if_not_P [OF False]]
    have p2: "\<not> panicked ?w2" "net_open ?w2" using p assms(4) by simp_all
    have fin: ?thesis if "gruns ?g (?w2, Goto (RxSwitch m)) (replies res)
        (w', if ping_enter (get_ping (ping_at r) w') then Idle else Stop)" "res = Continue out" for out
      using gruns_quiet [OF cl that(1)] that(2) by (simp split: if_splits)
    consider "MType m = MsgPing" | "MType m = MsgAck" "MType m \<noteq> MsgPing" | "MType m \<noteq> MsgPing" "MType m \<noteq> MsgAck" by blast
    then show ?thesis
    proof cases
      case 1
      let ?s3 = "MergeFullList (r_clk rv) (st ?w2) (MList m)"
      obtain list2 self2 s2 where s2: "Snapshot (r_snap2 rv) (r_ord2 rv) ?s3 = (list2, self2, s2)" by (metis prod.exhaust)
      have "w' = ?w2\<lparr>st := s2\<rparr>" using res 1 s2 by simp
      moreover have r: "res = Continue (case EncodeMessage \<lparr>MType = MsgAck, MNonce = MNonce m, MList = list2,
          MCfg = Some (PcfgDTO (get_ping (ping_at r) w'))\<rparr> of None \<Rightarrow> [] | Some j \<Rightarrow> [(j, src)])"
        using res 1 s2 by auto
      ultimately show ?thesis by (intro fin [OF _ r]) (simp only: r ping_answer_runs [OF 1 p2 s2 _ refl])
    next
      case 2
      have "w' = ?w2\<lparr>tables := (tables ?w2)(PInflight (get_ping (ping_at r) ?w2) :=
          fst (Done (MNonce m) (tables ?w2 (PInflight (get_ping (ping_at r) ?w2))))), st := MergeFullList (r_clk rv) (st ?w2) (MList m)\<rparr>"
        and r: "res = Continue []" using res 2 by (simp_all add: ping_at_def)
      from ping_ack_runs [OF 2(1) p2(1) refl this(1)] show ?thesis by (intro fin [OF _ r]) (simp add: r replies_def)
    next
      case 3
      have "w' = (if MType m = MsgGossip then ?w2\<lparr>st := MergeFullList (r_clk rv) (st ?w2) (MList m)\<rparr> else ?w2)"
        and r: "res = Continue []" using res 3 by (auto split: if_splits)
      from ping_other_runs [OF 3 p2(1) this(1)] show ?thesis by (intro fin [OF _ r]) (simp add: r replies_def)
    qed
  qed
qed

lemma gossip_recv_runs:
  fixes b src
  assumes "daemon_inv w" and "decode_datagram b = Some m" and "\<not> drops (GDropRateRecv (get_gossip (gossip_at r) w)) (r_coin rv)"
    and "gossip_recv (gossip_at r) rv (Datagram b src) w = (w', res)"
  shows "gruns (GossipRx r) (w, Goto (RxConfig m)) (replies res)
     (w', if res = Stopped \<or> \<not> gossip_enter (get_gossip (gossip_at r) w') then Stop else Idle)"
proof -
  let ?w1 = "configured m w" and ?g = "GossipRx r"
  obtain list self s where s: "Snapshot (r_snap rv) (r_ord rv) (st ?w1) = (list, self, s)" by (metis prod.exhaust)
  let ?w2 = "?w1\<lparr>st := s\<rparr>"
  have p: "\<not> panicked ?w1" using not_panicked configured_inv assms(1) by blast
  have c: "gruns ?g (w, Goto (RxConfig m)) {} (?w1, Goto (RxLook m))" by (rule rx_config_runs [OF assms(1)]) simp
  have l: "gruns ?g (?w1, Goto (RxLook m)) {} (?w2, if lists_self_left list self then Stop else Goto (RxSwitch m))"
    by (rule rx_look_runs [OF p _ s]) simp
  note cl = gruns_quiet [OF c l]
  note res = assms(4) [unfolded gossip_recv_def read.case if_not_P [OF assms(3)] assms(2) option.case Let_def configured_at
      snapshot_at s prod.case merge_at]
  let ?v = "at_time undefined undefined (r_clk rv)"
  show ?thesis
  proof (cases "lists_self_left list self")
    case True
    then show ?thesis using cl res by (auto simp: replies_def)
  next
    case False
    note cl = cl [unfolded if_not_P [OF False]] and res = res [unfolded if_not_P [OF False]]
    define w3 where "w3 = fst (gossip_rx r ?v (RxSwitch m) ?w2)"
    have 1: "gruns ?g (?w2, Goto (RxSwitch m)) {} (w3, Goto RxHead)"
      using p by (intro gruns_one_quiet [where v = ?v]) (simp_all add: micro_def w3_def)
    have w3: "w' = w3" "res = Continue []" "\<not> panicked w3"
      using res p by (auto simp: w3_def rx_merge_def split: if_splits)
    then show ?thesis
      using gruns_quiet [OF cl gruns_quiet [OF 1 gossip_head_runs [OF w3(3)]]]
      by (simp add: replies_def split: if_splits)
  qed
qed

lemma UDP_Read_open: "UDP_Read is_open inp = Datagram b src \<Longrightarrow> is_open"
  by (cases is_open) simp_all

lemma after_ended:
  "after_ping r (w, res) = ended (PingRx r) (if res = Stopped \<or> \<not> ping_enter (get_ping (ping_at r) w) then Stop else Idle) w"
  "after_gossip r (w, res) = ended (GossipRx r) (if res = Stopped \<or> \<not> gossip_enter (get_gossip (gossip_at r) w) then Stop else Idle) w"
  by (simp_all add: after_ping_def after_gossip_def ended_def)

lemma ping_receive_fruns:
  assumes "daemon_inv w" and "r \<in> ping_threads w" and "UDP_Read (net_open w) (inp :: string read) = input"
    and "ping_recv (ping_at r) rv input w = (w', res)"
  shows "fruns c0 (taken Udp DecodeMessage (datagram input)) (ph, w, no_jobs) (replies res) (ph, after_ping r (w', res), no_jobs)"
proof -
  let ?n = "arrival (PDropRateRecv (get_ping (ping_at r) w)) (r_coin rv) input" and ?g = "PingRx r"
  note p = not_panicked [OF assms(1)]
  have s: "fstep c0 (ph, w, no_jobs) (taken Udp DecodeMessage (datagram input)) None {} (ph, ended ?g ?n w, no_jobs(?g := job_next ?n))"
    by (rule fstep.ping_arrive [OF p _ assms(2,3) refl]) (simp add: no_jobs_def)
  have job: ?thesis if "?n = Goto j" "gruns ?g (w, Goto j) (replies res)
      (w', if res = Stopped \<or> \<not> ping_enter (get_ping (ping_at r) w') then Stop else Idle)" for j
    using job_done [of c0 ph w "taken Udp DecodeMessage (datagram input)" ?g j, OF _ subset_refl that(2)] s that(1)
    by (simp add: after_ended phase_next_def)
  show ?thesis
  proof (cases input)
    case ReadError
    then have "?n = Stop" "w' = w" "res = Stopped" using assms(4) by (simp_all add: arrival_def ping_recv_def)
    moreover have "no_jobs(?g := None) = no_jobs" by (simp add: no_jobs_def fun_eq_iff)
    ultimately show ?thesis
      using fruns.go [OF s subset_refl fruns.rest] by (simp add: after_ended replies_def job_next_def)
  next
    case (Datagram b src)
    have o: "net_open w" using assms(3) Datagram UDP_Read_open [of "net_open w" inp b src] by simp
    show ?thesis
    proof (cases "drops (PDropRateRecv (get_ping (ping_at r) w)) (r_coin rv) \<or> decode_datagram b = None")
      case True
      have n: "?n = Goto RxHead" using True Datagram by (auto simp: arrival_def)
      have "ping_recv (ping_at r) rv input w = (w, Continue [])" using True Datagram by (auto simp: ping_recv_def)
      with n have "?n = Goto RxHead" "w' = w" "res = Continue []" using assms(4) by simp_all
      then show ?thesis using job ping_head_runs [OF p, of r] by (simp add: replies_def split: if_splits)
    next
      case False
      then obtain m where m: "decode_datagram b = Some m" "\<not> drops (PDropRateRecv (get_ping (ping_at r) w)) (r_coin rv)" by auto
      then have n: "?n = Goto (RxConfig m)" using Datagram by (simp add: arrival_def)
      have "ping_recv (ping_at r) rv (Datagram b src) w = (w', res)" using assms(4) Datagram by simp
      from job [OF n ping_recv_runs [OF assms(1) m o this]] show ?thesis .
    qed
  qed
qed

lemma gossip_receive_fruns:
  assumes "daemon_inv w" and "r \<in> gossip_threads w" and "UDP_Read (net_open w) (inp :: string read) = input"
    and "gossip_recv (gossip_at r) rv input w = (w', res)"
  shows "fruns c0 (taken Udp DecodeMessage (datagram input)) (ph, w, no_jobs) (replies res) (ph, after_gossip r (w', res), no_jobs)"
proof -
  let ?n = "arrival (GDropRateRecv (get_gossip (gossip_at r) w)) (r_coin rv) input" and ?g = "GossipRx r"
  note p = not_panicked [OF assms(1)]
  have s: "fstep c0 (ph, w, no_jobs) (taken Udp DecodeMessage (datagram input)) None {} (ph, ended ?g ?n w, no_jobs(?g := job_next ?n))"
    by (rule fstep.gossip_arrive [OF p _ assms(2,3) refl]) (simp add: no_jobs_def)
  have job: ?thesis if "?n = Goto j" "gruns ?g (w, Goto j) (replies res)
      (w', if res = Stopped \<or> \<not> gossip_enter (get_gossip (gossip_at r) w') then Stop else Idle)" for j
    using job_done [of c0 ph w "taken Udp DecodeMessage (datagram input)" ?g j, OF _ subset_refl that(2)] s that(1)
    by (simp add: after_ended phase_next_def)
  show ?thesis
  proof (cases input)
    case ReadError
    then have "?n = Stop" "w' = w" "res = Stopped" using assms(4) by (simp_all add: arrival_def gossip_recv_def)
    moreover have "no_jobs(?g := None) = no_jobs" by (simp add: no_jobs_def fun_eq_iff)
    ultimately show ?thesis
      using fruns.go [OF s subset_refl fruns.rest] by (simp add: after_ended replies_def job_next_def)
  next
    case (Datagram b src)
    show ?thesis
    proof (cases "drops (GDropRateRecv (get_gossip (gossip_at r) w)) (r_coin rv) \<or> decode_datagram b = None")
      case True
      have n: "?n = Goto RxHead" using True Datagram by (auto simp: arrival_def)
      have "gossip_recv (gossip_at r) rv input w = (w, Continue [])" using True Datagram by (auto simp: gossip_recv_def)
      with n have "?n = Goto RxHead" "w' = w" "res = Continue []" using assms(4) by simp_all
      then show ?thesis using job gossip_head_runs [OF p, of r] by (simp add: replies_def split: if_splits)
    next
      case False
      then obtain m where m: "decode_datagram b = Some m" "\<not> drops (GDropRateRecv (get_gossip (gossip_at r) w)) (r_coin rv)" by auto
      then have n: "?n = Goto (RxConfig m)" using Datagram by (simp add: arrival_def)
      have "gossip_recv (gossip_at r) rv (Datagram b src) w = (w', res)" using assms(4) Datagram by simp
      from job [OF n gossip_recv_runs [OF assms(1) m this]] show ?thesis .
    qed
  qed
qed

section \<open>One tick\<close>

lemma written_Cons: "written is_open ((b, a) # out) = (if is_open then {Udp b} else {}) \<union> written is_open out"
  by (simp add: written_def UDP_WriteTo_def)

lemma send_udp_set: "set (send_udp w b) = (if net_open w then {Udp b} else {})"
  by (simp add: send_udp_def UDP_WriteTo_def)

definition tick_time :: "gotime \<Rightarrow> string list \<Rightarrow> send_env \<Rightarrow> nat \<Rightarrow> runtime" where
  "tick_time t ord v i = \<lparr>v_time = t, v_ord = ord, v_merge = undefined, v_perm = s_perm v, v_nonce = s_nonces v i,
     v_resolves = s_resolves v, v_expired = []\<rparr>"

lemma tick_time_simps [simp]:
  "v_time (tick_time t ord v i) = t" "v_ord (tick_time t ord v i) = ord" "v_perm (tick_time t ord v i) = s_perm v"
  "v_nonce (tick_time t ord v i) = s_nonces v i" "v_resolves (tick_time t ord v i) = s_resolves v"
  by (simp_all add: tick_time_def)

lemma pings_run:
  assumes "foldl (send_ping (ping_at r) v tS list) (w, out0) (enumerate i targets) = (w', out')" and "\<not> panicked w"
  shows "\<exists>out. out' = out0 @ out \<and>
    gruns (PingTx r) (w, Goto (TxPing period tS list targets)) (written (net_open w) out) (w', Goto (TxEnd period)) \<and> \<not> panicked w'"
  using assms
proof (induction targets arbitrary: w out0 i)
  case Nil
  have "gruns (PingTx r) (w, Goto (TxPing period tS list [])) {} (w, Goto (TxEnd period))"
    using Nil by (intro gruns_one_quiet) (auto simp: micro_def)
  then show ?case using Nil by (simp add: written_def)
next
  case (Cons a targets)
  let ?g = "PingTx r" and ?m = "\<lparr>MType = MsgPing, MNonce = s_nonces v i, MList = list, MCfg = Some (PcfgDTO (get_ping (ping_at r) w))\<rparr>"
  let ?v = "tick_time (s_clk v i) undefined v i"
  let ?w = "w\<lparr>tables := (tables w)(PInflight (get_ping (ping_at r) w) := Add (s_clk v i) (s_nonces v i) tS a
      (tables w (PInflight (get_ping (ping_at r) w))))\<rparr>"
  note f = Cons.prems(1) [unfolded enumerate_simps foldl.simps]
  have skip: ?case if "send_ping (ping_at r) v tS list (w, out0) (i, a) = (w, out0)"
    "ping_tx r ?v (TxPing period tS list (a # targets)) w = (w, [], Goto (TxPing period tS list targets))"
  proof -
    have "gruns ?g (w, Goto (TxPing period tS list (a # targets))) {} (w, Goto (TxPing period tS list targets))"
      using that(2) Cons.prems(2) by (intro gruns_one_quiet [where v = ?v]) (auto simp: micro_def)
    then show ?thesis using Cons.IH [OF f [unfolded that(1)] Cons.prems(2)] gruns_quiet by blast
  qed
  show ?case
  proof (cases "EncodeMessage ?m")
    case None
    then show ?thesis by (intro skip) (simp_all add: send_ping_def Let_def)
  next
    case (Some b)
    show ?thesis
    proof (cases "s_resolves v a")
      case False
      then show ?thesis using Some by (intro skip) (simp_all add: send_ping_def Let_def)
    next
      case True
      have e: "send_ping (ping_at r) v tS list (w, out0) (i, a) = (?w, out0 @ [(b, a)])"
        using Some True by (simp add: send_ping_def Let_def ping_at_def)
      have 1: "gruns ?g (w, Goto (TxPing period tS list (a # targets))) (set (send_udp w b)) (w, Goto (TxAdd period tS list (s_nonces v i) a targets))"
        using Some True Cons.prems(2) by (intro gruns_one [where v = ?v]) (auto simp: micro_def Let_def)
      have 2: "gruns ?g (w, Goto (TxAdd period tS list (s_nonces v i) a targets)) {} (?w, Goto (TxPing period tS list targets))"
        using Cons.prems(2) by (intro gruns_one_quiet [where v = ?v]) (auto simp: micro_def Let_def)
      obtain out where out: "out' = (out0 @ [(b, a)]) @ out"
        "gruns ?g (?w, Goto (TxPing period tS list targets)) (written (net_open ?w) out) (w', Goto (TxEnd period))" "\<not> panicked w'"
        using Cons.IH [OF f [unfolded e]] Cons.prems(2) by auto
      have "gruns ?g (w, Goto (TxPing period tS list (a # targets))) (written (net_open w) ((b, a) # out)) (w', Goto (TxEnd period))"
        using gruns_trans [OF gruns_then_quiet [OF 1 2] out(2)] by (simp add: written_Cons send_udp_set)
      then show ?thesis using out(1,3) by (intro exI [of _ "(b, a) # out"]) simp
    qed
  qed
qed

lemma ping_tick_fruns:
  assumes "daemon_inv w" and "pings w r \<noteq> None" and "ping_senders w r = Ticking ticker prev"
    and "ping_tick (ping_at r) sv prev w = (w', out, period)"
  shows "fruns c0 {} (ph, w, no_jobs) (written (net_open w) out) (ph, with_ping_sender r (sender_ticked period) w', no_jobs)"
proof -
  let ?g = "PingTx r" and ?v = "tick_time (s_snap sv) (s_ord sv) sv 0"
  note p = not_panicked [OF assms(1)]
  obtain l where l: "pings w r = Some l" using assms(2) by blast
  then have g: "get_ping (ping_at r) w = l" by (simp add: ping_at_def)
  obtain list self s where s: "Snapshot (s_snap sv) (s_ord sv) (st w) = (list, self, s)" by (metis prod.exhaust)
  let ?w1 = "w\<lparr>st := s\<rparr>" and ?t = "targets_of ?v (PingFanout l) list self"
  have t: "?t = (let peers = ResolvePeersFromMemberList list self
      in if peers = [] then [] else chosen_peers (PingFanout l) (s_perm sv) peers)"
    by (simp add: targets_of_def Let_def)
  have f: "foldl (send_ping (ping_at r) sv (PTSuspect l) list) (?w1, []) (enumerate 0 ?t) = (w', out)" and per: "period = PingEvery l"
    using assms(4) s g by (auto simp: ping_tick_def Let_def t split: prod.splits)
  have 1: "gruns ?g (w, Goto (TxSnap (PingEvery l) (PingFanout l) (PTSuspect l))) {} (?w1, Goto (TxPing (PingEvery l) (PTSuspect l) list ?t))"
    using s p by (intro gruns_one_quiet [where v = ?v]) (auto simp: micro_def)
  obtain out2 where 2: "out = [] @ out2" "gruns ?g (?w1, Goto (TxPing (PingEvery l) (PTSuspect l) list ?t))
      (written (net_open ?w1) out2) (w', Goto (TxEnd (PingEvery l)))" "\<not> panicked w'"
    using pings_run [OF f, of "PingEvery l"] p by auto
  have 3: "gruns ?g (w', Goto (TxEnd (PingEvery l))) {} (with_ping_sender r (sender_ticked period) w', Idle)"
    using 2(3) per by (intro gruns_one_quiet) (auto simp: micro_def)
  have s: "fstep c0 (ph, w, no_jobs) {} None {} (ph, w, no_jobs(?g \<mapsto> TxSnap (PingEvery l) (PingFanout l) (PTSuspect l)))"
    by (rule fstep.ping_fires [OF p _ l assms(3)]) (simp add: no_jobs_def)
  show ?thesis
    using job_done [OF s empty_subsetI gruns_quiet [OF 1 gruns_then_quiet [OF 2(2) 3]]] 2(1) by (simp add: phase_next_def ended_def)
qed

lemma gossip_tick_fruns:
  assumes "daemon_inv w" and "gossips w r \<noteq> None" and "gossip_senders w r = Ticking ticker prev"
    and "gossip_tick (gossip_at r) sv prev w = (w', out, period)"
  shows "fruns c0 {} (ph, w, no_jobs) (written (net_open w) out) (ph, with_gossip_sender r (sender_ticked period) w', no_jobs)"
proof -
  let ?g = "GossipTx r" and ?v = "tick_time (s_snap sv) (s_ord sv) sv 0"
  note p = not_panicked [OF assms(1)]
  obtain l where l: "gossips w r = Some l" using assms(2) by blast
  then have g: "get_gossip (gossip_at r) w = l" by (simp add: gossip_at_def)
  obtain list self s where s: "Snapshot (s_snap sv) (s_ord sv) (st w) = (list, self, s)" by (metis prod.exhaust)
  let ?w1 = "w\<lparr>st := s\<rparr>" and ?t = "targets_of ?v (GossipFanout l) list self"
  let ?m = "\<lparr>MType = MsgGossip, MNonce = 0, MList = list, MCfg = Some (GcfgDTO l)\<rparr>"
  have g1: "get_gossip (gossip_at r) ?w1 = l" using g by (simp add: gossip_at_def)
  have w': "w' = ?w1" "period = GossipPeriod l"
    using assms(4) s g by (auto simp: gossip_tick_def Let_def)
  have out: "out = (if ?t = [] then [] else case EncodeMessage ?m of None \<Rightarrow> []
      | Some b \<Rightarrow> map (\<lambda>a. (b, a)) (filter (s_resolves sv) ?t))"
    using assms(4) s g g1 by (auto simp: gossip_tick_def Let_def targets_of_def split: option.split)
  have 1: "gruns ?g (w, Goto (TxSnap (GossipPeriod l) (GossipFanout l) 0)) {} (?w1, Goto (TxGossip (GossipPeriod l) list ?t))"
    using s p by (intro gruns_one_quiet [where v = ?v]) (auto simp: micro_def)
  have 2: "gruns ?g (?w1, Goto (TxGossip (GossipPeriod l) list ?t)) (written (net_open w) out) (?w1, Goto (TxEnd (GossipPeriod l)))"
  proof (rule gruns_one [where v = ?v])
    show "written (net_open w) out = set (if ?t = [] then [] else case EncodeMessage ?m of None \<Rightarrow> []
        | Some b \<Rightarrow> concat (map (\<lambda>a. send_udp ?w1 b) (filter (s_resolves sv) ?t)))"
      unfolding out by (cases "EncodeMessage ?m") (auto simp: written_def send_udp_def UDP_WriteTo_def image_image)
    show "micro ?g ?v (TxGossip (GossipPeriod l) list ?t) ?w1 = (?w1, if ?t = [] then [] else case EncodeMessage ?m of None \<Rightarrow> []
        | Some b \<Rightarrow> concat (map (\<lambda>a. send_udp ?w1 b) (filter (s_resolves sv) ?t)), Goto (TxEnd (GossipPeriod l)))"
      using l by (simp add: micro_def Let_def gossip_at_def split: option.split)
  qed (use p in simp_all)
  have 3: "gruns ?g (?w1, Goto (TxEnd (GossipPeriod l))) {} (with_gossip_sender r (sender_ticked period) w', Idle)"
    using p w' by (intro gruns_one_quiet) (auto simp: micro_def)
  have s: "fstep c0 (ph, w, no_jobs) {} None {} (ph, w, no_jobs(?g \<mapsto> TxSnap (GossipPeriod l) (GossipFanout l) 0))"
    by (rule fstep.gossip_fires [OF p _ l assms(3)]) (simp add: no_jobs_def)
  show ?thesis
    using job_done [OF s empty_subsetI gruns_quiet [OF 1 gruns_then_quiet [OF 2 3]]] by (simp add: phase_next_def ended_def)
qed

end
