(* ===== verification/FineRefine.thy ===== *)
theory FineRefine
  imports FineSim
begin

text \<open>
  The remaining operations, step by step: the scan, the handlers and the end of the join; and the theorem for
  the whole cluster.
\<close>

section \<open>The scan\<close>

definition scan_time :: "gotime \<Rightarrow> gotime \<Rightarrow> string list \<Rightarrow> runtime" where
  "scan_time clock t ord = \<lparr>v_time = t, v_ord = ord, v_merge = undefined, v_perm = [], v_nonce = 0, v_resolves = (\<lambda>_. False),
     v_expired = []\<rparr>"

lemma set_marks_simps [simp]:
  "st (set_marks sn w) = fst sn" "failMarks (sm (set_marks sn w)) = snd sn" "panicked (set_marks sn w) = panicked w"
  "set_marks sn (set_marks tn w) = set_marks sn w" "MInflight (sm (set_marks sn w)) = MInflight (sm w)"
  "tables (set_marks sn w) = tables w" "set_marks (st w, failMarks (sm w)) w = w"
  by (simp_all add: set_marks_def)

lemma entries_run:
  assumes "\<not> panicked w"
  shows "gruns Scanner (w, Goto (ScanList now tS tF tC u es)) {}
    (set_marks (foldl (scan_entry t now tS tF tC) (st w, failMarks (sm w)) es) w,
     after_scan now u (set_marks (foldl (scan_entry t now tS tF tC) (st w, failMarks (sm w)) es) w))"
  using assms
proof (induction es arbitrary: w)
  case Nil
  then show ?case by (intro gruns_one_quiet) (simp_all add: micro_def after_scan_def)
next
  case (Cons e es)
  let ?w = "set_marks (scan_entry t now tS tF tC (st w, failMarks (sm w)) e) w"
  have "gruns Scanner (w, Goto (ScanList now tS tF tC u (e # es))) {} (?w, Goto (ScanList now tS tF tC u es))"
    using Cons.prems by (intro gruns_one_quiet [where v = "at_time t [] undefined"]) (simp_all add: micro_def)
  from gruns_quiet [OF this Cons.IH] Cons.prems show ?case by simp
qed

lemma reap_runs:
  assumes "\<not> panicked w" and "\<And>i. MInflight (sm w) = Some i \<Longrightarrow> tables w i = NewInflight"
  shows "gruns Scanner (w, after_scan now u w) {} (w, Idle)"
proof (cases "u \<and> MInflight (sm w) \<noteq> None")
  case True
  then obtain i where i: "MInflight (sm w) = Some i" by blast
  have "(tables w)(i := NewInflight) = tables w" using assms(2) [OF i] by auto
  moreover have "Expired now [] NewInflight = (NewInflight, [])" by (simp add: Expired_def)
  ultimately have "micro Scanner (at_time now [] undefined) (ScanReap now) w = (w, [], Idle)"
    using i assms(2) [OF i] by (simp add: micro_def)
  then show ?thesis using True assms(1) gruns_one_quiet by (simp add: after_scan_def)
next
  case False
  then show ?thesis by (auto simp: after_scan_def gruns.rest)
qed

lemma scan_fruns:
  assumes "daemon_inv w" and "scan_world v w = Running w'" and "mgr_waits w"
  shows "fruns c0 {} (ph, w, no_jobs) {} (ph, w', no_jobs)"
proof -
  let ?now = "t_now v" and ?S = "TSuspect (sm w)" and ?F = "TFail (sm w)" and ?C = "TCleanup (sm w)" and ?u = "UsePingTimeout (sm w)"
  note p = not_panicked [OF assms(1)]
  have empty: "tables w i = NewInflight" if "MInflight (sm w) = Some i" for i using shared_table_empty [OF assms(1) that] .
  obtain list self s where s: "Snapshot (t_snap1 v) (t_ord1 v) (st w) = (list, self, s)" by (metis prod.exhaust)
  let ?w1 = "w\<lparr>st := s\<rparr>" and ?v = "at_time (t_snap1 v) (t_ord1 v) undefined"
  have "gruns Scanner (w, Goto (ScanSnap ?now ?S ?F ?C ?u)) {} (w', Idle)"
  proof (cases "find (\<lambda>e. ID e = self \<and> EState e = StateLeft) list")
    case None
    let ?m = "foldl (scan_entry (t_clock v) ?now ?S ?F ?C) (s, failMarks (sm w)) list"
    have "w' = set_marks ?m w"
      using assms(2) s None by (auto simp: scan_world_def manager_tick_scan [OF assms(1)] scanOnce_def set_marks_def split: prod.splits)
    then have w': "w' = set_marks ?m ?w1" by (simp add: set_marks_def)
    have 1: "gruns Scanner (w, Goto (ScanSnap ?now ?S ?F ?C ?u)) {} (?w1, Goto (ScanList ?now ?S ?F ?C ?u list))"
      using s p None by (intro gruns_one_quiet [where v = ?v]) (simp_all add: micro_def)
    have 2: "gruns Scanner (?w1, Goto (ScanList ?now ?S ?F ?C ?u list)) {} (w', after_scan ?now ?u w')"
      using entries_run [of ?w1 ?now ?S ?F ?C ?u list "t_clock v"] p unfolding w' by simp
    have 3: "gruns Scanner (w', after_scan ?now ?u w') {} (w', Idle)"
      using p empty by (intro reap_runs) (simp_all add: w')
    show ?thesis using gruns_quiet [OF 1 gruns_quiet [OF 2 3]] .
  next
    case (Some e)
    have w': "w' = ?w1" and t: "\<not> ?C \<le> time_Sub ?now (LastUpdate e)"
      using assms(2) s Some by (auto simp: scan_world_def manager_tick_scan [OF assms(1)] scanOnce_def split: if_splits)
    have 1: "gruns Scanner (w, Goto (ScanSnap ?now ?S ?F ?C ?u)) {} (w', after_scan ?now ?u w')"
      using s p t Some by (intro gruns_one_quiet [where v = ?v]) (simp_all add: micro_def w' after_scan_def)
    have 2: "gruns Scanner (w', after_scan ?now ?u w') {} (w', Idle)"
      using p empty by (intro reap_runs) (simp_all add: w')
    show ?thesis using gruns_quiet [OF 1 2] .
  qed
  moreover have "fstep c0 (ph, w, no_jobs) {} None {} (ph, w, no_jobs(Scanner \<mapsto> ScanSnap ?now ?S ?F ?C ?u))"
    by (rule fstep.scan_fires [OF p _ assms(3)]) (simp add: no_jobs_def)
  ultimately show ?thesis using job_done [OF _ subset_refl] by (fastforce simp: phase_next_def ended_def)
qed

section \<open>The handlers\<close>

lemma handler_done:
  assumes "fstep c0 (ph, w, no_jobs) ins None {} (ph, w, no_jobs(Handler h \<mapsto> j))"
    and "gruns (Handler h) (w, Goto j) outs (w', Idle)"
  shows "fruns c0 ins (ph, w, no_jobs) outs (ph, w', no_jobs)"
  using job_done [OF assms(1) subset_refl assms(2)] by (simp add: phase_next_def ended_def)

text \<open>The beginnings of the jobs of the handlers and of the join, in an idle process.\<close>

lemma handler_begins:
  assumes "\<not> panicked w"
  shows "loadConfig file = Some d \<Longrightarrow> fstep c0 (Serving, w, no_jobs) {} None {} (Serving, w, no_jobs(Handler 0 \<mapsto> LocalCommit d))"
    and "switch_dto req (cfg w) = Some d \<Longrightarrow>
      fstep c0 (Serving, w, no_jobs) {} None {} (Serving, w, no_jobs(Handler 0 \<mapsto> LocalCommit d))"
    and "fstep c0 (Serving, w, no_jobs) {} None {} (Serving, w, no_jobs(Handler 0 \<mapsto> LeaveSnap))"
    and "cIsIntroducer c0 \<Longrightarrow> accepting w \<Longrightarrow> DecodeJoinRequest j = Some q \<Longrightarrow>
      fstep c0 (ph, w, no_jobs) {Req j} None {} (ph, w, no_jobs(Handler 0 \<mapsto> IntroMerge (QList q)))"
    and "DecodeJoinResponse j = Some resp \<Longrightarrow>
      fstep c0 (Asked, w, no_jobs) {Resp j} None {} (Asked, w, no_jobs(Main \<mapsto> JoinCommit resp))"
proof -
  have n: "no_jobs g = None" for g by (simp add: no_jobs_def)
  show "loadConfig file = Some d \<Longrightarrow> fstep c0 (Serving, w, no_jobs) {} None {} (Serving, w, no_jobs(Handler 0 \<mapsto> LocalCommit d))"
    by (rule fstep.set_config [OF assms n])
  show "switch_dto req (cfg w) = Some d \<Longrightarrow>
      fstep c0 (Serving, w, no_jobs) {} None {} (Serving, w, no_jobs(Handler 0 \<mapsto> LocalCommit d))"
    by (rule fstep.switch [OF assms n])
  show "fstep c0 (Serving, w, no_jobs) {} None {} (Serving, w, no_jobs(Handler 0 \<mapsto> LeaveSnap))"
    by (rule fstep.leave [OF assms n])
  show "cIsIntroducer c0 \<Longrightarrow> accepting w \<Longrightarrow> DecodeJoinRequest j = Some q \<Longrightarrow>
      fstep c0 (ph, w, no_jobs) {Req j} None {} (ph, w, no_jobs(Handler 0 \<mapsto> IntroMerge (QList q)))"
    by (rule fstep.introduce [OF assms n])
  show "DecodeJoinResponse j = Some resp \<Longrightarrow>
      fstep c0 (Asked, w, no_jobs) {Resp j} None {} (Asked, w, no_jobs(Main \<mapsto> JoinCommit resp))"
    by (rule fstep.answered [OF assms n])
qed

lemma local_runs:
  assumes "daemon_inv w"
  shows "gruns (Handler h) (w, Goto (LocalCommit d)) {} (fst (local_change d w), Idle)"
proof -
  have "micro (Handler h) v (LocalCommit d) w = commit_then None w (commit_local d w)" for v by (simp add: micro_def)
  from commit_runs [OF this assms committed_inv(2) [OF assms]] show ?thesis
    using local_rejected [of d w] by (simp add: local_change_fst resume_def split: if_splits)
qed

lemma http_fruns:
  assumes "daemon_inv w"
  shows "fruns c0 {} (Serving, w, no_jobs) {} (Serving, fst (http_set file w), no_jobs)"
    and "fruns c0 {} (Serving, w, no_jobs) {} (Serving, fst (http_switch body w), no_jobs)"
proof -
  note p = not_panicked [OF assms]
  show "fruns c0 {} (Serving, w, no_jobs) {} (Serving, fst (http_set file w), no_jobs)"
  proof (cases "loadConfig file")
    case None
    then show ?thesis by (simp add: http_fst fruns.rest)
  next
    case (Some d)
    then show ?thesis using handler_done [OF handler_begins(1) [OF p Some] local_runs [OF assms]] by (simp add: http_fst)
  qed
  show "fruns c0 {} (Serving, w, no_jobs) {} (Serving, fst (http_switch body w), no_jobs)"
  proof (cases "Option.bind body (\<lambda>req. switch_dto req (cfg w))")
    case None
    then show ?thesis by (simp add: http_fst fruns.rest)
  next
    case (Some d)
    then obtain req where "switch_dto req (cfg w) = Some d" by (auto simp: bind_eq_Some_conv)
    from handler_done [OF handler_begins(2) [OF p this] local_runs [OF assms]] show ?thesis using Some by (simp add: http_fst)
  qed
qed

lemma leave_list_runs:
  "\<not> panicked w \<Longrightarrow> gruns (Handler h) (w, Goto (LeaveList es)) {} (w\<lparr>st := leave_store now es (st w)\<rparr>, Idle)"
proof (induction es arbitrary: w)
  case Nil
  then show ?case by (intro gruns_one_quiet) (simp_all add: micro_def leave_store_def)
next
  case (Cons e es)
  let ?w = "if ID e = SelfID (st w) then w\<lparr>st := ApplyLocked now (st w) (SelfID (st w)) (Incarnation e + 1) StateLeft\<rparr> else w"
  have "gruns (Handler h) (w, Goto (LeaveList (e # es))) {} (?w, Goto (LeaveList es))"
    using Cons.prems by (intro gruns_one_quiet [where v = "at_time now [] undefined"]) (simp_all add: micro_def)
  moreover have "\<not> panicked ?w" using Cons.prems by simp
  moreover have "?w\<lparr>st := leave_store now es (st ?w)\<rparr> = w\<lparr>st := leave_store now (e # es) (st w)\<rparr>"
    by (simp add: leave_store_def)
  ultimately show ?case using gruns_quiet [OF _ Cons.IH] by metis
qed

lemma leave_fruns:
  assumes "daemon_inv w"
  shows "fruns c0 {} (Serving, w, no_jobs) {} (Serving, fst (http_leave snap ord now w), no_jobs)"
proof -
  note p = not_panicked [OF assms]
  obtain list self s where s: "Snapshot snap ord (st w) = (list, self, s)" by (metis prod.exhaust)
  have 1: "gruns (Handler 0) (w, Goto LeaveSnap) {} (w\<lparr>st := s\<rparr>, Goto (LeaveList list))"
    using s p by (intro gruns_one_quiet [where v = "at_time snap ord undefined"]) (simp_all add: micro_def)
  have "fst (http_leave snap ord now w) = w\<lparr>st := leave_store now list s\<rparr>" using s by (simp add: http_leave_def)
  then show ?thesis
    using handler_done [OF handler_begins(3) [OF p] gruns_quiet [OF 1 leave_list_runs]] p by simp
qed

lemma introduce_fruns:
  assumes "daemon_inv w" and "cIsIntroducer c0" and "accepting w" and "handleJoin clk snap ord msg w = (w', out)"
  shows "fruns c0 (taken Req DecodeJoinRequest msg) (ph, w, no_jobs) (packed Resp out) (ph, w', no_jobs)"
proof (cases "Option.bind msg DecodeJoinRequest")
  case None
  then show ?thesis using assms(4) fruns.rest by (simp add: handleJoin_def packed_def)
next
  case (Some q)
  then obtain j where j: "msg = Some j" "DecodeJoinRequest j = Some q" by (auto simp: bind_eq_Some_conv)
  note p = not_panicked [OF assms(1)]
  let ?w1 = "w\<lparr>st := MergeFullList clk (st w) (QList q)\<rparr>"
  obtain list self s where s: "Snapshot snap ord (st ?w1) = (list, self, s)" by (metis prod.exhaust)
  have w': "w' = w\<lparr>st := s\<rparr>" and out: "out = EncodeJoinResponse \<lparr>RConfigDTO = ToDTO (cfg w), RList = list\<rparr>"
    using assms(4) s j by (simp_all add: handleJoin_def)
  have 1: "gruns (Handler 0) (w, Goto (IntroMerge (QList q))) {} (?w1, Goto IntroSnap)"
    using p by (intro gruns_one_quiet [where v = "at_time snap ord clk"]) (simp_all add: micro_def)
  have 2: "gruns (Handler 0) (?w1, Goto IntroSnap) {} (w', Goto (IntroReply list))"
    using s p by (intro gruns_one_quiet [where v = "at_time snap ord clk"]) (simp_all add: micro_def w')
  have 3: "gruns (Handler 0) (w', Goto (IntroReply list)) (packed Resp out) (w', Idle)"
    using p by (intro gruns_one [where v = "at_time snap ord clk"])
      (auto simp: micro_def w' out packed_def split: option.split)
  have "taken Req DecodeJoinRequest msg = {Req j}" using j by (simp add: taken_def)
  then show ?thesis
    using handler_done [OF handler_begins(4) [OF p assms(2,3) j(2)] gruns_quiet [OF 1 gruns_quiet [OF 2 3]]] by simp
qed

section \<open>The end of the join\<close>

lemma join_fruns:
  assumes "daemon_inv w" and "join_response answer clk w = (w', True)"
  shows "fruns c0 (taken Resp DecodeJoinResponse answer) (Asked, w, no_jobs) {} (Booted, w', no_jobs)"
proof -
  note p = not_panicked [OF assms(1)]
  obtain j resp where j: "answer = Some j" "DecodeJoinResponse j = Some resp"
    using assms(2) by (auto simp: join_response_def bind_eq_Some_conv split: option.splits)
  let ?wr = "commit_remote (RConfigDTO resp) w"
  let ?w2 = "if snd ?wr = Inr True then applyRuntime (cfg w) (cfg (fst ?wr)) (fst ?wr) else fst ?wr"
  have w': "w' = ?w2\<lparr>st := MergeFullList clk (st ?w2) (RList resp)\<rparr>"
    using assms(2) j by (simp add: join_response_def Let_def split_beta)
  have m: "micro Main v (JoinCommit resp) w = commit_then (Some (JoinMerge (RList resp))) w ?wr" for v by (simp add: micro_def)
  have 1: "gruns Main (w, Goto (JoinCommit resp)) {} (?w2, Goto (JoinMerge (RList resp)))"
    using commit_runs [OF m assms(1) committed_inv(1) [OF assms(1)]] by (simp add: resume_def)
  have "daemon_inv ?w2"
    using committed_ok(2) [OF assms(1) disjI1 [OF refl]] committed_inv(1) [OF assms(1)] by (simp add: world_ok_def)
  then have 2: "gruns Main (?w2, Goto (JoinMerge (RList resp))) {} (w', Idle)"
    unfolding w' by (intro gruns_one_quiet [where v = "at_time undefined [] clk"]) (simp_all add: micro_def not_panicked)
  have "taken Resp DecodeJoinResponse answer = {Resp j}" using j by (simp add: taken_def)
  then show ?thesis
    using job_done [OF handler_begins(5) [OF p j(2)] subset_refl gruns_quiet [OF 1 2]] by (simp add: phase_next_def ended_def)
qed

section \<open>A process and the cluster\<close>

lemma solo_fruns:
  assumes "solo_step c0 g p outs q" and "\<not> panicked (snd p)"
  shows "fruns c0 P (fst p, snd p, no_jobs) outs (fst q, snd q, no_jobs)"
proof -
  have n: "no_jobs g = None" by (simp add: no_jobs_def)
  have "fstep c0 (fst p, snd p, no_jobs) {} None outs (fst q, snd q, no_jobs)"
    by (rule fstep.solo [where g = g]) (use assms n in simp_all)
  from fruns.go [OF this empty_subsetI fruns.rest] show ?thesis by simp
qed

lemma pstep_fruns:
  "pstep c0 p ins outs q \<Longrightarrow> daemon_inv (snd p) \<Longrightarrow> fruns c0 ins (fst p, snd p, no_jobs) outs (fst q, snd q, no_jobs)"
proof (induction rule: pstep.induct)
  case (solo g p outs q)
  then show ?case using solo_fruns not_panicked by blast
next
  case (ping_receive r w inp input rv res ph)
  then show ?case using ping_receive_fruns [of w r inp input rv "fst res" "snd res" c0 ph] by simp
next
  case (ping_send w r ticker prev sv w' out period ph)
  then show ?case using ping_tick_fruns [of w r ticker prev sv w' out period c0 ph] by simp
next
  case (gossip_receive r w inp input rv res ph)
  then show ?case using gossip_receive_fruns [of w r inp input rv "fst res" "snd res" c0 ph] by simp
next
  case (gossip_send w r ticker prev sv w' out period ph)
  then show ?case using gossip_tick_fruns [of w r ticker prev sv w' out period c0 ph] by simp
next
  case (join_done answer clk w w')
  then show ?case using join_fruns by simp
next
  case (introduce w clk snap ord msg w' out ph)
  then show ?case using introduce_fruns [of w c0 clk snap ord msg w' out ph] by simp
qed

text \<open>The runs of a process within the cluster.\<close>

lemma fruns_cluster:
  assumes "fruns c0 P x outs y" and "freach (N, J)" and "procs N i = Some (c0, fst x, fst (snd x))" and "J i = snd (snd x)"
    and "P \<subseteq> packets N"
  shows "\<exists>M. freach (M, J(i := snd (snd y))) \<and> procs M = (procs N)(i \<mapsto> (c0, fst y, fst (snd y))) \<and>
    packets M = packets N \<union> outs"
  using assms
proof (induction arbitrary: N J rule: fruns.induct)
  case (rest x)
  then have "J(i := snd (snd x)) = J" "(procs N)(i \<mapsto> (c0, fst x, fst (snd x))) = procs N" by (auto simp: fun_eq_iff)
  with rest show ?case by auto
next
  case (go x ins j out y outs z)
  let ?N = "fine_put i c0 j out (fst (snd x)) y N"
  have "fstep c0 (fst x, fst (snd x), J i) ins j out (fst y, fst (snd y), snd (snd y))" using go.hyps(1) go.prems(3) by simp
  then have "fnstep (N, J) (fine_put i c0 j out (fst (snd x)) (fst y, fst (snd y), snd (snd y)) N, J(i := snd (snd y)))"
    by (rule fnstep.move [of N i c0 "fst x" "fst (snd x)" J ins j out, OF go.prems(2)]) (rule subset_trans [OF go.hyps(2) go.prems(4)])
  then have "fnstep (N, J) (?N, J(i := snd (snd y)))" by simp
  with go.prems(1) have r: "freach (?N, J(i := snd (snd y)))" by (rule freach.step)
  have N: "procs ?N = (procs N)(i \<mapsto> (c0, fst y, fst (snd y)))" "packets ?N = packets N \<union> out"
    by (cases y; simp add: fine_put_def put_proc_def)+
  have p: "procs ?N i = Some (c0, fst y, fst (snd y))" "(J(i := snd (snd y))) i = snd (snd y)" "P \<subseteq> packets ?N"
    using N go.prems(4) by auto
  obtain M where "freach (M, (J(i := snd (snd y)))(i := snd (snd z)))"
    "procs M = (procs ?N)(i \<mapsto> (c0, fst z, fst (snd z)))" "packets M = packets ?N \<union> outs"
    using go.IH [OF r p] by blast
  then show ?case unfolding N fun_upd_upd Un_assoc by blast
qed

definition idle :: "nat \<Rightarrow> jobs" where "idle = (\<lambda>_. no_jobs)"

lemma process_cluster:
  assumes "fruns c0 P (ph, w, no_jobs) outs (ph', w', no_jobs)" and "freach (M, idle)"
    and "procs M i = Some (c0, ph, w)" and "P \<subseteq> packets M"
  shows "\<exists>M'. freach (M', idle) \<and> procs M' = (procs M)(i \<mapsto> (c0, ph', w')) \<and> packets M' = packets M \<union> outs"
proof -
  have "idle(i := no_jobs) = idle" by (simp add: idle_def fun_eq_iff)
  then show ?thesis using fruns_cluster [OF assms(1,2), of i] assms(3,4) by (simp add: idle_def)
qed

text \<open>Every reachable cluster with atomic operations is one of the clusters with interleaving goroutines.\<close>

lemma simulated:
  assumes "nreach N"
  shows "\<exists>M. freach (M, \<lambda>_. no_jobs) \<and> procs M = procs N \<and> packets M = packets N"
  using assms
proof (induction rule: nreach.induct)
  case init
  then show ?case using freach.init by auto
next
  case (step N N')
  obtain M where m: "freach (M, idle)" "procs M = procs N" "packets M = packets N" using step.IH by (auto simp: idle_def)
  have go: "\<exists>M'. freach (M', idle) \<and> procs M' = (procs N)(i \<mapsto> (c, ph', w')) \<and> packets M' = packets N \<union> outs"
    if "procs N i = Some (c, ph, w)" "daemon_inv w \<Longrightarrow> fruns c P (ph, w, no_jobs) outs (ph', w', no_jobs)" "P \<subseteq> packets N"
    for i c ph w P outs ph' w'
    using process_cluster [OF that(2) m(1)] net_proc_daemon [OF net_invD [OF nreach_inv [OF step.hyps(1)] that(1)]] that m
    by simp
  from step.hyps(2) have "\<exists>M'. freach (M', idle) \<and> procs M' = procs N' \<and> packets M' = packets N'"
  proof cases
    case (boot i v c w)
    have "idle(i := no_jobs) = idle" by (simp add: idle_def fun_eq_iff)
    then have "fnstep (M, idle) ((put_proc i c (first_phase c, w) M)\<lparr>made := insert (ToDTO c) (made M)\<rparr>, idle)"
      using fnstep.boot [of M i v c w idle] boot m by simp
    from freach.step [OF m(1) this] show ?thesis using boot(1) m by (intro exI conjI) (assumption | simp add: put_proc_def)+
  next
    case (move i c p ins outs q)
    then show ?thesis
      using go [of i c "fst p" "snd p" ins outs "fst q" "snd q"] pstep_fruns [OF move(3)] by (simp add: put_proc_def)
  next
    case (scan i c ph w v w')
    then show ?thesis using go [of i c ph w "{}" "{}" ph w'] scan_fruns [of w v w' c ph] by (simp add: put_proc_def)
  next
    case (set_config i c w w' upload)
    then show ?thesis using go [of i c Serving w "{}" "{}" Serving w'] http_fruns(1) [of w c] by (simp add: put_proc_def)
  next
    case (switch i c w w' body)
    then show ?thesis using go [of i c Serving w "{}" "{}" Serving w'] http_fruns(2) [of w c] by (simp add: put_proc_def)
  next
    case (leave i c w w' snap ord now)
    then show ?thesis using go [of i c Serving w "{}" "{}" Serving w'] leave_fruns [of w c] by (simp add: put_proc_def)
  next
    case (die i)
    have "fnstep (M, idle) (M\<lparr>procs := (procs M)(i := None)\<rparr>, idle)" by (rule fnstep.die)
    from freach.step [OF m(1) this] show ?thesis using die m by (intro exI conjI) (assumption | simp)+
  qed
  then show ?case by (simp add: idle_def)
qed

end
