(* ===== verification/FineProps.thy ===== *)
theory FineProps
  imports FineRefine NetProps AdminProps
begin

text \<open>
  The properties of the cluster with interleaving goroutines: what its members can rely on, and a
  schedule in which the program goes wrong.
\<close>

section \<open>Beliefs\<close>

text \<open>
  C6. What an entry still means when the operations interleave. Scans and handlers judge snapshots and
  write by endpoint, so an entry can mix what different boots of one endpoint said, but never more: its
  identity was announced by a process of that identity; its incarnation, and its state unless it is an
  accusation, were announced by some boot of its endpoint; if it says Left, some boot of the endpoint was
  asked to leave; and if it says Suspect or Failed, some boot of the endpoint was found silent, or its
  ping unanswered, at this incarnation.
\<close>

theorem interleaved_claims:
  assumes "freach (N, J)" and "procs N i = Some (c, ph, w)" and "entries (st w) k = Some e"
  shows "(\<exists>v x. (ID e, v, x) \<in> said N) \<and> (\<exists>n x. key_of n = key_of (ID e) \<and> (n, Incarnation e, x) \<in> said N) \<and>
     (EState e \<noteq> StateSuspect \<and> EState e \<noteq> StateFailed \<longrightarrow>
       (\<exists>n. key_of n = key_of (ID e) \<and> (n, Incarnation e, EState e) \<in> said N)) \<and>
     (EState e = StateLeft \<longrightarrow> (\<exists>n \<in> leavers N. key_of n = key_of (ID e))) \<and>
     (EState e = StateSuspect \<or> EState e = StateFailed \<longrightarrow>
       (\<exists>n. key_of n = key_of (ID e) \<and> (n, Incarnation e) \<in> accused N))"
proof -
  have "fine_process N c w (J i)" using freach_inv [OF assms(1)] assms(2) by (auto simp: fine_inv_def)
  then have "told_of (said N) (leavers N) (accused N) e" using assms(3) by (auto simp: fine_process_def all_entries_def)
  then show ?thesis unfolding told_of_def near_claimed_def near_left_def near_accused_def by blast
qed

theorem interleaved_claims_witness:
  "\<exists>N J n. freach (N, J) \<and> procs N 0 = Some (sample_introducer, Serving, world2) \<and>
     n \<in> leavers N \<and> key_of n = key_of (node 1 7) \<and> (\<exists>m. key_of m = key_of n \<and> (m, 101, StateLeft) \<in> said N)"
proof -
  have "procs net2 0 = Some (sample_introducer, Serving, world2)" by (simp add: net2_def put_proc_def)
  then obtain N where n: "freach (N, \<lambda>_. no_jobs)" "procs N 0 = Some (sample_introducer, Serving, world2)"
    using simulated [OF nreach_net2] by metis
  from interleaved_claims [OF n world2_entry] n show ?thesis by (simp, metis)
qed

section \<open>Configurations\<close>



section \<open>Two changes at a time\<close>

lemma fruns_then: "fruns c0 P x outs y \<Longrightarrow> fstep c0 y ins j out z \<Longrightarrow> ins \<subseteq> P \<Longrightarrow> fruns c0 P x (outs \<union> out) z"
proof (induction rule: fruns.induct)
  case (rest x)
  then show ?case using fruns.go [OF _ _ fruns.rest] by simp
next
  case (go x ins' j' out' y outs' z')
  from fruns.go [OF go.hyps(1,2) go.IH [OF go.prems]] show ?case by (simp add: Un_assoc)
qed

lemma fruns_next:
  assumes "fruns c0 P x outs (ph, w, J)" and "\<not> panicked w" and "J g = Some j" and "micro g v j w = (w', [], Goto j')"
  shows "fruns c0 P x outs (ph, w', J(g \<mapsto> j'))"
proof -
  have "fstep c0 (ph, w, J) {} (Some j) {} (ph, w', J(g \<mapsto> j'))"
    using fstep.run [of w J g j v w' "[]" "Goto j'" c0 ph] assms(2-4) by simp
  from fruns_then [OF assms(1) this] show ?thesis by simp
qed

lemma close_ping_open:
  "loopPA w = Some r \<Longrightarrow> pings w r = Some l \<Longrightarrow> \<not> PStop l \<Longrightarrow>
     close_ping w = Some (w\<lparr>pings := (pings w)(r \<mapsto> l\<lparr>PStop := True\<rparr>)\<rparr>)"
  "loopPA w = Some r \<Longrightarrow> pings w r = Some l \<Longrightarrow> PStop l \<Longrightarrow> close_ping w = None"
  by (simp_all add: close_ping_def PingClose_def)

text \<open>
  C32. Two changes at a time can close the ping loop twice. \<open>stopPingAck\<close> looks at the pointer, closes the
  loop and clears the pointer, with no lock: when two goroutines have both decided to start a gossip loop
  and both have found the pointer set, there is a schedule in which the second call of \<open>Close\<close> panics. A
  request to the HTTP server is abandoned then, and nothing of its configuration is pushed, although it
  is committed and sent to the other members; in a receive loop the panic ends the process.
\<close>

theorem ping_loop_closed_twice:
  assumes "\<not> panicked w" and "J g = Some (Push TestOther p1 n1 k1)" and "J h = Some (Push TestOther p2 n2 k2)" and "g \<noteq> h"
    and "cMode n1 = ModeGossip" and "cMode n2 = ModeGossip"
    and "loopPA w = Some r" and "pings w r = Some l" and "\<not> PStop l"
  shows "\<exists>ph' w' J'. fruns c0 {} (ph, w, J) {} (ph', w', J') \<and> J' h = k2 \<and> (ph \<noteq> Asked \<longrightarrow> ph' = ph) \<and>
     (let w1 = w\<lparr>pings := (pings w)(r \<mapsto> l\<lparr>PStop := True\<rparr>)\<rparr>
      in w' = (case h of Handler i \<Rightarrow> w1 | _ \<Rightarrow> w1\<lparr>panicked := True\<rparr>))"
proof -
  let ?w1 = "w\<lparr>pings := (pings w)(r \<mapsto> l\<lparr>PStop := True\<rparr>)\<rparr>"
  let ?J1 = "J(g \<mapsto> Push CloseOther p1 n1 k1)" and ?J2 = "J(g \<mapsto> Push CloseOther p1 n1 k1, h \<mapsto> Push CloseOther p2 n2 k2)"
  let ?J3 = "?J2(g \<mapsto> Push ClearOther p1 n1 k1)"
  have t: "micro x v (Push TestOther p n k) w = (w, [], Goto (Push CloseOther p n k))" if "cMode n = ModeGossip" for x v p n k
    using that assms(7) by (simp add: micro_def)
  have 1: "fruns c0 {} (ph, w, J) {} (ph, w, ?J1)"
    by (rule fruns_next [OF fruns.rest, where g = g]) (use assms(1,2) t [OF assms(5)] in auto)
  have 2: "fruns c0 {} (ph, w, J) {} (ph, w, ?J2)"
    by (rule fruns_next [OF 1, where g = h]) (use assms(1,3,4) t [OF assms(6)] in auto)
  have 3: "fruns c0 {} (ph, w, J) {} (ph, ?w1, ?J3)"
    by (rule fruns_next [OF 2, where g = g and j = "Push CloseOther p1 n1 k1"])
      (use assms close_ping_open in \<open>simp_all add: micro_def or_panic_def\<close>)
  have m: "micro h v (Push CloseOther p2 n2 k2) ?w1 = (recovered h (?w1\<lparr>panicked := True\<rparr>), [], resume k2)" for v
    using assms(6,7) close_ping_open(2) [of ?w1 r] by (simp add: micro_def or_panic_def)
  have e: "ended h (resume k2) x = x" "job_next (resume k2) = k2" "resume k2 \<noteq> Exit" for x
    by (simp_all add: ended_def resume_def job_next_def split: option.split)
  have "fstep c0 (ph, ?w1, ?J3) {} (Some (Push CloseOther p2 n2 k2)) (set [])
      (phase_next h (resume k2) ph, ended h (resume k2) (recovered h (?w1\<lparr>panicked := True\<rparr>)), ?J3(h := job_next (resume k2)))"
    by (rule fstep.run [OF _ _ m e(3)]) (use assms(1,4) in simp_all)
  from fruns_then [OF 3 this]
  have "fruns c0 {} (ph, w, J) {} (phase_next h (resume k2) ph, recovered h (?w1\<lparr>panicked := True\<rparr>), ?J3(h := k2))"
    unfolding e by simp
  moreover have "recovered h (?w1\<lparr>panicked := True\<rparr>) = (case h of Handler i \<Rightarrow> ?w1 | _ \<Rightarrow> ?w1\<lparr>panicked := True\<rparr>)"
    using assms(1) by (simp add: recovered_def split: goroutine.split)
  moreover have "ph \<noteq> Asked \<longrightarrow> phase_next h (resume k2) ph = ph" by (simp add: phase_next_def)
  ultimately show ?thesis unfolding Let_def by (metis fun_upd_same)
qed

text \<open>The administrator of node 1 asks twice for the gossip protocol, and the two handlers overlap.\<close>

definition to_gossip :: switchReq where
  "to_gossip = \<lparr>Protocol = ''gossip'', SuspicionMode = ''disabled'', SuspicionTime = []\<rparr>"

lemma gossip_wish: "switch_wish to_gossip = Some (ModeGossip, 0)"
proof -
  have "ToLower (TrimSpace ''gossip'') = ''gossip''" "ToLower (TrimSpace ''disabled'') = ''disabled''" by code_simp+
  then show ?thesis by (simp add: switch_wish_def to_gossip_def ModeGossip_def)
qed

lemma world1_simps [simp]:
  "cfg world1 = sample_introducer" "loopGo world1 = None" "loopPA world1 = Some 2" "panicked world1 = False"
proof -
  have "cMode sample_introducer = ModePingAck" by (simp add: sample_introducer_def Defaults_def)
  then show "cfg world1 = sample_introducer" "loopGo world1 = None" "loopPA world1 = Some 2" "panicked world1 = False"
    by (simp_all add: world1_def startProtocol_def Let_def ManagerRun_def stopGossip_def sample_world_def)
qed

lemma world1_loop: "\<exists>l. pings world1 2 = Some l \<and> \<not> PStop l"
proof -
  have "cMode sample_introducer = ModePingAck" by (simp add: sample_introducer_def Defaults_def)
  then show ?thesis
    by (simp add: world1_def startProtocol_def Let_def ManagerRun_def stopGossip_def sample_world_def NewPingAck_def PingSetConfigDTO_def)
qed

lemma sample_introducer_ok: "cfg_ok sample_introducer" "cVersion sample_introducer = 1"
proof -
  have "procs net1 0 = Some (sample_introducer, Serving, world1)" by (simp add: net1_def put_proc_def)
  from net_invD [OF nreach_inv [OF nreach_net1] this] show "cfg_ok sample_introducer"
    by (simp add: net_proc_def from_made_def)
qed (simp add: sample_introducer_def Defaults_def)

lemma gossip_versions:
  "\<exists>d n1 n2. switch_dto to_gossip sample_introducer = Some d \<and> cMode n1 = ModeGossip \<and> cMode n2 = ModeGossip \<and>
     cVersion n1 = 2 \<and> cVersion n2 = 3 \<and>
     BumpAndApplyLocal sample_introducer d = (n1, Inr True) \<and> BumpAndApplyLocal n1 d = (n2, Inr True)"
proof -
  let ?c = sample_introducer
  let ?k = "switched ?c (ModeGossip, 0)"
  let ?n1 = "adopt ?c (?k\<lparr>cVersion := 2\<rparr>)"
  obtain d where d: "switch_dto to_gossip ?c = Some d" by (simp add: switch_dto_wish gossip_wish)
  note sw = switch_commit [OF sample_introducer_ok(1) gossip_wish d]
  have "BumpAndApplyLocal ?c d = (?n1, Inr True)" "BumpAndApplyLocal ?n1 d = (adopt ?n1 (?k\<lparr>cVersion := 3\<rparr>), Inr True)"
    using sw [of ?c] sw [of ?n1] sample_introducer_ok(2) by (simp_all add: int64_defs adopt_def switched_def)
  moreover have "cMode (adopt x (?k\<lparr>cVersion := v\<rparr>)) = ModeGossip" "cVersion (adopt x (?k\<lparr>cVersion := v\<rparr>)) = v" for x v
    by (simp_all add: adopt_def switched_def)
  ultimately show ?thesis using d by blast
qed

lemma overlapping_switches:
  "\<exists>N J w p2 n1. freach (N, J) \<and> procs N 0 = Some (sample_introducer, Serving, w) \<and>
     J 0 (Handler 0) = Some (Push TestOther sample_introducer n1 None) \<and> J 0 (Handler 1) = Some (Push TestOther p2 (cfg w) None) \<and>
     cMode n1 = ModeGossip \<and> cMode (cfg w) = ModeGossip \<and> cVersion n1 = 2 \<and> cVersion (cfg w) = 3 \<and>
     (\<exists>c. w = world1\<lparr>cfg := c\<rparr>)"
proof -
  let ?c = sample_introducer
  obtain d n1 n2 where d: "switch_dto to_gossip ?c = Some d"
    and n: "cMode n1 = ModeGossip" "cMode n2 = ModeGossip" "cVersion n1 = 2" "cVersion n2 = 3"
    and b: "BumpAndApplyLocal ?c d = (n1, Inr True)" "BumpAndApplyLocal n1 d = (n2, Inr True)"
    using gossip_versions by blast
  let ?w1 = "world1\<lparr>cfg := n1\<rparr>" and ?w2 = "world1\<lparr>cfg := n2\<rparr>"
  let ?J1 = "no_jobs(Handler 0 \<mapsto> LocalCommit d)"
  let ?J2 = "?J1(Handler 1 \<mapsto> LocalCommit d)"
  let ?J3 = "?J2(Handler 0 \<mapsto> Push Choose ?c n1 None)"
  let ?J4 = "?J3(Handler 0 \<mapsto> Push TestOther ?c n1 None)"
  let ?J5 = "?J4(Handler 1 \<mapsto> Push Choose n1 n2 None)"
  let ?J6 = "?J5(Handler 1 \<mapsto> Push TestOther n1 n2 None)"
  have sd: "switch_dto to_gossip (cfg world1) = Some d" using d by simp
  have 1: "fstep ?c (Serving, world1, no_jobs) {} None {} (Serving, world1, ?J1)"
    by (rule fstep.switch [OF _ _ sd]) (simp_all add: no_jobs_def)
  have 2: "fstep ?c (Serving, world1, ?J1) {} None {} (Serving, world1, ?J2)"
    by (rule fstep.switch [OF _ _ sd]) (simp_all add: no_jobs_def)
  have "fruns ?c {} (Serving, world1, no_jobs) ({} \<union> {} \<union> {}) (Serving, world1, ?J2)"
    by (rule fruns_then [OF fruns_then [OF fruns.rest 1 empty_subsetI] 2 empty_subsetI])
  then have 2: "fruns ?c {} (Serving, world1, no_jobs) {} (Serving, world1, ?J2)" by simp
  have 3: "fruns ?c {} (Serving, world1, no_jobs) {} (Serving, ?w1, ?J3)"
    by (rule fruns_next [OF 2, where v = undefined and j = "LocalCommit d"]) (simp_all add: micro_def commit_then_def commit_local_def b)
  have 4: "fruns ?c {} (Serving, world1, no_jobs) {} (Serving, ?w1, ?J4)"
    by (rule fruns_next [OF 3, where v = undefined and j = "Push Choose ?c n1 None"]) (simp_all add: micro_def n)
  have 5: "fruns ?c {} (Serving, world1, no_jobs) {} (Serving, ?w2, ?J5)"
    by (rule fruns_next [OF 4, where v = undefined and j = "LocalCommit d"]) (simp_all add: micro_def commit_then_def commit_local_def b)
  have 6: "fruns ?c {} (Serving, world1, no_jobs) {} (Serving, ?w2, ?J6)"
    by (rule fruns_next [OF 5, where v = undefined and j = "Push Choose n1 n2 None"]) (simp_all add: micro_def n)
  obtain N where N: "freach (N, \<lambda>_. no_jobs)" "procs N 0 = Some (?c, Serving, world1)"
    using simulated [OF nreach_net1] by (auto simp: net1_def put_proc_def)
  obtain M where M: "freach (M, (\<lambda>_. no_jobs)(0 := ?J6))" "procs M 0 = Some (?c, Serving, ?w2)"
    using fruns_cluster [OF 6 N(1), of 0] N(2) by auto
  show ?thesis
    by (rule exI [of _ M], rule exI [of _ "(\<lambda>_. no_jobs)(0 := ?J6)"], rule exI [of _ ?w2], rule exI [of _ n1], rule exI [of _ n1])
      (use M n in auto)
qed

theorem ping_loop_closed_twice_witness:
  "\<exists>N J w. freach (N, J) \<and> procs N 0 = Some (sample_introducer, Serving, w) \<and> J 0 (Handler 1) = None \<and>
     cVersion (cfg w) = 3 \<and> cMode (cfg w) = ModeGossip \<and> loopGo w = None \<and> cVersion (config (st w)) = 1"
proof -
  obtain N J w p2 n1 c where N: "freach (N, J)" "procs N 0 = Some (sample_introducer, Serving, w)"
    and J: "J 0 (Handler 0) = Some (Push TestOther sample_introducer n1 None)"
      "J 0 (Handler 1) = Some (Push TestOther p2 (cfg w) None)"
    and n: "cMode n1 = ModeGossip" "cMode (cfg w) = ModeGossip" "cVersion (cfg w) = 3" and w: "w = world1\<lparr>cfg := c\<rparr>"
    using overlapping_switches by blast
  obtain l where l: "pings w 2 = Some l" "\<not> PStop l" using world1_loop by (auto simp: w)
  have p: "\<not> panicked w" "loopPA w = Some 2" by (simp_all add: w)
  have ne: "Handler 0 \<noteq> Handler 1" by simp
  obtain ph' w' J' where r: "fruns sample_introducer {} (Serving, w, J 0) {} (ph', w', J')" "J' (Handler 1) = None"
    and w': "ph' = Serving" "w' = w\<lparr>pings := (pings w)(2 \<mapsto> l\<lparr>PStop := True\<rparr>)\<rparr>"
    using ping_loop_closed_twice [OF p(1) J ne n(1,2) p(2) l, of sample_introducer Serving] by (auto simp: Let_def)
  obtain M where M: "freach (M, J(0 := J'))" "procs M 0 = Some (sample_introducer, ph', w')"
    using fruns_cluster [OF r(1) N(1), of 0] N(2) by auto
  moreover have "cVersion (config (st world1)) = 1"
    using sample_introducer_ok(2) by (simp add: world1_def ManagerRun_def NewStore_def)
  ultimately show ?thesis using r(2) n by (intro exI conjI) (assumption | simp add: w' w)+
qed

end
