(* ===== verification/Restarts.thy ===== *)
theory Restarts
  imports FineProps
begin

text \<open>
  A member that crashes and starts again while the suspicion manager of another one scans: the mark that is
  meant for its former boot lands on the new one.
\<close>

section \<open>The introducer and those who join it\<close>

text \<open>
  Process 0 is the introducer of \<open>NetProps\<close>, serving, with the jobs \<open>K\<close>; the packets \<open>Q\<close> are on their way;
  and so far only the former boot of node 2, and node 1, have been accused.
\<close>

definition former :: accusations where
  "former = {(node 1 7, 100), (node 2 7, 100)}"

definition stage :: "World \<Rightarrow> jobs \<Rightarrow> packet set \<Rightarrow> bool" where
  "stage w K Q \<longleftrightarrow>
     (\<exists>N. freach (N, (\<lambda>_. no_jobs)(0 := K)) \<and> procs N 0 = Some (sample_introducer, Serving, w) \<and> procs N 1 = None \<and>
        Q \<subseteq> packets N \<and> accused N \<subseteq> former \<and> charged K \<subseteq> former)"

lemma charged_simps [simp]: "charged no_jobs = {}"
  by (simp add: charged_def no_jobs_def)

lemma charged_put: "charged K \<subseteq> A \<Longrightarrow> charges j \<subseteq> A \<Longrightarrow> charged (K(g \<mapsto> j)) \<subseteq> A"
  by (force simp: charged_def split: option.splits if_splits)

lemma stage_step:
  assumes "stage w K Q" and "fstep sample_introducer (Serving, w, K) ins j outs (Serving, w', K')" and "ins \<subseteq> Q"
    and "charged K' \<subseteq> former"
  shows "stage w' K' Q"
proof -
  let ?J = "(\<lambda>_ :: nat. no_jobs)(0 := K)"
  obtain N where N: "freach (N, ?J)" "procs N 0 = Some (sample_introducer, Serving, w)" "procs N 1 = None"
    "Q \<subseteq> packets N" "accused N \<subseteq> former" using assms(1) unfolding stage_def by blast
  let ?N = "fine_put 0 sample_introducer j outs w (Serving, w', K') N"
  have "fstep sample_introducer (Serving, w, ?J 0) ins j outs (Serving, w', K')" using assms(2) by simp
  then have "fnstep (N, ?J) (?N, ?J(0 := K'))"
    by (rule fnstep.move [OF N(2)]) (use assms(3) N(4) in blast)
  then have "freach (?N, ?J(0 := K'))" using N(1) freach.step by blast
  moreover have "?J(0 := K') = (\<lambda>_. no_jobs)(0 := K')" by simp
  ultimately show ?thesis using N assms(4) by (auto simp: stage_def fine_put_def put_proc_def intro!: exI [of _ ?N])
qed

lemma stage_run:
  assumes "stage w K Q" and "\<not> panicked w" and "K g = Some j" and "micro g v j w = (w', [], Goto j')"
    and "charges j' \<subseteq> former"
  shows "stage w' (K(g \<mapsto> j')) Q"
proof (rule stage_step [OF assms(1)])
  show "fstep sample_introducer (Serving, w, K) {} (Some j) {} (Serving, w', K(g \<mapsto> j'))"
    using fstep.run [of w K g j v w' "[]" "Goto j'" sample_introducer Serving] assms(2-4) by simp
  show "charged (K(g \<mapsto> j')) \<subseteq> former"
    using charged_put [OF _ assms(5), of K g] assms(1) by (auto simp only: stage_def)
qed simp

lemma stage_begin:
  assumes "stage w K Q" and "fstep sample_introducer (Serving, w, K) ins None {} (Serving, w, K(g \<mapsto> j))" and "ins \<subseteq> Q"
    and "charges j = {}"
  shows "stage w (K(g \<mapsto> j)) Q"
  using stage_step [OF assms(1-3)] charged_put [of K former j g] assms(1,4) by (auto simp: stage_def)

text \<open>A node that starts, asks to join, and is killed.\<close>

lemma stage_join:
  assumes "stage w K Q" and "flag_ints (e_flags v)" and "main_start v = Inr (m, u)" and "first_phase m = Joining"
    and "join_request snap ord u = (u', Some j)" and "\<not> panicked u"
  shows "stage w K (insert (Req j) Q)"
proof -
  let ?J = "(\<lambda>_ :: nat. no_jobs)(0 := K)"
  obtain N where N: "freach (N, ?J)" "procs N 0 = Some (sample_introducer, Serving, w)" "procs N 1 = None"
    "Q \<subseteq> packets N" "accused N \<subseteq> former" "charged K \<subseteq> former" using assms(1) unfolding stage_def by blast
  let ?N1 = "(put_proc 1 m (Joining, u) N)\<lparr>made := insert (ToDTO m) (made N)\<rparr>"
  have "fnstep (N, ?J) (?N1, ?J(1 := no_jobs))"
    using fnstep.boot [OF N(3) assms(2,3)] assms(4) by simp
  moreover have J: "?J(1 := no_jobs) = ?J" by (simp add: fun_eq_iff)
  ultimately have 1: "freach (?N1, ?J)" using freach.step [OF N(1)] by simp
  let ?N2 = "fine_put 1 m None {Req j} u (Asked, u', no_jobs) ?N1"
  have p: "procs ?N1 1 = Some (m, Joining, u)" by (simp add: put_proc_def)
  have "fstep m (Joining, u, ?J 1) {} None {Req j} (Asked, u', no_jobs)"
    using fstep.solo [where g = Main and J = no_jobs, OF assms(6) _ solo_step.join_asks [OF assms(5)]]
    by (simp add: no_jobs_def)
  then have "fnstep (?N1, ?J) (?N2, ?J(1 := no_jobs))" by (rule fnstep.move [OF p]) simp
  then have 2: "freach (?N2, ?J)" using freach.step [OF 1] unfolding J by blast
  let ?N3 = "?N2\<lparr>procs := (procs ?N2)(1 := None)\<rparr>"
  have "freach (?N3, ?J)" by (rule freach.step [OF 2 fnstep.die])
  then show ?thesis
    using N unfolding stage_def by (intro exI [of _ ?N3]) (auto simp: fine_put_def put_proc_def)
qed

lemma solo_alone:
  assumes "freach (N, \<lambda>_. no_jobs)" and "procs N i = Some (c, ph, w)" and "\<not> panicked w" and "solo_step c g (ph, w) {} (ph', w')"
  shows "\<exists>M. freach (M, \<lambda>_. no_jobs) \<and> procs M = (procs N)(i \<mapsto> (c, ph', w')) \<and> packets M = packets N \<and> accused M = accused N"
proof -
  have "fstep c (ph, w, no_jobs) {} None {} (ph', w', no_jobs)"
    by (rule fstep.solo [OF assms(3) _ assms(4)]) (simp add: no_jobs_def)
  then have "fnstep (N, \<lambda>_. no_jobs) (fine_put i c None {} w (ph', w', no_jobs) N, (\<lambda>_. no_jobs)(i := no_jobs))"
    by (rule fnstep.move [OF assms(2)]) simp
  moreover have "(\<lambda>_ :: nat. no_jobs)(i := no_jobs) = (\<lambda>_. no_jobs)" by (simp add: fun_eq_iff)
  ultimately have "freach (fine_put i c None {} w (ph', w', no_jobs) N, \<lambda>_. no_jobs)"
    using freach.step [OF assms(1)] by simp
  moreover have "procs (fine_put i c None {} w (ph', w', no_jobs) N) = (procs N)(i \<mapsto> (c, ph', w'))"
    "packets (fine_put i c None {} w (ph', w', no_jobs) N) = packets N"
    "accused (fine_put i c None {} w (ph', w', no_jobs) N) = accused N"
    by (simp_all add: fine_put_def put_proc_def)
  ultimately show ?thesis by blast
qed

definition introducer1 :: World where "introducer1 = world1\<lparr>accepting := True\<rparr>"

lemma stage_open: "stage introducer1 no_jobs {}"
proof -
  let ?i = sample_introducer and ?w = "sample_world 1 sample_introducer"
  let ?N = "(put_proc 0 ?i (first_phase ?i, ?w) no_net)\<lparr>made := insert (ToDTO ?i) (made no_net)\<rparr>"
  have "fnstep (no_net, \<lambda>_. no_jobs) (?N, (\<lambda>_. no_jobs)(0 := no_jobs))"
    by (rule fnstep.boot [OF _ flag_ints_sample sample_main]) (simp add: no_net_def)
  moreover have "(\<lambda>_ :: nat. no_jobs)(0 := no_jobs) = (\<lambda>_. no_jobs)" by (simp add: fun_eq_iff)
  ultimately have r: "freach (?N, \<lambda>_. no_jobs)" using freach.step [OF freach.init] by metis
  have p: "procs ?N 0 = Some (?i, Booted, ?w)" "\<not> panicked ?w" "mgr_stop ?w = None"
    by (simp_all add: put_proc_def sample_world_def)
  obtain N1 where 1: "freach (N1, \<lambda>_. no_jobs)" "procs N1 = (procs ?N)(0 \<mapsto> (?i, Booted, ManagerRun ?w))"
      "packets N1 = packets ?N" "accused N1 = accused ?N"
    using solo_alone [OF r p(1,2) solo_step.manager [OF p(3)]] by blast
  have p1: "procs N1 0 = Some (?i, Booted, ManagerRun ?w)" "\<not> panicked (ManagerRun ?w)"
    using 1(2) by (simp_all add: ManagerRun_def sample_world_def)
  obtain N2 where 2: "freach (N2, \<lambda>_. no_jobs)" "procs N2 = (procs N1)(0 \<mapsto> (?i, Serving, world1))"
      "packets N2 = packets N1" "accused N2 = accused N1"
    using solo_alone [OF 1(1) p1 solo_step.serve] unfolding world1_def by blast
  have s: "startIntroducerServer (\<lambda>_. True) (cIntroducerBindAddr ?i) world1 = Running introducer1"
    by (simp add: startIntroducerServer_def introducer1_def)
  have p2: "procs N2 0 = Some (?i, Serving, world1)" "\<not> panicked world1"
    using 2(2) by (simp_all add: world1_def startProtocol_def Let_def ManagerRun_def stopGossip_def sample_world_def
        sample_introducer_def Defaults_def)
  obtain N3 where 3: "freach (N3, \<lambda>_. no_jobs)" "procs N3 = (procs N2)(0 \<mapsto> (?i, Serving, introducer1))"
      "packets N3 = packets N2" "accused N3 = accused N2"
    using solo_alone [OF 2(1) p2 solo_step.introducer [OF sample_introducer_simps(1) s]] by blast
  have "accused N3 = {}" "procs N3 1 = None" "procs N3 0 = Some (?i, Serving, introducer1)"
    using 1 2 3 by (simp_all add: put_proc_def no_net_def)
  moreover have "(\<lambda>_ :: nat. no_jobs)(0 := no_jobs) = (\<lambda>_. no_jobs)" by (simp add: fun_eq_iff)
  ultimately show ?thesis using 3(1) unfolding stage_def by (intro exI [of _ N3]) simp
qed

section \<open>The restart\<close>

text \<open>The second boot of node 2: one tick of the boot clock later.\<close>

definition sample_env3 :: start_env where "sample_env3 = sample_env2\<lparr>e_boot := 8\<rparr>"

definition restarted :: World where
  "restarted = (sample_world 2 sample_member)\<lparr>st := NewStore (at_wall 5) (node 2 8) sample_member\<rparr>"

lemma sample_main3: "main_start sample_env3 = Inr (sample_member, restarted)"
proof -
  have "boot (\<lambda>_. Some (Some [10, 0, 0, 2], 5000)) (\<lambda>_. True) 8 (at_wall 5) sample_member = Inr restarted"
    by (simp add: boot_def resolveAddrPortUDP_def AddrFromSlice_def NewNodeID_def Let_def sample_world_def node_def restarted_def)
  then show ?thesis
    using sample_main2 by (auto simp: main_start_def sample_env3_def sample_env2_def sample_env_def Listen_def split: sum.splits if_splits)
qed

definition reborn :: MemberEntry where
  "reborn = \<lparr>ID = node 2 8, Incarnation = 100, EState = StateAlive, LastUpdate = at_wall 6\<rparr>"

lemma reborn_asks:
  "\<exists>j u. EncodeJoinRequest \<lparr>QList = [reborn]\<rparr> = Some j \<and> DecodeJoinRequest j = Some \<lparr>QList = [reborn]\<rparr> \<and>
     join_request (at_wall 6) [key_of (node 2 8)] restarted = (u, Some j)"
proof -
  have "timely [reborn]" "all_ipv4 [reborn]" "on_wire reborn = reborn"
    by (simp_all add: timely_def reborn_def first_instant_def last_instant_def at_wall_def all_ipv4_def on_wire_def strip_mono_def)
  then obtain j where j: "EncodeJoinRequest \<lparr>QList = [reborn]\<rparr> = Some j" "DecodeJoinRequest j = Some \<lparr>QList = [reborn]\<rparr>"
    using request_decodes [of "[reborn]"] by auto
  moreover have "\<exists>u. join_request (at_wall 6) [key_of (node 2 8)] restarted = (u, Some j)"
    using j(1) by (simp add: join_request_def Snapshot_def NewStore_def restarted_def reborn_def Let_def)
  ultimately show ?thesis by blast
qed

text \<open>The store of node 1: node 2 has joined, a scan has listed the members, node 2 has started again.\<close>

definition listed :: "MemberEntry list" where
  "listed = [\<lparr>ID = node 1 7, Incarnation = 100, EState = StateAlive, LastUpdate = at_wall 2500000000\<rparr>, sample 2 100 StateAlive 6]"

definition refilled :: Store where
  "refilled = normalizeBoot (at_wall 2500000001) (touched (at_wall 2500000000) (two_nodes sample_introducer StateAlive 6)) reborn"

lemma snapshot_listed:
  "Snapshot (at_wall 2500000000) two_keys (two_nodes sample_introducer StateAlive 6) =
     (listed, node 1 7, touched (at_wall 2500000000) (two_nodes sample_introducer StateAlive 6))"
  using Snapshot_eq [OF two_nodes_simps(5), of "at_wall 2500000000" sample_introducer StateAlive 6]
  by (simp add: touched_def listed_def two_keys_def touch_def two_nodes_entries)

lemma stores:
  "MergeFullList clk (st introducer1) [sample 2 100 StateAlive 6] = two_nodes sample_introducer StateAlive 6"
  "MergeFullList (\<lambda>_. at_wall 2500000001) (touched (at_wall 2500000000) (two_nodes sample_introducer StateAlive 6)) [reborn] = refilled"
proof -
  show "MergeFullList clk (st introducer1) [sample 2 100 StateAlive 6] = two_nodes sample_introducer StateAlive 6"
    by (simp add: introducer1_def world1_def ManagerRun_def two_nodes_def updateMemberEntry_def NewStore_def)
  have "key_of (node 2 8) = key_of (node 2 7)" by simp
  then show "MergeFullList (\<lambda>_. at_wall 2500000001) (touched (at_wall 2500000000) (two_nodes sample_introducer StateAlive 6)) [reborn] = refilled"
    by (simp add: refilled_def updateMemberEntry_def reborn_def two_nodes_entries touch_def)
qed

lemma marks:
  "scan_entry clk (at_wall 2500000000) 0 2000000000 3000000000 (refilled, n) (hd listed) = (refilled, n)"
  "entries (fst (scan_entry clk (at_wall 2500000000) 0 2000000000 3000000000 (refilled, n) (sample 2 100 StateAlive 6)))
     (key_of (node 2 8)) = Some (reborn\<lparr>EState := StateFailed, LastUpdate := at_wall 2500000001\<rparr>)"
proof -
  have i: "selfID refilled = node 1 7" by (simp add: refilled_def normalizeBoot_def)
  have k: "key_of (node 2 8) = key_of (node 2 7)" by simp
  have e: "entries refilled (key_of (node 2 7)) = Some (reborn\<lparr>LastUpdate := at_wall 2500000001\<rparr>)"
    by (simp add: refilled_def normalizeBoot_def reborn_def)
  show "scan_entry clk (at_wall 2500000000) 0 2000000000 3000000000 (refilled, n) (hd listed) = (refilled, n)"
    using i by (simp add: scan_entry_def listed_def SelfID_def Let_def)
  show "entries (fst (scan_entry clk (at_wall 2500000000) 0 2000000000 3000000000 (refilled, n) (sample 2 100 StateAlive 6)))
     (key_of (node 2 8)) = Some (reborn\<lparr>EState := StateFailed, LastUpdate := at_wall 2500000001\<rparr>)"
    using i e k by (simp add: scan_entry_def SelfID_def Let_def ApplyLocked_def apply_entry_def reborn_def
        time_Sub_def time_diff_def sat64_def add64_def at_wall_def int64_defs)
qed

text \<open>Node 2 joins, the manager of node 1 takes its snapshot, and node 2 starts again and joins.\<close>

lemma introduced:
  assumes "stage w K Q" and "accepting w" and "\<not> panicked w" and "K (Handler h) = None" and "Req j \<in> Q"
    and "DecodeJoinRequest j = Some \<lparr>QList = [e]\<rparr>"
  shows "stage (w\<lparr>st := MergeFullList clk (st w) [e]\<rparr>) (K(Handler h \<mapsto> IntroMerge [e], Handler h \<mapsto> IntroSnap)) Q"
proof (rule stage_run [where v = "at_time undefined [] clk" and j = "IntroMerge [e]"])
  have "fstep sample_introducer (Serving, w, K) {Req j} None {} (Serving, w, K(Handler h \<mapsto> IntroMerge (QList \<lparr>QList = [e]\<rparr>)))"
    by (rule fstep.introduce) (use assms in simp_all)
  from stage_begin [OF assms(1) this] assms(5) show "stage w (K(Handler h \<mapsto> IntroMerge [e])) Q" by simp
qed (simp_all add: micro_def assms(3))

lemma scan_listed:
  "\<exists>K Q. stage (introducer1\<lparr>st := touched (at_wall 2500000000) (two_nodes sample_introducer StateAlive 6)\<rparr>)
     (K(Scanner \<mapsto> ScanList (at_wall 2500000000) 0 2000000000 3000000000 True listed)) Q \<and> K (Handler 1) = None"
proof -
  let ?w = "introducer1\<lparr>st := two_nodes sample_introducer StateAlive 6\<rparr>" and ?now = "at_wall 2500000000"
  let ?K = "no_jobs(Handler 0 \<mapsto> IntroMerge [sample 2 100 StateAlive 6], Handler 0 \<mapsto> IntroSnap)"
  obtain u where u: "join_request (at_wall 6) [key_of (node 2 7)] (sample_world 2 sample_member) = (u, Some request2)"
    using member_asks by blast
  have p: "\<not> panicked introducer1" "accepting introducer1" by (simp_all add: introducer1_def)
  have "flag_ints (e_flags sample_env2)" "first_phase sample_member = Joining" "\<not> panicked (sample_world 2 sample_member)"
    by (simp_all add: flag_ints_def sample_env2_def no_flags_def first_phase_def sample_member_def Defaults_def sample_world_def)
  then have "stage introducer1 no_jobs {Req request2}" using stage_join [OF stage_open _ sample_main2 _ u] by blast
  from introduced [OF this p(2,1) _ _ request2(2), of 0] have 1: "stage ?w ?K {Req request2}"
    unfolding stores(1) by (simp add: no_jobs_def)
  have "mgr_waits ?w" and sm: "sm ?w = \<lparr>TSuspect = 0, TFail = 2000000000, TCleanup = 3000000000,
      UsePingTimeout = True, MInflight = Some 0, failMarks = 0\<rparr>"
    by (simp_all add: introducer1_def world1_def ManagerRun_def mgr_waits_def sample_world_def sample_introducer_def Defaults_def ms_def)
  have "fstep sample_introducer (Serving, ?w, ?K) {} None {} (Serving, ?w, ?K(Scanner \<mapsto> ScanSnap ?now
      (TSuspect (sm ?w)) (TFail (sm ?w)) (TCleanup (sm ?w)) (UsePingTimeout (sm ?w))))"
    by (rule fstep.scan_fires [OF _ _ \<open>mgr_waits ?w\<close>]) (simp_all add: p no_jobs_def)
  from stage_begin [OF 1 this] have 2: "stage ?w (?K(Scanner \<mapsto> ScanSnap ?now 0 2000000000 3000000000 True)) {Req request2}"
    by (simp add: sm)
  have "stage (?w\<lparr>st := touched ?now (two_nodes sample_introducer StateAlive 6)\<rparr>)
      (?K(Scanner \<mapsto> ScanSnap ?now 0 2000000000 3000000000 True, Scanner \<mapsto> ScanList ?now 0 2000000000 3000000000 True listed)) {Req request2}"
  proof (rule stage_run [OF 2, where v = "at_time ?now two_keys undefined" and j = "ScanSnap ?now 0 2000000000 3000000000 True"])
    have "find (\<lambda>e. ID e = node 1 7 \<and> EState e = StateLeft) listed = None" by (simp add: listed_def)
    then show "micro Scanner (at_time ?now two_keys undefined) (ScanSnap ?now 0 2000000000 3000000000 True) ?w =
        (?w\<lparr>st := touched ?now (two_nodes sample_introducer StateAlive 6)\<rparr>, [], Goto (ScanList ?now 0 2000000000 3000000000 True listed))"
      by (simp add: micro_def snapshot_listed)
    show "charges (ScanList ?now 0 2000000000 3000000000 True listed) \<subseteq> former"
      by (auto simp: listed_def former_def)
  qed (simp_all add: p)
  then show ?thesis by (intro exI [of _ ?K] exI [of _ "{Req request2}"]) (simp add: no_jobs_def)
qed

lemma newcomer_marked:
  "\<exists>w K Q. stage w K Q \<and> entries (st w) (key_of (node 2 8)) = Some (reborn\<lparr>EState := StateFailed, LastUpdate := at_wall 2500000001\<rparr>)"
proof -
  let ?now = "at_wall 2500000000" and ?s = "touched (at_wall 2500000000) (two_nodes sample_introducer StateAlive 6)"
  let ?w = "introducer1\<lparr>st := ?s\<rparr>" and ?w2 = "introducer1\<lparr>st := refilled\<rparr>"
  obtain K Q where 1: "stage ?w (K(Scanner \<mapsto> ScanList ?now 0 2000000000 3000000000 True listed)) Q" and h: "K (Handler 1) = None"
    using scan_listed by blast
  obtain j u where j: "DecodeJoinRequest j = Some \<lparr>QList = [reborn]\<rparr>"
    and u: "join_request (at_wall 6) [key_of (node 2 8)] restarted = (u, Some j)"
    using reborn_asks by blast
  have "flag_ints (e_flags sample_env3)" "first_phase sample_member = Joining" "\<not> panicked restarted"
    by (simp_all add: flag_ints_def sample_env3_def sample_env2_def no_flags_def first_phase_def sample_member_def Defaults_def
        restarted_def sample_world_def)
  then have 2: "stage ?w (K(Scanner \<mapsto> ScanList ?now 0 2000000000 3000000000 True listed)) (insert (Req j) Q)"
    using stage_join [OF 1 _ sample_main3 _ u] by blast
  let ?K = "K(Scanner \<mapsto> ScanList ?now 0 2000000000 3000000000 True listed, Handler 1 \<mapsto> IntroMerge [reborn], Handler 1 \<mapsto> IntroSnap)"
  have p: "accepting ?w" "\<not> panicked ?w" by (simp_all add: introducer1_def)
  have "stage (?w\<lparr>st := MergeFullList (\<lambda>_. at_wall 2500000001) ?s [reborn]\<rparr>) ?K (insert (Req j) Q)"
    using introduced [OF 2 p, of 1 j reborn "\<lambda>_. at_wall 2500000001"] j h by simp
  then have 3: "stage ?w2 ?K (insert (Req j) Q)" unfolding stores(2) by simp
  have l: "listed = hd listed # [sample 2 100 StateAlive 6]" by (simp add: listed_def)
  let ?j = "ScanList ?now 0 2000000000 3000000000 True [sample 2 100 StateAlive 6]" and ?v = "at_time ?now [] undefined"
  have sm: "failMarks (sm ?w2) = 0" by (simp add: introducer1_def world1_def ManagerRun_def sample_world_def)
  have 4: "stage ?w2 (?K(Scanner \<mapsto> ?j)) (insert (Req j) Q)"
  proof (rule stage_run [OF 3, where v = ?v and j = "ScanList ?now 0 2000000000 3000000000 True listed"])
    show "micro Scanner ?v (ScanList ?now 0 2000000000 3000000000 True listed) ?w2 = (?w2, [], Goto ?j)"
      by (subst l) (simp add: micro_def marks(1) set_marks_def)
    show "charges ?j \<subseteq> former" by (auto simp: former_def)
  qed (use p in simp_all)
  let ?w3 = "set_marks (scan_entry ?now ?now 0 2000000000 3000000000 (st ?w2, failMarks (sm ?w2)) (sample 2 100 StateAlive 6)) ?w2"
  have "stage ?w3 (?K(Scanner \<mapsto> ?j, Scanner \<mapsto> ScanList ?now 0 2000000000 3000000000 True [])) (insert (Req j) Q)"
    by (rule stage_run [OF 4, where v = ?v and j = ?j]) (use p in \<open>simp_all add: micro_def\<close>)
  moreover have "entries (st ?w3) (key_of (node 2 8)) = Some (reborn\<lparr>EState := StateFailed, LastUpdate := at_wall 2500000001\<rparr>)"
    using marks(2) by simp
  ultimately show ?thesis by blast
qed

text \<open>
  C33. A scan can fail the wrong boot. The manager judges a snapshot and then writes by endpoint, one member
  at a time, and takes the store's lock anew for each: when a member that has crashed starts again and joins
  between the two, the mark lands on the new boot. So, unlike with atomic scans, a member can be held
  Failed though no scan has found it silent, at any incarnation, and none of its answers is missing: such
  a state of the cluster is reached.
\<close>

theorem scan_fails_wrong_boot:
  "\<exists>N J w e. freach (N, J) \<and> procs N 0 = Some (sample_introducer, Serving, w) \<and>
     entries (st w) (key_of (ID e)) = Some e \<and> EState e = StateFailed \<and> ID e \<notin> fst ` accused N"
proof -
  let ?e = "reborn\<lparr>EState := StateFailed, LastUpdate := at_wall 2500000001\<rparr>"
  obtain w K Q where s: "stage w K Q" and e: "entries (st w) (key_of (node 2 8)) = Some ?e"
    using newcomer_marked by blast
  obtain N where N: "freach (N, (\<lambda>_. no_jobs)(0 := K))" "procs N 0 = Some (sample_introducer, Serving, w)"
    and "accused N \<subseteq> former" using s unfolding stage_def by blast
  then have a: "ID ?e \<notin> fst ` accused N" by (auto simp: former_def reborn_def)
  have "ID ?e = node 2 8" "EState ?e = StateFailed" by (simp_all add: reborn_def)
  with N e a show ?thesis by metis
qed

end
