(* ===== verification/Guarantee.thy ===== *)
theory Guarantee
  imports FineRefine
begin

text \<open>
  What a step of one goroutine may do to the others: most steps touch nothing that the pushing of a
  configuration reads or writes (\<open>mild\<close>); the rest are a commit, a step of \<open>push\<close>, the start of the protocol and the
  shutdown. The classification carries the properties that every process has along every interleaving.
\<close>

section \<open>Steps that leave the loops and the manager alone\<close>

text \<open>
  The objects on the heap: the addresses are below \<open>next_ref\<close>, the table that the manager watches is
  empty and no ping loop's own, and a pointer leads to a loop, which may have been stopped.
\<close>

definition objects_ok :: "World \<Rightarrow> bool" where
  "objects_ok w \<longleftrightarrow>
     MInflight (sm w) = Some (inflight w) \<and> inflight w < next_ref w \<and> tables w (inflight w) = NewInflight \<and>
     (\<forall>r l. pings w r = Some l \<longrightarrow> r < next_ref w \<and> PInflight l < next_ref w \<and> PInflight l \<noteq> inflight w) \<and>
     (\<forall>r l. gossips w r = Some l \<longrightarrow> r < next_ref w) \<and>
     (\<forall>r. loopPA w = Some r \<longrightarrow> pings w r \<noteq> None) \<and> (\<forall>r. loopGo w = Some r \<longrightarrow> gossips w r \<noteq> None)"

definition mild :: "World \<Rightarrow> World \<Rightarrow> bool" where
  "mild w w' \<longleftrightarrow> same_config w w' \<and> panicked w' = panicked w \<and> inflight w' = inflight w \<and> next_ref w' = next_ref w \<and>
     tables w' (inflight w) = tables w (inflight w) \<and> MInflight (sm w') = MInflight (sm w) \<and>
     selfID (st w') = selfID (st w) \<and> (store_inv (st w) \<longrightarrow> store_inv (st w'))"

lemma mild_refl [simp]: "mild w w"
  by (simp add: mild_def)

lemma mild_trans: "mild u v \<Longrightarrow> mild v w \<Longrightarrow> mild u w"
  using same_config_trans by (auto simp: mild_def)

lemma mild_objects: "mild w w' \<Longrightarrow> objects_ok w' = objects_ok w"
  by (simp add: mild_def same_config_def objects_ok_def)

lemma mild_store:
  "config s = config (st w) \<Longrightarrow> selfID s = selfID (st w) \<Longrightarrow> (store_inv (st w) \<Longrightarrow> store_inv s) \<Longrightarrow> mild w (w\<lparr>st := s\<rparr>)"
  by (simp add: mild_def same_config_store)

lemma mild_snapshot: "Snapshot now ord (st w) = (list, self, s) \<Longrightarrow> mild w (w\<lparr>st := s\<rparr>)"
  using snapshot_facts Snapshot_config Snapshot_frame [of now ord "st w"] by (intro mild_store) auto

lemma mild_merge [simp]: "mild w (rx_merge v m w)" "mild w (w\<lparr>st := MergeFullList clk (st w) es\<rparr>)"
  by (simp_all add: rx_merge_def mild_store store_inv_Merge)

lemma mild_apply [simp]: "mild w (w\<lparr>st := ApplyLocked now (st w) n i x\<rparr>)"
  by (simp add: mild_store store_inv_intros)

lemma mild_table: "i \<noteq> inflight w \<Longrightarrow> mild w (w\<lparr>tables := (tables w)(i := t)\<rparr>)"
  by (simp add: mild_def same_config_def)

lemma mild_sender [simp]: "mild w (with_ping_sender r f w)" "mild w (with_gossip_sender r f w)"
  by (simp_all add: mild_def) (simp_all add: with_ping_sender_def with_gossip_sender_def)

lemma mild_ended [simp]: "mild w (ended g n w)"
  by (auto simp: mild_def same_config_def ended_def split: continuation.split goroutine.split)

lemma scan_config: "config (fst (scan_entry clock now tS tF tC sn e)) = config (fst sn)"
  by (cases sn) (simp add: scan_entry_def Let_def)

lemma reap_config: "config (fst (reap_rec clock dis list sn rec)) = config (fst sn)"
  by (induction list) auto

lemma mild_marks:
  "config (fst sn) = config (st w) \<Longrightarrow> selfID (fst sn) = selfID (st w) \<Longrightarrow> (store_inv (st w) \<Longrightarrow> store_inv (fst sn)) \<Longrightarrow>
   mild w (set_marks sn w)"
  by (simp add: mild_def same_config_def set_marks_def)

section \<open>Jobs\<close>

definition is_push :: "job \<Rightarrow> bool" where
  "is_push j \<longleftrightarrow> (\<exists>x p n k. j = Push x p n k)"

lemma is_push_simps [simp]:
  "is_push (Push x p n k)" "\<not> is_push (RxConfig m)" "\<not> is_push (RxLook m)" "\<not> is_push (RxSwitch m)"
  "\<not> is_push (RxAnswer q)" "\<not> is_push (RxReply q es)" "\<not> is_push (RxMerge m)" "\<not> is_push RxHead"
  "\<not> is_push (TxSnap d f d')" "\<not> is_push (TxPing d d' es as)" "\<not> is_push (TxAdd d d' es q a as)"
  "\<not> is_push (TxGossip d es as)" "\<not> is_push (TxEnd d)" "\<not> is_push (ScanSnap t d d' d'' b)"
  "\<not> is_push (ScanList t d d' d'' b es)" "\<not> is_push (ScanReap t)" "\<not> is_push (ReapLook recs)"
  "\<not> is_push (ReapSnap b recs)" "\<not> is_push (ReapList b es recs)" "\<not> is_push (LocalCommit dto)"
  "\<not> is_push LeaveSnap" "\<not> is_push (LeaveList es)" "\<not> is_push (IntroMerge es)" "\<not> is_push IntroSnap"
  "\<not> is_push (IntroReply es)" "\<not> is_push (JoinCommit resp)" "\<not> is_push (JoinMerge es)"
  by (simp_all add: is_push_def)

text \<open>The continuation does not push.\<close>

definition plain :: "continuation \<Rightarrow> bool" where
  "plain n \<longleftrightarrow> (\<forall>j. n = Goto j \<longrightarrow> \<not> is_push j)"

definition plain_rest :: "job option \<Rightarrow> bool" where
  "plain_rest k \<longleftrightarrow> (\<forall>j. k = Some j \<longrightarrow> \<not> is_push j)"

lemma plain_simps [simp]:
  "plain (Goto j) = (\<not> is_push j)" "plain Idle" "plain Stop" "plain Exit" "plain (resume k) = plain_rest k"
  "plain_rest None" "plain_rest (Some j) = (\<not> is_push j)"
  by (auto simp: plain_def plain_rest_def resume_def split: option.split)

text \<open>A commit of the process that is accepted; everything else that a goroutine does is mild.\<close>

definition commits :: "World \<Rightarrow> World \<Rightarrow> continuation \<Rightarrow> bool" where
  "commits w w' n \<longleftrightarrow> w' = w\<lparr>cfg := cfg w'\<rparr> \<and> (\<exists>d. ApplyDTO (cfg w) d = (cfg w', Inr True)) \<and>
     (\<exists>k. n = Goto (Push Choose (cfg w) (cfg w') k) \<and> plain_rest k)"

definition gentle :: "World \<Rightarrow> World \<times> packet list \<times> continuation \<Rightarrow> bool" where
  "gentle w r \<longleftrightarrow> mild w (fst r) \<and> plain (snd (snd r)) \<or> commits w (fst r) (snd (snd r))"

lemma gentleI: "mild w w' \<Longrightarrow> plain n \<Longrightarrow> gentle w (w', out, n)"
  by (simp add: gentle_def)

lemma commit_gentle:
  assumes "plain_rest k"
  shows "gentle w (commit_then k w (commit_remote d w))" and "gentle w (commit_then k w (commit_local d w))"
proof -
  have r: "gentle w (commit_then k w (w\<lparr>cfg := fst a\<rparr>, snd a))" if a: "a = ApplyDTO (cfg w) d" for a d
  proof (cases "snd a = Inr True")
    case True
    then have "ApplyDTO (cfg w) d = (fst a, Inr True)" using a by (metis prod.collapse)
    with True assms show ?thesis by (auto simp: commit_then_def gentle_def commits_def)
  next
    case False
    then have "fst a = cfg w" using a ApplyDTO_version by blast
    with False assms show ?thesis by (simp add: commit_then_def gentle_def)
  qed
  show "gentle w (commit_then k w (commit_remote d w))"
    using r by (simp add: commit_remote_def ApplyRemote_def split_beta)
  show "gentle w (commit_then k w (commit_local d w))"
    using r by (simp add: commit_local_def BumpAndApplyLocal_def split_beta)
qed

section \<open>The goroutines\<close>

lemma rx_gentle: "gentle w (rx_config m w)" "gentle w (rx_look v m w)"
  using mild_snapshot [of "v_time v" "v_ord v" w]
  by (auto simp: rx_config_def rx_look_def commit_gentle intro!: gentleI split: option.split prod.split)

lemma table_kept_own: "objects_ok w \<Longrightarrow> pings w r \<noteq> None \<Longrightarrow> PInflight (get_ping (ping_at r) w) \<noteq> inflight w"
  by (auto simp: objects_ok_def ping_at_def)

lemma ping_rx_gentle:
  assumes "objects_ok w" and "pings w r \<noteq> None"
  shows "gentle w (ping_rx r v j w)"
  using table_kept_own [OF assms] mild_snapshot [of "v_time v" "v_ord v" w]
  by (cases "(r, v, j, w)" rule: ping_rx.cases)
    (auto simp: rx_gentle Let_def mild_table intro!: gentleI split: prod.split)

lemma gossip_rx_gentle: "gentle w (gossip_rx r v j w)"
  by (cases "(r, v, j, w)" rule: gossip_rx.cases) (auto simp: rx_gentle intro!: gentleI)

lemma ping_tx_gentle:
  assumes "objects_ok w" and "pings w r \<noteq> None"
  shows "gentle w (ping_tx r v j w)"
  using table_kept_own [OF assms] mild_snapshot [of "v_time v" "v_ord v" w]
  by (cases "(r, v, j, w)" rule: ping_tx.cases)
    (auto simp: Let_def mild_table intro!: gentleI split: prod.split option.split)

lemma gossip_tx_gentle: "gentle w (gossip_tx r v j w)"
  using mild_snapshot [of "v_time v" "v_ord v" w]
  by (cases "(r, v, j, w)" rule: gossip_tx.cases) (auto simp: Let_def intro!: gentleI split: prod.split)

lemma after_scan_plain [simp]: "plain (after_scan now u w)"
  by (simp add: after_scan_def)

lemma Expired_empty: "Expired now ord NewInflight = (NewInflight, [])"
  by (induction ord) (simp_all add: Expired_def NewInflight_def)

lemma scanner_gentle:
  assumes "objects_ok w"
  shows "gentle w (scanner v j w)"
proof (cases "(v, j, w)" rule: scanner.cases)
  case (4 v' now w')
  then have "MInflight (sm w) = Some (inflight w)" "tables w (inflight w) = NewInflight"
    using assms by (simp_all add: objects_ok_def)
  moreover from this(2) have "(tables w)(inflight w := NewInflight) = tables w" by auto
  ultimately show ?thesis using 4 by (auto simp: Expired_empty intro!: gentleI)
next
  case (3 v' now tS tF tC u e es w')
  then show ?thesis by (auto simp: scan_config scan_store intro!: gentleI mild_marks)
next
  case (8 v' dis es rec recs w')
  then show ?thesis by (auto simp: reap_config reap_store intro!: gentleI mild_marks)
qed (use mild_snapshot [of "v_time v" "v_ord v" w] in \<open>auto simp: Let_def intro!: gentleI split: prod.split option.split\<close>)

lemma server_gentle: "gentle w (server v j w)"
  using mild_snapshot [of "v_time v" "v_ord v" w]
  by (cases "(v, j, w)" rule: server.cases)
    (auto simp: commit_gentle intro!: gentleI split: prod.split)

lemma micro_gentle:
  assumes "objects_ok w" and "has_loop g w" and "\<not> is_push j"
  shows "gentle w (micro g v j w)"
proof -
  have m: "micro g v j w = (case g of PingRx r \<Rightarrow> ping_rx r v j w | GossipRx r \<Rightarrow> gossip_rx r v j w
      | PingTx r \<Rightarrow> ping_tx r v j w | GossipTx r \<Rightarrow> gossip_tx r v j w | Scanner \<Rightarrow> scanner v j w | _ \<Rightarrow> server v j w)"
    using assms(3) unfolding micro_def by (auto split: job.split)
  show ?thesis
    using assms(1,2) unfolding m
    by (cases g) (simp_all add: has_loop_def ping_rx_gentle gossip_rx_gentle ping_tx_gentle gossip_tx_gentle
        scanner_gentle server_gentle)
qed

section \<open>A step of the process\<close>

definition same_pushes :: "jobs \<Rightarrow> jobs \<Rightarrow> bool" where
  "same_pushes J J' \<longleftrightarrow> (\<forall>g j. is_push j \<longrightarrow> (J' g = Some j \<longleftrightarrow> J g = Some j))"

lemma same_pushes_refl [simp]: "same_pushes J J"
  by (simp add: same_pushes_def)

lemma same_pushes_next: "(\<forall>j. J g = Some j \<longrightarrow> \<not> is_push j) \<Longrightarrow> plain n \<Longrightarrow> same_pushes J (J(g := job_next n))"
  by (auto simp: same_pushes_def plain_def job_next_def split: continuation.splits)

lemma same_pushes_put: "J g = None \<Longrightarrow> \<not> is_push j \<Longrightarrow> same_pushes J (J(g \<mapsto> j))"
  by (auto simp: same_pushes_def)

text \<open>Before the protocol is started, the main goroutine goes from phase to phase as it joins.\<close>

definition joins :: "phase \<Rightarrow> phase \<Rightarrow> bool" where
  "joins ph ph' \<longleftrightarrow> ph' = ph \<or> (ph, ph') \<in> {(Joining, Asked), (Asked, Joining), (Asked, Booted)}"

lemma joins_refl [simp]: "joins ph ph"
  by (simp add: joins_def)

lemma joins_next [simp]: "joins ph (phase_next g n ph)"
  by (simp add: joins_def phase_next_def)

inductive effect :: "Config \<Rightarrow> phase \<times> World \<times> jobs \<Rightarrow> phase \<times> World \<times> jobs \<Rightarrow> bool" for c0 :: Config where
  quiet: "mild w w' \<Longrightarrow> same_pushes J J' \<Longrightarrow> joins ph ph' \<Longrightarrow> effect c0 (ph, w, J) (ph', w', J')"
| commit: "J g = Some j \<Longrightarrow> \<not> is_push j \<Longrightarrow> commits w w' n \<Longrightarrow> effect c0 (ph, w, J) (ph, w', J(g := job_next n))"
| push: "J g = Some (Push x p n k) \<Longrightarrow> micro g v (Push x p n k) w = (w', out, m) \<Longrightarrow>
    effect c0 (ph, w, J) (phase_next g m ph, w', J(g := job_next m))"
| serve: "effect c0 (Booted, w, J) (Serving, startProtocol c0 w, J)"
| shutdown: "mgr_stop w = Some False \<Longrightarrow> effect c0 (Serving, w, J) (Closed, Close w, J)"

inductive_cases effectE: "effect c0 (ph, w, J) (ph', w', J')"

lemmas effect_cases = effectE [consumes 1, case_names quiet commit push serve shutdown]

lemma solo_effect:
  assumes "solo_step c0 g p outs q" and "p = (ph, w)" and "q = (ph', w')"
  shows "effect c0 (ph, w, J) (ph', w', J)"
  using assms
proof (induction rule: solo_step.induct)
  case (rate v ph1)
  then show ?case by (auto intro!: effect.quiet simp: mild_def same_config_def rate_tick_def)
next
  case (join_fails snap ord v v')
  then show ?case
    using mild_snapshot [of snap ord v] by (auto simp: join_request_def intro!: effect.quiet split: prod.splits)
next
  case (join_asks snap ord v v' j)
  then show ?case
    using mild_snapshot [of snap ord v]
    by (auto simp: join_request_def joins_def intro!: effect.quiet split: prod.splits)
next
  case (introducer listensTCP v v' ph1)
  then show ?case
    by (auto simp: startIntroducerServer_def mild_def same_config_def intro!: effect.quiet split: if_splits)
next
  case (list_mem h v snap ord)
  then show ?case
    using mild_snapshot [of snap ord v] by (auto simp: http_list_mem_def intro!: effect.quiet split: prod.splits)
next
  case (suspects h v snap ord)
  then show ?case
    using mild_snapshot [of snap ord v] by (auto simp: http_display_suspects_def intro!: effect.quiet split: prod.splits)
next
  case (manager v ph1)
  then show ?case by (auto intro!: effect.quiet simp: mild_def same_config_def ManagerRun_def)
next
  case (manager_end v ph1)
  then show ?case by (auto intro!: effect.quiet simp: mild_def same_config_def ManagerEnd_def)
qed (auto intro!: effect.serve effect.shutdown effect.quiet simp: joins_def)

lemma fstep_effect:
  assumes "fstep c0 (ph, w, J) ins j outs (ph', w', J')" and "objects_ok w" and "loops_ok w J"
  shows "effect c0 (ph, w, J) (ph', w', J')"
  using assms(1)
proof (cases rule: fstep.cases)
  case (run g j' v w1 out n)
  have l: "has_loop g w" using assms(3) run(8) by (simp add: loops_ok_def)
  show ?thesis
  proof (cases "is_push j'")
    case True
    then obtain x p k q where j: "j' = Push x p q k" by (auto simp: is_push_def)
    with run(9) have "n \<noteq> Stop" by (auto simp: micro_def resume_def split: prod.splits option.splits)
    then have "ended g n w1 = w1" by (simp add: ended_def split: continuation.split)
    with run j show ?thesis using effect.push [of J g x p q k v w w1 out n c0 ph] by simp
  next
    case False
    from micro_gentle [OF assms(2) l this, of v] run(9)
    consider "mild w w1" "plain n" | "commits w w1 n" by (auto simp: gentle_def)
    then show ?thesis
    proof cases
      case 1
      have "mild w (ended g n w1)" using mild_trans [OF 1(1)] by simp
      with 1 False run show ?thesis by (auto intro!: effect.quiet same_pushes_next)
    next
      case 2
      then have "ended g n w1 = w1" "phase_next g n ph = ph" by (auto simp: commits_def)
      with 2 False run show ?thesis using effect.commit [of J g j' w w1 n c0 ph] by simp
    qed
  qed
next
  case (solo g)
  then show ?thesis using solo_effect by blast
next
  case (ping_arrive r inp input coin n)
  have "plain n" unfolding ping_arrive(11) [symmetric] by (simp add: arrival_def split: read.split option.split)
  with ping_arrive show ?thesis by (auto intro!: effect.quiet same_pushes_next)
next
  case (gossip_arrive r inp input coin n)
  have "plain n" unfolding gossip_arrive(11) [symmetric] by (simp add: arrival_def split: read.split option.split)
  with gossip_arrive show ?thesis by (auto intro!: effect.quiet same_pushes_next)
qed (auto intro!: effect.quiet same_pushes_put)

end
