(* ===== verification/FineSafe.thy ===== *)
theory FineSafe
  imports Guarantee
begin

text \<open>
  What holds of a process along every interleaving of its goroutines, whatever packets arrive: its configuration stays
  valid, its bootstrap settings and its identity stay, its loops keep positive periods, and it panics only
  where a pointer to a loop has been changed, or the loop closed, by another goroutine.
\<close>

section \<open>Pushing\<close>

lemma objects_stop: "objects_ok w \<Longrightarrow> objects_ok (stopPingAck w)" "objects_ok w \<Longrightarrow> objects_ok (stopGossip w)"
  by (auto simp: objects_ok_def stopPingAck_def stopGossip_def PingClose_def GossipClose_def bind_eq_Some_conv
      split: option.splits if_splits)

lemma objects_create: "objects_ok w \<Longrightarrow> objects_ok (create_loop c w)"
  by (auto simp: objects_ok_def create_loop_def Let_def NewPingAck_def PingSetConfigDTO_def intro: less_SucI)

lemma objects_start: "objects_ok w \<Longrightarrow> objects_ok (startProtocol c w)"
  by (simp add: start_created objects_create objects_stop)

lemma close_forms:
  "close_ping w = Some w' \<Longrightarrow> \<exists>r. w' = w\<lparr>pings := (pings w)(r := map_option (PStop_update (\<lambda>_. True)) (pings w r))\<rparr>"
  "close_gossip w = Some w' \<Longrightarrow> \<exists>r. w' = w\<lparr>gossips := (gossips w)(r := map_option (GStop_update (\<lambda>_. True)) (gossips w r))\<rparr>"
proof -
  show "\<exists>r. w' = w\<lparr>pings := (pings w)(r := map_option (PStop_update (\<lambda>_. True)) (pings w r))\<rparr>" if c: "close_ping w = Some w'"
  proof -
    obtain r l where r: "loopPA w = Some r" "pings w r = Some l"
      using c by (cases "loopPA w"; cases "pings w (the (loopPA w))") (simp_all add: close_ping_def)
    then have "w' = w\<lparr>pings := (pings w)(r := map_option (PStop_update (\<lambda>_. True)) (pings w r))\<rparr>"
      using c by (simp add: close_ping_def PingClose_def split: if_splits)
    then show ?thesis by blast
  qed
  show "\<exists>r. w' = w\<lparr>gossips := (gossips w)(r := map_option (GStop_update (\<lambda>_. True)) (gossips w r))\<rparr>" if c: "close_gossip w = Some w'"
  proof -
    obtain r l where r: "loopGo w = Some r" "gossips w r = Some l"
      using c by (cases "loopGo w"; cases "gossips w (the (loopGo w))") (simp_all add: close_gossip_def)
    then have "w' = w\<lparr>gossips := (gossips w)(r := map_option (GStop_update (\<lambda>_. True)) (gossips w r))\<rparr>"
      using c by (simp add: close_gossip_def GossipClose_def split: if_splits)
    then show ?thesis by blast
  qed
qed

lemma objects_loops:
  "(\<And>l. PInflight (f l) = PInflight l) \<Longrightarrow> objects_ok w \<Longrightarrow> objects_ok (w\<lparr>pings := (pings w)(r := map_option f (pings w r))\<rparr>)"
  "objects_ok w \<Longrightarrow> objects_ok (w\<lparr>gossips := (gossips w)(r := map_option g (gossips w r))\<rparr>)"
  by (auto simp: objects_ok_def)

lemma objects_close:
  "close_ping w = Some w' \<Longrightarrow> objects_ok w \<Longrightarrow> objects_ok w'" "close_gossip w = Some w' \<Longrightarrow> objects_ok w \<Longrightarrow> objects_ok w'"
  using close_forms(1) [of w w'] close_forms(2) [of w w'] objects_loops(1) [of "PStop_update (\<lambda>_. True)" w] objects_loops(2) [of w]
  by auto

lemma objects_reconfigure: "objects_ok w \<Longrightarrow> objects_ok (reconfigurePing c w)" "objects_ok w \<Longrightarrow> objects_ok (reconfigureGossip c w)"
  by (simp_all add: reconfigurePing_def reconfigureGossip_def objects_loops PingReconfigure_def split: option.split)

lemma objects_panic: "objects_ok w \<Longrightarrow> (\<And>w'. x = Some w' \<Longrightarrow> objects_ok w') \<Longrightarrow> objects_ok (fst (or_panic w x y))"
  by (cases x) (simp_all add: or_panic_def objects_ok_def)

lemma objects_step:
  assumes "objects_ok w"
  shows "objects_ok (fst (push_step prev n x w))"
proof (cases x)
  case CloseOther
  then show ?thesis using assms objects_close by (simp add: objects_panic)
next
  case Create
  then show ?thesis using assms by (simp add: objects_create)
next
  case Tune
  then show ?thesis using assms objects_reconfigure by (auto intro!: objects_panic split: if_splits)
next
  case SetGo
  then show ?thesis using assms by (auto intro!: objects_panic objects_loops)
next
  case SetPA
  then show ?thesis using assms by (auto intro!: objects_panic objects_loops simp: PingSetConfigDTO_def)
qed (use assms in \<open>auto simp: objects_ok_def ManagerReconfigure_def Reset_def NewInflight_def\<close>)

lemma evolves_create:
  assumes "objects_ok w" and "ValidateClusterParams c = None"
  shows "evolves w (create_loop c w)"
proof -
  have f: "pings w r = None" "gossips w r = None" if "next_ref w \<le> r" for r
    using assms(1) that by (auto simp: objects_ok_def) (metis leD not_None_eq)+
  show ?thesis
    using valid_knobs [OF assms(2)] f mode_cases [OF assms(2)]
    by (auto simp: create_loop_def Let_def NewPingAck_def NewGossip_def PingSetConfigDTO_def GossipSetConfigDTO_def
        intro!: evolves_new_ping evolves_new_gossip)
qed

lemma evolves_created:
  assumes "objects_ok w" and "ValidateClusterParams c = None"
  shows "evolves w (startProtocol c w)"
proof -
  have "evolves (stopGossip w) (create_loop c (stopGossip w))" "evolves (stopPingAck w) (create_loop c (stopPingAck w))"
    using assms by (simp_all add: evolves_create objects_stop)
  then have "evolves w (create_loop c (stopGossip w))" "evolves w (create_loop c (stopPingAck w))"
    using evolves_stop evolves_trans by blast+
  then show ?thesis using evolves_create [OF assms] by (simp add: start_created)
qed

lemma evolves_close:
  "close_ping w = Some w' \<Longrightarrow> evolves w w'" "close_gossip w = Some w' \<Longrightarrow> evolves w w'"
  by (drule close_forms; auto simp: ping_later_def gossip_later_def intro!: evolves_update_ping evolves_update_gossip)+

lemma evolves_step:
  assumes "objects_ok w" and "ValidateClusterParams n = None"
  shows "evolves w (fst (push_step prev n x w))"
proof (cases x)
  case CloseOther
  then show ?thesis using evolves_close by (auto simp: or_panic_def intro: evolves_frame split: option.split)
next
  case Create
  then show ?thesis using evolves_create [OF assms] by simp
next
  case Tune
  then show ?thesis using evolves_reconfigure [OF assms(2)] by (auto simp: or_panic_def intro: evolves_frame)
next
  case SetGo
  then show ?thesis
    by (auto simp: or_panic_def GossipSetConfigDTO_def gossip_later_def intro: evolves_frame intro!: evolves_update_gossip
        split: option.split)
next
  case SetPA
  then show ?thesis
    by (auto simp: or_panic_def PingSetConfigDTO_def ping_later_def intro: evolves_frame intro!: evolves_update_ping
        split: option.split)
qed (auto intro: evolves_frame)

lemma step_frames:
  "cfg (fst (push_step prev n x w)) = cfg w" "selfID (st (fst (push_step prev n x w))) = selfID (st w)"
  "store_inv (st w) \<Longrightarrow> store_inv (st (fst (push_step prev n x w)))"
proof -
  have "cfg (fst (or_panic w y z)) = (case y of None \<Rightarrow> cfg w | Some w' \<Rightarrow> cfg w')" for y z
    by (simp add: or_panic_def split: option.split)
  then show "cfg (fst (push_step prev n x w)) = cfg w"
    by (cases x) (auto simp: create_loop_def Let_def dest: close_form split: option.split)
  show "selfID (st (fst (push_step prev n x w))) = selfID (st w)" using push_step_store by simp
  have "entries (st (fst (push_step prev n x w))) = entries (st w)" using push_step_store by simp
  then show "store_inv (st w) \<Longrightarrow> store_inv (st (fst (push_step prev n x w)))" by (simp add: store_inv_def)
qed

section \<open>The invariant of a process\<close>

definition proc_safe :: "Config \<Rightarrow> World \<Rightarrow> bool" where
  "proc_safe c w \<longleftrightarrow> ValidateClusterParams (cfg w) = None \<and> adopt c (cfg w) = cfg w \<and> store_inv (st w) \<and> tuned w \<and>
     objects_ok w"

definition pushes_ok :: "jobs \<Rightarrow> bool" where
  "pushes_ok J \<longleftrightarrow> (\<forall>g x p n k. J g = Some (Push x p n k) \<longrightarrow> ValidateClusterParams n = None \<and> plain_rest k)"

definition onward :: "World \<Rightarrow> World \<Rightarrow> bool" where
  "onward w w' \<longleftrightarrow> selfID (st w') = selfID (st w) \<and> cVersion (cfg w) \<le> cVersion (cfg w')"

lemma pushes_same: "pushes_ok J \<Longrightarrow> same_pushes J J' \<Longrightarrow> pushes_ok J'"
  unfolding pushes_ok_def same_pushes_def by (metis is_push_simps(1))

lemma mild_safe: "mild w w' \<Longrightarrow> proc_safe c w \<Longrightarrow> proc_safe c w' \<and> onward w w'"
  using mild_objects [of w w'] evolves_same [of w w'] evolvesD(5)
  by (auto simp: proc_safe_def onward_def mild_def) (simp_all add: same_config_def)

lemma commitsE:
  assumes "commits w w' n"
  obtains a d k where "w' = w\<lparr>cfg := a\<rparr>" and "ApplyDTO (cfg w) d = (a, Inr True)"
    and "n = Goto (Push Choose (cfg w) a k)" and "plain_rest k"
proof -
  obtain d k where d: "w' = w\<lparr>cfg := cfg w'\<rparr>" "ApplyDTO (cfg w) d = (cfg w', Inr True)"
      "n = Goto (Push Choose (cfg w) (cfg w') k)" "plain_rest k"
    using assms unfolding commits_def by blast
  then show ?thesis by (rule that)
qed

lemma commits_safe:
  assumes "commits w w' n" and "proc_safe c w"
  shows "proc_safe c w'" and "onward w w'" and "ValidateClusterParams (cfg w') = None"
proof -
  obtain a d where d: "w' = w\<lparr>cfg := a\<rparr>" "ApplyDTO (cfg w) d = (a, Inr True)" using assms(1) by (rule commitsE)
  then have v: "ValidateClusterParams a = None"
    using ApplyDTO_valid [of "cfg w" d] assms(2) by (simp add: proc_safe_def)
  then show "ValidateClusterParams (cfg w') = None" using d by simp
  have "adopt c a = a" using adopt_bootstrap [of c "cfg w" d] assms(2) d(2) by (simp add: proc_safe_def)
  with v assms(2) show "proc_safe c w'" by (simp add: d(1) proc_safe_def objects_ok_def tuned_def)
  show "onward w w'" using ApplyDTO_version [of "cfg w" d] d by (simp add: onward_def)
qed

lemma micro_push:
  assumes "micro g v (Push x p n k) w = (w', out, m)"
  shows "w' = (case snd (push_step p n x w) of None \<Rightarrow> recovered g (fst (push_step p n x w)) | Some y \<Rightarrow> fst (push_step p n x w))"
    and "m = (case snd (push_step p n x w) of None \<Rightarrow> resume k | Some y \<Rightarrow> Goto (Push y p n k))" and "out = []"
  using assms by (auto simp: micro_def split: prod.splits option.splits)

lemma recovered_frames [simp]:
  "objects_ok (recovered g w) = objects_ok w" "tuned (recovered g w) = tuned w"
  by (simp_all add: recovered_def objects_ok_def tuned_def split: goroutine.split)

lemma push_safe:
  assumes "micro g v (Push x p n k) w = (w', out, m)" and "proc_safe c w" and "ValidateClusterParams n = None"
  shows "proc_safe c w' \<and> onward w w'"
proof -
  let ?w = "fst (push_step p n x w)"
  have "tuned ?w" "objects_ok ?w"
    using assms(2,3) evolvesD(5) [OF evolves_step] objects_step by (simp_all add: proc_safe_def)
  then have "proc_safe c ?w \<and> onward w ?w" using assms(2) step_frames by (simp add: proc_safe_def onward_def)
  then show ?thesis
    using micro_push(1) [OF assms(1)] by (auto simp: proc_safe_def onward_def split: option.splits)
qed

lemma pushes_next:
  assumes "micro g v (Push x p n k) w = (w', out, m)" and "pushes_ok J" and "J g = Some (Push x p n k)"
  shows "pushes_ok (J(g := job_next m))"
  using assms micro_push(2) [OF assms(1)]
  by (auto simp: pushes_ok_def job_next_def resume_def plain_rest_def is_push_def split: option.splits)

lemma Close_evolves: "evolves w (Close w)"
proof -
  have "evolves (stopGossip (stopPingAck w)) (Close w)"
    by (rule evolves_frame) (simp_all add: Close_def Let_def split: option.split)
  then show ?thesis using evolves_stop evolves_trans by blast
qed

lemma Close_frames: "cfg (Close w) = cfg w" "st (Close w) = st w" "objects_ok w \<Longrightarrow> objects_ok (Close w)"
proof -
  show "cfg (Close w) = cfg w" "st (Close w) = st w" by (simp_all add: Close_def Let_def split: option.split)
  have "objects_ok w \<Longrightarrow> objects_ok (stopGossip (stopPingAck w))" by (simp add: objects_stop)
  then show "objects_ok w \<Longrightarrow> objects_ok (Close w)"
    by (simp add: Close_def Let_def objects_ok_def split: option.split)
qed

lemma effect_safe:
  assumes "effect c (ph, w, J) (ph', w', J')" and "proc_safe c w" and "pushes_ok J" and "ValidateClusterParams c = None"
  shows "proc_safe c w' \<and> onward w w' \<and> pushes_ok J'"
  using assms(1)
proof (cases rule: effect_cases)
  case quiet
  then show ?thesis using mild_safe [OF _ assms(2)] pushes_same [OF assms(3)] by blast
next
  case (commit g j n)
  have "ValidateClusterParams (cfg w') = None" by (rule commits_safe(3) [OF _ assms(2)]) (rule commit)
  then have "pushes_ok (J(g := job_next n))" using commit assms(3) by (auto simp: commits_def pushes_ok_def)
  then show ?thesis using commit commits_safe [OF _ assms(2)] by blast
next
  case (push g x p n k v out m)
  then show ?thesis
    using push_safe [OF _ assms(2)] pushes_next [OF _ assms(3)] assms(3) unfolding pushes_ok_def by metis
next
  case serve
  then show ?thesis
    using assms(2-4) objects_start [of w c] evolvesD(5) [OF evolves_created]
    by (simp add: proc_safe_def onward_def)
next
  case shutdown
  then show ?thesis
    using assms(2,3) Close_frames evolvesD(5) [OF Close_evolves] by (simp add: proc_safe_def onward_def)
qed

section \<open>Runs\<close>

lemma fstep_safe:
  assumes "fstep c (ph, w, J) ins j outs (ph', w', J')" and "proc_safe c w" and "loops_ok w J" and "pushes_ok J"
    and "ValidateClusterParams c = None"
  shows "proc_safe c w' \<and> loops_ok w' J' \<and> pushes_ok J' \<and> onward w w'"
proof -
  have "objects_ok w" using assms(2) by (simp add: proc_safe_def)
  from effect_safe [OF fstep_effect [OF assms(1) this assms(3)] assms(2,4,5)] fstep_loops [OF assms(1,3)]
  show ?thesis by simp
qed

lemma onward_trans: "onward u v \<Longrightarrow> onward v w \<Longrightarrow> onward u w"
  by (simp add: onward_def)

lemma fruns_safe:
  assumes "fruns c P x outs y" and "ValidateClusterParams c = None"
    and "x = (ph, w, J)" and "proc_safe c w" and "loops_ok w J" and "pushes_ok J" and "y = (ph', w', J')"
  shows "proc_safe c w' \<and> loops_ok w' J' \<and> pushes_ok J' \<and> onward w w'"
  using assms
proof (induction arbitrary: ph w J rule: fruns.induct)
  case (rest x)
  then show ?case by (simp add: onward_def)
next
  case (go x ins j out y outs z)
  obtain ph1 w1 J1 where y: "y = (ph1, w1, J1)" by (metis prod.exhaust)
  have "proc_safe c w1 \<and> loops_ok w1 J1 \<and> pushes_ok J1 \<and> onward w w1"
    using fstep_safe [of c ph w J ins j out ph1 w1 J1] go.hyps(1) go.prems y by simp
  then show ?case using go.IH [OF go.prems(1) y] go.prems(6) onward_trans by blast
qed

lemma boot_safe:
  assumes "boot r l t now c = Inr w" and "ValidateClusterParams c = None"
  shows "proc_safe c w" and "loops_ok w no_jobs" and "pushes_ok no_jobs"
proof -
  have "daemon_inv w" by (rule boot_inv [OF assms])
  moreover have "adopt c (cfg w) = cfg w" using boot_cfg [OF assms(1)] by simp
  moreover have "fresh_boot c w" by (rule boot_fresh [OF assms(1)])
  ultimately show "proc_safe c w" "loops_ok w no_jobs"
    by (simp_all add: proc_safe_def daemon_inv_def heap_inv_def objects_ok_def tuned_def fresh_boot_def loops_ok_def no_jobs_def)
qed (simp add: pushes_ok_def no_jobs_def)

lemma main_safe:
  assumes "main_start v = Inr (c, w0)" and "fruns c P (first_phase c, w0, no_jobs) outs (ph, w, J)"
  shows "proc_safe c w" and "loops_ok w J" and "pushes_ok J" and "onward w0 w"
proof -
  note f = main_start_facts [OF assms(1)]
  have c: "ValidateClusterParams c = None" using flags_fields [OF f(1)] by simp
  show "proc_safe c w" "loops_ok w J" "pushes_ok J" "onward w0 w"
    using fruns_safe [OF assms(2) c refl boot_safe [OF f(2) c] refl] by simp_all
qed

section \<open>Panics\<close>

text \<open>The pointer does not lead to a loop that runs.\<close>

definition stale_ping :: "World \<Rightarrow> bool" where
  "stale_ping w \<longleftrightarrow> loopPA w = None \<or> (\<exists>r l. loopPA w = Some r \<and> pings w r = Some l \<and> PStop l)"

definition stale_gossip :: "World \<Rightarrow> bool" where
  "stale_gossip w \<longleftrightarrow> loopGo w = None \<or> (\<exists>r l. loopGo w = Some r \<and> gossips w r = Some l \<and> GStop l)"

lemma close_fails:
  assumes "objects_ok w"
  shows "close_ping w = None \<longleftrightarrow> stale_ping w" and "close_gossip w = None \<longleftrightarrow> stale_gossip w"
proof -
  show "close_ping w = None \<longleftrightarrow> stale_ping w"
    using assms by (cases "loopPA w") (auto simp: objects_ok_def close_ping_def stale_ping_def PingClose_def split: if_splits)
  show "close_gossip w = None \<longleftrightarrow> stale_gossip w"
    using assms by (cases "loopGo w") (auto simp: objects_ok_def close_gossip_def stale_gossip_def GossipClose_def split: if_splits)
qed

lemma stop_panics:
  assumes "objects_ok w"
  shows "panicked (stopPingAck w) \<Longrightarrow> panicked w \<or> loopPA w \<noteq> None \<and> stale_ping w"
    and "panicked (stopGossip w) \<Longrightarrow> panicked w \<or> loopGo w \<noteq> None \<and> stale_gossip w"
  using assms by (auto simp: objects_ok_def stopPingAck_def stopGossip_def stale_ping_def stale_gossip_def PingClose_def
      GossipClose_def split: option.splits if_splits)

lemma create_panicked [simp]: "panicked (create_loop c w) = panicked w"
  by (simp add: create_loop_def Let_def)

text \<open>Where a goroutine finds that another one has been at work on the pointer it has looked at.\<close>

definition disturbed :: "push \<Rightarrow> Config \<Rightarrow> World \<Rightarrow> bool" where
  "disturbed x n w \<longleftrightarrow>
     x = CloseOther \<and> (if cMode n = ModePingAck then stale_gossip w else stale_ping w) \<or>
     x = Tune \<and> (if cMode n = ModePingAck then loopPA w else loopGo w) = None \<or>
     x = SetGo \<and> loopGo w = None \<or> x = SetPA \<and> loopPA w = None"

lemma or_panic_panics:
  "panicked (fst (or_panic w y z)) \<Longrightarrow> (\<And>w'. y = Some w' \<Longrightarrow> panicked w' = panicked w) \<Longrightarrow>
   panicked w \<or> y = None \<and> snd (or_panic w y z) = None"
  by (cases y) (simp_all add: or_panic_def)

lemma close_panicked:
  "close_ping w = Some w' \<Longrightarrow> panicked w' = panicked w" "close_gossip w = Some w' \<Longrightarrow> panicked w' = panicked w"
  by (drule close_forms; auto)+

lemma reconfigure_panicked [simp]:
  "panicked (reconfigurePing c w) = panicked w" "panicked (reconfigureGossip c w) = panicked w"
  by (simp_all add: reconfigurePing_def reconfigureGossip_def split: option.split)

lemma push_panics:
  assumes "panicked (fst (push_step p n x w))" and "objects_ok w"
  shows "panicked w \<or> disturbed x n w \<and> snd (push_step p n x w) = None"
proof (cases x)
  case CloseOther
  let ?y = "if cMode n = ModePingAck then close_gossip w else close_ping w"
  have "panicked v = panicked w" if "?y = Some v" for v using that close_panicked by (simp split: if_splits)
  from or_panic_panics [of w ?y "Some ClearOther", OF _ this]
  have "panicked w \<or> ?y = None \<and> snd (or_panic w ?y (Some ClearOther)) = None" using assms(1) CloseOther by simp
  with CloseOther show ?thesis using close_fails [OF assms(2)] by (auto simp: disturbed_def)
next
  case Tune
  then show ?thesis using assms(1) by (auto simp: disturbed_def or_panic_def split: if_splits)
next
  case SetGo
  then show ?thesis using assms(1) by (auto simp: disturbed_def or_panic_def split: option.splits)
next
  case SetPA
  then show ?thesis using assms(1) by (auto simp: disturbed_def or_panic_def split: option.splits)
next
  case ClearOther
  then show ?thesis using assms(1) by (auto split: if_splits)
qed (use assms(1) in auto)

lemma Close_panics:
  assumes "panicked (Close w)" and "mgr_stop w = Some False" and "objects_ok w" and "\<not> panicked w"
  shows "loopPA w \<noteq> None \<and> stale_ping w \<or> loopGo w \<noteq> None \<and> stale_gossip w"
proof -
  have p: "panicked (stopGossip (stopPingAck w))" using assms(1,2) by (simp add: Close_def Let_def)
  have g: "gossips (stopPingAck w) = gossips w" by (simp add: stopPingAck_def split: option.split)
  then have "stale_gossip (stopPingAck w) = stale_gossip w" by (simp add: stale_gossip_def)
  with stop_panics(2) [OF objects_stop(1) [OF assms(3)] p] stop_panics(1) [OF assms(3)] assms(4) show ?thesis by auto
qed

lemma recovered_panicked: "panicked (recovered g w) \<Longrightarrow> recovered g w = w \<and> (\<forall>h. g \<noteq> Handler h)"
  by (cases g) (simp_all add: recovered_def)

lemma mild_panicked: "mild w w' \<Longrightarrow> panicked w' = panicked w"
  by (simp add: mild_def)

lemma fstep_panics:
  assumes "fstep c (ph, w, J) ins j outs (ph', w', J')" and "proc_safe c w" and "loops_ok w J" and "panicked w'"
  shows "(\<exists>g x p n k. J g = Some (Push x p n k) \<and> (\<forall>h. g \<noteq> Handler h) \<and> disturbed x n w \<and> w' = fst (push_step p n x w)) \<or>
     (ph' = Serving \<and> w' = startProtocol c w \<or> ph' = Closed \<and> w' = Close w) \<and>
       (loopPA w \<noteq> None \<and> stale_ping w \<or> loopGo w \<noteq> None \<and> stale_gossip w)"
proof -
  have o: "objects_ok w" using assms(2) by (simp add: proc_safe_def)
  have nw: "\<not> panicked w" using assms(1) by (cases rule: fstep.cases) simp_all
  from fstep_effect [OF assms(1) o assms(3)] show ?thesis
  proof (cases rule: effect_cases)
    case quiet
    then show ?thesis using mild_panicked nw assms(4) by simp
  next
    case (commit g j' n)
    then obtain a where "w' = w\<lparr>cfg := a\<rparr>" unfolding commits_def by blast
    then have "panicked w' = panicked w" by simp
    then show ?thesis using nw assms(4) by simp
  next
    case (push g x p n k v out m)
    let ?w = "fst (push_step p n x w)"
    have m: "micro g v (Push x p n k) w = (w', out, m)" by (rule push)
    note w' = micro_push(1) [OF m]
    have "panicked ?w" using w' assms(4) by (cases "snd (push_step p n x w)") (simp_all add: recovered_def split: goroutine.splits)
    from push_panics [OF this o] nw have d: "disturbed x n w" "snd (push_step p n x w) = None" by simp_all
    have "w' = recovered g ?w" using w' d(2) by simp
    then have "w' = ?w" "\<forall>h. g \<noteq> Handler h" using recovered_panicked [of g ?w] assms(4) by simp_all
    moreover have "J g = Some (Push x p n k)" by (rule push)
    ultimately show ?thesis using d by blast
  next
    case serve
    then show ?thesis
      using assms(4) stop_panics [OF o] nw by (auto simp: start_created split: if_splits)
  next
    case shutdown
    then show ?thesis using Close_panics [of w] assms(4) o nw by simp
  qed
qed

end
