(* ===== verification/FineForce.thy ===== *)
theory FineForce
  imports FineSafe
begin

text \<open>
  Changes that do not overlap. The pushing of a configuration is stable under everything that the other goroutines
  do meanwhile, except another change: so if at most one goroutine at a time pushes a
  configuration, and the protocol is not started and not shut down meanwhile, nothing panics, and the
  configuration is in force at the end of every push.
\<close>

section \<open>Stability\<close>

text \<open>What a push reads and writes is the same in both processes.\<close>

lemma mild_close:
  assumes "mild w v"
  shows "(close_ping w = None \<longleftrightarrow> close_ping v = None)" and "(close_gossip w = None \<longleftrightarrow> close_gossip v = None)"
    and "close_ping w = Some w' \<Longrightarrow> \<exists>v'. close_ping v = Some v' \<and> mild w' v'"
    and "close_gossip w = Some w' \<Longrightarrow> \<exists>v'. close_gossip v = Some v' \<and> mild w' v'"
proof -
  have e: "loopPA v = loopPA w" "loopGo v = loopGo w" "pings v = pings w" "gossips v = gossips w"
    using assms by (simp_all add: mild_def same_config_def)
  show "(close_ping w = None \<longleftrightarrow> close_ping v = None)" "(close_gossip w = None \<longleftrightarrow> close_gossip v = None)"
    by (simp_all add: close_ping_def close_gossip_def e split: bind_splits)
  have u: "mild (w\<lparr>pings := p\<rparr>) (v\<lparr>pings := p\<rparr>)" "mild (w\<lparr>gossips := g\<rparr>) (v\<lparr>gossips := g\<rparr>)" for p g
    using assms by (simp_all add: mild_def same_config_def)
  show "\<exists>v'. close_ping v = Some v' \<and> mild w' v'" if c: "close_ping w = Some w'"
  proof -
    obtain r l k where r: "loopPA w = Some r" "pings w r = Some l" "PingClose l = Some k"
      using c unfolding close_ping_def bind_eq_Some_conv map_option_eq_Some by blast
    then have "w' = w\<lparr>pings := (pings w)(r \<mapsto> k)\<rparr>" "close_ping v = Some (v\<lparr>pings := (pings w)(r \<mapsto> k)\<rparr>)"
      using c e by (simp_all add: close_ping_def)
    then show ?thesis using u(1) by blast
  qed
  show "\<exists>v'. close_gossip v = Some v' \<and> mild w' v'" if c: "close_gossip w = Some w'"
  proof -
    obtain r l k where r: "loopGo w = Some r" "gossips w r = Some l" "GossipClose l = Some k"
      using c unfolding close_gossip_def bind_eq_Some_conv map_option_eq_Some by blast
    then have "w' = w\<lparr>gossips := (gossips w)(r \<mapsto> k)\<rparr>" "close_gossip v = Some (v\<lparr>gossips := (gossips w)(r \<mapsto> k)\<rparr>)"
      using c e by (simp_all add: close_gossip_def)
    then show ?thesis using u(2) by blast
  qed
qed

lemma mildD:
  assumes "mild w v"
  shows "cfg v = cfg w" "loopPA v = loopPA w" "loopGo v = loopGo w" "pings v = pings w" "gossips v = gossips w"
    "config (st v) = config (st w)" "TSuspect (sm v) = TSuspect (sm w)" "TFail (sm v) = TFail (sm w)"
    "TCleanup (sm v) = TCleanup (sm w)" "UsePingTimeout (sm v) = UsePingTimeout (sm w)"
    "MInflight (sm v) = MInflight (sm w)" "panicked v = panicked w" "inflight v = inflight w" "next_ref v = next_ref w"
    "tables v (inflight w) = tables w (inflight w)" "selfID (st v) = selfID (st w)"
    "store_inv (st w) \<Longrightarrow> store_inv (st v)" "ping_threads v \<subseteq> ping_threads w" "gossip_threads v \<subseteq> gossip_threads w"
  using assms by (simp_all add: mild_def same_config_def)

lemma mild_create:
  assumes "mild w v"
  shows "mild (create_loop c w) (create_loop c v)"
  using mildD(17-19) [OF assms]
  by (simp add: mild_def same_config_def create_loop_def Let_def mildD(1-16) [OF assms] insert_mono subset_insertI2)

definition mild_result :: "World \<times> push option \<Rightarrow> World \<times> push option \<Rightarrow> bool" where
  "mild_result a b \<longleftrightarrow> mild (fst a) (fst b) \<and> snd a = snd b"

lemma mild_result_panic:
  assumes "mild w v" and "x = None \<longleftrightarrow> y = None" and "\<And>w'. x = Some w' \<Longrightarrow> \<exists>v'. y = Some v' \<and> mild w' v'"
  shows "mild_result (or_panic w x z) (or_panic v y z)"
proof (cases x)
  case None
  then show ?thesis using assms(1,2) by (simp add: mild_result_def or_panic_def mild_def same_config_def)
next
  case (Some w')
  then show ?thesis using assms(3) by (auto simp: mild_result_def or_panic_def)
qed

lemma mild_reconfigure:
  assumes "mild w v"
  shows "mild (reconfigurePing c w) (reconfigurePing c v)" and "mild (reconfigureGossip c w) (reconfigureGossip c v)"
  using assms by (auto simp: mild_def same_config_def reconfigurePing_def reconfigureGossip_def split: option.split)

lemma mild_step:
  assumes "mild w v"
  shows "mild_result (push_step p n x w) (push_step p n x v)"
proof (cases x)
  case CloseOther
  then show ?thesis using mild_close [OF assms] by (auto intro!: mild_result_panic [OF assms])
next
  case Create
  then show ?thesis using mild_create [OF assms] by (simp add: mild_result_def)
next
  case Tune
  have "loopPA v = loopPA w" "loopGo v = loopGo w" using assms by (simp_all add: mild_def same_config_def)
  then show ?thesis using Tune mild_reconfigure [OF assms] by (auto intro!: mild_result_panic [OF assms])
next
  case SetGo
  then show ?thesis
    using assms by (auto intro!: mild_result_panic [OF assms] simp: mild_def same_config_def)
next
  case SetPA
  then show ?thesis
    using assms by (auto intro!: mild_result_panic [OF assms] simp: mild_def same_config_def)
next
  case EmptyTable
  then show ?thesis using assms mildD [OF assms] by (simp add: mild_result_def mild_def same_config_def)
next
  case Manage
  then show ?thesis using assms by (simp add: mild_result_def mild_def same_config_def ManagerReconfigure_def)
next
  case TuneStore
  have "store_inv (StoreReconfigure s n) = store_inv s" "config (StoreReconfigure s n) = n"
    "selfID (StoreReconfigure s n) = selfID s" for s
    by (simp_all add: StoreReconfigure_def store_inv_def)
  then show ?thesis using TuneStore assms by (simp add: mild_result_def mild_def same_config_def)
next
  case ClearOther
  then show ?thesis using assms by (simp add: mild_result_def mild_def same_config_def)
qed (use assms mildD [OF assms] in \<open>simp_all add: mild_result_def\<close>)

lemma mild_push: "mild w v \<Longrightarrow> mild (push_all p n x w) (push_all p n x v)"
proof (induction p n x w arbitrary: v rule: push_all.induct)
  case (1 p n x w)
  have r: "mild_result (push_step p n x w) (push_step p n x v)" by (rule mild_step [OF 1(2)])
  show ?case
  proof (cases "snd (push_step p n x w)")
    case None
    then show ?thesis
      using r by (auto simp: mild_result_def push_all.simps [of p n x w] push_all.simps [of p n x v] split: prod.split)
  next
    case (Some y)
    then have w: "push_step p n x w = (fst (push_step p n x w), Some y)" "push_step p n x v = (fst (push_step p n x v), Some y)"
      using r by (simp_all add: mild_result_def prod_eq_iff)
    show ?thesis
      using 1(1) [OF w(1) [symmetric] refl] r by (simp add: push_all_next [OF w(1)] push_all_next [OF w(2)] mild_result_def)
  qed
qed

section \<open>Separate changes\<close>

definition pushing :: "jobs \<Rightarrow> goroutine set" where
  "pushing J = {g. \<exists>j. J g = Some j \<and> is_push j}"

text \<open>
  The runs in which changes do not overlap: at most one goroutine pushes, and the start of the protocol at the
  end of \<open>Run\<close> and the shutdown, which replace and stop loops as well, find nobody pushing.
\<close>

inductive separate :: "Config \<Rightarrow> phase \<times> World \<times> jobs \<Rightarrow> phase \<times> World \<times> jobs \<Rightarrow> bool" for c0 :: Config where
  rest: "separate c0 x x"
| go: "separate c0 x (ph, w, J) \<Longrightarrow> fstep c0 (ph, w, J) ins j outs (ph', w', J') \<Longrightarrow>
    \<forall>g \<in> pushing J'. \<forall>h \<in> pushing J'. g = h \<Longrightarrow> ph' = ph \<or> ph' \<notin> {Serving, Closed} \<or> pushing J = {} \<Longrightarrow>
    separate c0 x (ph', w', J')"

lemma pushing_same: "same_pushes J J' \<Longrightarrow> pushing J' = pushing J"
  unfolding same_pushes_def pushing_def by blast

lemma mild_heap: "mild w v \<Longrightarrow> heap_inv w \<Longrightarrow> heap_inv v"
  using mildD [of w v] by (auto simp: heap_inv_def)

lemma mild_in_force: "mild w v \<Longrightarrow> in_force c v = in_force c w"
  by (simp add: mild_def same_config_in_force)

text \<open>Before an introducer has started its protocol, nobody can change its configuration.\<close>

definition early :: "jobs \<Rightarrow> bool" where
  "early J \<longleftrightarrow> (\<forall>g j. J g = Some j \<longrightarrow>
     g = Scanner \<and> \<not> is_push j \<or> (\<exists>h es. g = Handler h \<and> (j = IntroMerge es \<or> j = IntroSnap \<or> j = IntroReply es)))"

lemma earlyD: "early J \<Longrightarrow> J g = Some j \<Longrightarrow>
     g = Scanner \<and> \<not> is_push j \<or> (\<exists>h es. g = Handler h \<and> (j = IntroMerge es \<or> j = IntroSnap \<or> j = IntroReply es))"
  unfolding early_def by blast

lemma early_put: "early J \<Longrightarrow> (n = None \<or> g = Scanner \<and> \<not> is_push (the n) \<or>
     (\<exists>h es. g = Handler h \<and> the n \<in> {IntroMerge es, IntroSnap, IntroReply es})) \<Longrightarrow> early (J(g := n))"
  by (auto simp: early_def)

lemma scanner_plain: "plain (snd (snd (scanner v j w)))"
  by (cases "(v, j, w)" rule: scanner.cases) (auto simp: Let_def split: prod.split option.split)

lemma early_job:
  assumes "early J" and "J g = Some j" and "micro g v j w = (w', out, n)"
  shows "early (J(g := job_next n))"
proof (cases "g = Scanner")
  case True
  then have "\<not> is_push j" using earlyD [OF assms(1,2)] by auto
  then have "micro g v j w = scanner v j w" using True unfolding micro_def by (auto split: job.split)
  with assms(3) have "scanner v j w = (w', out, n)" by simp
  with scanner_plain [of v j w] have "plain n" by simp
  then show ?thesis using True by (intro early_put [OF assms(1)]) (auto simp: job_next_def split: continuation.split)
next
  case False
  then obtain h es where g: "g = Handler h" and j: "j \<in> {IntroMerge es, IntroSnap, IntroReply es}"
    using False earlyD [OF assms(1,2)] by blast
  have "micro g v j w = server v j w" using g j unfolding micro_def by (auto split: job.split)
  then have "job_next n = None \<or> (\<exists>es. the (job_next n) \<in> {IntroSnap, IntroReply es})"
    using j assms(3) by (auto simp: job_next_def split: prod.splits)
  then show ?thesis using g by (intro early_put [OF assms(1)]) auto
qed

lemma early_step:
  assumes "fstep c0 (Booted, w, J) ins j outs (Booted, w', J')" and "early J" and "fresh_boot c0 w"
  shows "early J'"
  using assms(1)
proof (cases rule: fstep.cases)
  case (run g j' v w1 out n)
  then show ?thesis using early_job [OF assms(2)] by blast
qed (use assms(2,3) in \<open>auto simp: fresh_boot_def intro!: early_put\<close>)

section \<open>The invariant of separate changes\<close>

definition pushed_ok :: "Config \<Rightarrow> phase \<Rightarrow> World \<Rightarrow> jobs \<Rightarrow> bool" where
  "pushed_ok c0 ph w J \<longleftrightarrow>
     (\<forall>g x p n k. J g = Some (Push x p n k) \<longrightarrow> pushing J = {g} \<and> n = cfg w \<and> heap_inv (push_all p n x w) \<and>
        in_force n (push_all p n x w) \<and> (cIsIntroducer c0 \<longrightarrow> ph = Serving \<or> ph = Closed))"

definition rest_ok :: "Config \<Rightarrow> phase \<Rightarrow> World \<Rightarrow> jobs \<Rightarrow> bool" where
  "rest_ok c0 ph w J \<longleftrightarrow>
     (pushing J = {} \<longrightarrow> heap_inv w \<and> (cIsIntroducer c0 \<longrightarrow> in_force_at c0 (ph, w))) \<and>
     (cIsIntroducer c0 \<longrightarrow> ph \<noteq> Joining \<and> ph \<noteq> Asked \<and> (ph = Booted \<longrightarrow> early J))"

definition sep_inv :: "Config \<Rightarrow> phase \<times> World \<times> jobs \<Rightarrow> bool" where
  "sep_inv c0 X \<longleftrightarrow>
     (case X of (ph, w, J) \<Rightarrow> \<not> panicked w \<and> proc_safe c0 w \<and> loops_ok w J \<and> pushes_ok J \<and>
        pushed_ok c0 ph w J \<and> rest_ok c0 ph w J)"

lemma early_pushing: "early J \<Longrightarrow> pushing J = {}"
  by (auto simp: pushing_def dest: earlyD)

lemma quiet_sep:
  assumes "mild w w'" and "same_pushes J J'" and "joins ph ph'" and "pushed_ok c0 ph w J" and "rest_ok c0 ph w J"
    and "cIsIntroducer c0 \<Longrightarrow> ph' = Booted \<Longrightarrow> early J'"
  shows "pushed_ok c0 ph' w' J' \<and> rest_ok c0 ph' w' J'"
proof -
  have p: "pushing J' = pushing J" by (rule pushing_same [OF assms(2)])
  have i: "ph' = ph" if "cIsIntroducer c0" using that assms(3,5) by (auto simp: joins_def rest_ok_def)
  have "pushed_ok c0 ph' w' J'"
    unfolding pushed_ok_def
  proof (intro allI impI)
    fix g x pc n k
    assume "J' g = Some (Push x pc n k)"
    then have "J g = Some (Push x pc n k)" using assms(2) by (simp add: same_pushes_def)
    with assms(4) have "pushing J = {g}" "n = cfg w" "heap_inv (push_all pc n x w)" "in_force n (push_all pc n x w)"
      "cIsIntroducer c0 \<longrightarrow> ph = Serving \<or> ph = Closed"
      unfolding pushed_ok_def by blast+
    then show "pushing J' = {g} \<and> n = cfg w' \<and> heap_inv (push_all pc n x w') \<and> in_force n (push_all pc n x w') \<and>
        (cIsIntroducer c0 \<longrightarrow> ph' = Serving \<or> ph' = Closed)"
      using p i mild_heap [OF mild_push [OF assms(1)]] mild_in_force [OF mild_push [OF assms(1)]] mildD(1) [OF assms(1)]
      by auto
  qed
  moreover have "rest_ok c0 ph' w' J'"
    using assms(5,6) p i mild_heap [OF assms(1)] in_force_at_same [of c0 ph w w'] assms(1)
    by (auto simp: rest_ok_def mild_def)
  ultimately show ?thesis by simp
qed

lemma commit_sep:
  assumes "commits w w' n" and "J g = Some j" and "\<not> is_push j" and "proc_safe c0 w"
    and "rest_ok c0 ph w J" and "\<forall>h \<in> pushing (J(g := job_next n)). h = g"
    and "cIsIntroducer c0 \<Longrightarrow> ph = Booted \<Longrightarrow> early (J(g := job_next n))"
  shows "\<not> panicked w' \<and> pushed_ok c0 ph w' (J(g := job_next n)) \<and> rest_ok c0 ph w' (J(g := job_next n))"
proof -
  obtain a d k where w': "w' = w\<lparr>cfg := a\<rparr>" and a: "ApplyDTO (cfg w) d = (a, Inr True)"
    and n: "n = Goto (Push Choose (cfg w) a k)" "plain_rest k"
    using assms(1) by (rule commitsE)
  let ?J = "J(g := job_next n)"
  have g: "g \<in> pushing ?J" using n by (simp add: pushing_def)
  then have p: "pushing ?J = {g}" using assms(6) by blast
  have "pushing J \<subseteq> pushing ?J - {g}" using assms(2,3) by (auto simp: pushing_def)
  then have "heap_inv w" using assms(5) p by (auto simp: rest_ok_def)
  then have h: "heap_inv w'" by (simp add: w')
  have s: "proc_safe c0 w'" by (rule commits_safe(1) [OF assms(1,4)])
  then have "daemon_inv w'" using h by (simp add: proc_safe_def daemon_inv_def)
  then have "push_all (cfg w) a Choose w' = applyRuntime (cfg w) a w'" using push_undisturbed by blast
  moreover have "ValidateClusterParams a = None" using s by (simp add: proc_safe_def w')
  ultimately have "heap_inv (push_all (cfg w) a Choose w')" "in_force a (push_all (cfg w) a Choose w')"
    using heap_applyRuntime [OF h] applyRuntime_in_force [OF h] by simp_all
  moreover have "ph = Serving \<or> ph = Closed" if "cIsIntroducer c0"
    using assms(5,7) that early_pushing g by (cases ph) (auto simp: rest_ok_def)
  moreover have "J h \<noteq> Some (Push x q m k')" if "h \<noteq> g" for h x q m k'
    using p that by (auto simp: pushing_def set_eq_iff)
  ultimately have "pushed_ok c0 ph w' ?J" using p n by (auto simp: pushed_ok_def w' split: if_splits)
  moreover have "rest_ok c0 ph w' ?J" using assms(5,7) p by (auto simp: rest_ok_def)
  ultimately show ?thesis using h by (simp add: heap_inv_def)
qed

lemma pushing_put: "pushing (J(g := n)) = (if \<exists>j. n = Some j \<and> is_push j then insert g (pushing J) else pushing J - {g})"
  by (auto simp: pushing_def)

lemma no_push_ok: "pushing J = {} \<Longrightarrow> pushed_ok c0 ph w J"
  unfolding pushed_ok_def pushing_def using is_push_simps(1) by blast

lemma recovered_id: "\<not> panicked w \<Longrightarrow> recovered g w = w"
  by (cases g) (simp_all add: recovered_def)

lemma push_sep:
  assumes "J g = Some (Push x p n k)" and "micro g v (Push x p n k) w = (w', out, m)" and "\<not> panicked w"
    and "proc_safe c0 w" and "pushes_ok J" and "pushed_ok c0 ph w J" and "rest_ok c0 ph w J"
  shows "\<not> panicked w' \<and> pushed_ok c0 (phase_next g m ph) w' (J(g := job_next m)) \<and>
     rest_ok c0 (phase_next g m ph) w' (J(g := job_next m))"
proof -
  let ?w = "fst (push_step p n x w)" and ?y = "snd (push_step p n x w)" and ?J = "J(g := job_next m)"
  have i: "pushing J = {g}" "n = cfg w" "heap_inv (push_all p n x w)" "in_force n (push_all p n x w)"
    "cIsIntroducer c0 \<longrightarrow> ph = Serving \<or> ph = Closed"
    using assms(1,6) unfolding pushed_ok_def by blast+
  have o: "J h \<noteq> Some j" if "h \<noteq> g" "is_push j" for h j using i(1) that by (auto simp: pushing_def)
  have ph: "phase_next g m ph = ph" if "cIsIntroducer c0" using i(5) that by (auto simp: phase_next_def)
  have b: "\<not> (cIsIntroducer c0 \<and> ph = Booted)" using i(5) by auto
  have c: "cfg ?w = cfg w" by (rule step_frames(1))
  show ?thesis
  proof (cases ?y)
    case (Some y)
    then have w: "w' = ?w" "m = Goto (Push y p n k)" using micro_push [OF assms(2)] by simp_all
    have s: "push_step p n x w = (?w, Some y)" using Some by (simp add: prod_eq_iff)
    have "\<not> panicked ?w" using push_panics [of p n x w] assms(3,4) Some by (auto simp: proc_safe_def)
    moreover have "pushing ?J = {g}" using i(1) w(2) by (simp add: pushing_put)
    moreover have "pushed_ok c0 ph w' ?J"
      using i calculation(2) o w c unfolding pushed_ok_def push_all_next [OF s] by (auto split: if_splits)
    moreover have "rest_ok c0 ph w' ?J" using assms(7) calculation(2) b by (auto simp: rest_ok_def)
    ultimately show ?thesis using w by (simp add: phase_next_def)
  next
    case None
    have "push_step p n x w = (?w, None)" using None by (simp add: prod_eq_iff)
    then have a: "push_all p n x w = ?w" by (rule push_all_last)
    then have nw: "\<not> panicked ?w" using i(3) by (simp add: heap_inv_def)
    then have w: "w' = ?w" "m = resume k" using micro_push [OF assms(2)] None by (simp_all add: recovered_id)
    have "plain m" using w(2) assms(1,5) by (auto simp: pushes_ok_def)
    then have "pushing ?J = {}"
      using i(1) by (auto simp: pushing_put job_next_def plain_def split: continuation.splits)
    then have "pushed_ok c0 (phase_next g m ph) w' ?J" by (rule no_push_ok)
    moreover have "rest_ok c0 (phase_next g m ph) w' ?J"
      using i assms(7) ph b a c w(1) by (auto simp: rest_ok_def in_force_at_def)
    ultimately show ?thesis using nw w(1) by simp
  qed
qed

lemma serve_sep:
  assumes "pushing J = {}" and "rest_ok c0 Booted w J" and "ValidateClusterParams c0 = None"
  shows "\<not> panicked (startProtocol c0 w) \<and> pushed_ok c0 Serving (startProtocol c0 w) J \<and> rest_ok c0 Serving (startProtocol c0 w) J"
proof -
  have h: "heap_inv w" "cIsIntroducer c0 \<longrightarrow> fresh_boot c0 w"
    using assms(1,2) by (auto simp: rest_ok_def in_force_at_def)
  have "heap_inv (startProtocol c0 w)" using h(1) by (rule heap_start)
  moreover from this have "\<not> panicked (startProtocol c0 w)" by (simp add: heap_inv_def)
  moreover have "cIsIntroducer c0 \<longrightarrow> in_force_at c0 (Serving, startProtocol c0 w)"
    using h(2) fresh_start [OF _ h(1) assms(3)] by (simp add: in_force_at_def)
  ultimately show ?thesis using assms(1) no_push_ok by (simp add: rest_ok_def)
qed

lemma shutdown_sep:
  assumes "pushing J = {}" and "rest_ok c0 Serving w J" and "mgr_stop w = Some False"
  shows "\<not> panicked (Close w) \<and> pushed_ok c0 Closed (Close w) J \<and> rest_ok c0 Closed (Close w) J"
proof -
  have "heap_inv (Close w)" using assms heap_Close by (simp add: rest_ok_def)
  moreover from this have "\<not> panicked (Close w)" by (simp add: heap_inv_def)
  ultimately show ?thesis using assms(1) no_push_ok by (simp add: rest_ok_def in_force_at_def)
qed

lemma sep_step:
  assumes "fstep c0 (ph, w, J) ins j outs (ph', w', J')" and "sep_inv c0 (ph, w, J)"
    and "\<forall>g \<in> pushing J'. \<forall>h \<in> pushing J'. g = h" and "ph' = ph \<or> ph' \<notin> {Serving, Closed} \<or> pushing J = {}"
    and "ValidateClusterParams c0 = None"
  shows "sep_inv c0 (ph', w', J')"
proof -
  have i: "\<not> panicked w" "proc_safe c0 w" "loops_ok w J" "pushes_ok J" "pushed_ok c0 ph w J" "rest_ok c0 ph w J"
    using assms(2) by (simp_all add: sep_inv_def)
  have o: "objects_ok w" using i(2) by (simp add: proc_safe_def)
  have early: "early J'" if "cIsIntroducer c0" "ph = Booted" "ph' = Booted"
  proof -
    have e: "early J" using i(6) that by (simp add: rest_ok_def)
    then have "fresh_boot c0 w" using i(6) that early_pushing by (simp add: rest_ok_def in_force_at_def)
    with early_step [of c0 w J ins j outs w' J'] assms(1) that e show ?thesis by simp
  qed
  from fstep_effect [OF assms(1) o i(3)]
  have "\<not> panicked w' \<and> pushed_ok c0 ph' w' J' \<and> rest_ok c0 ph' w' J'"
  proof (cases rule: effect_cases)
    case quiet
    have "ph = Booted" if "cIsIntroducer c0" "ph' = Booted"
      using that quiet(3) i(6) by (auto simp: joins_def rest_ok_def)
    then show ?thesis
      using quiet_sep [OF quiet i(5,6)] early mild_panicked [OF quiet(1)] i(1) by blast
  next
    case (commit g j' n)
    have c: "commits w w' n" "J g = Some j'" "\<not> is_push j'" "ph' = ph" "J' = J(g := job_next n)" by (rule commit)+
    have "g \<in> pushing J'" using c(1,5) by (auto simp: commits_def pushing_def)
    then show ?thesis using commit_sep [OF c(1-3) i(2,6)] early assms(3) c(4,5) by blast
  next
    case (push g x p n k v out m)
    have c: "J g = Some (Push x p n k)" "micro g v (Push x p n k) w = (w', out, m)" "ph' = phase_next g m ph"
      "J' = J(g := job_next m)" by (rule push)+
    show ?thesis using push_sep [OF c(1,2) i(1,2,4,5,6)] c(3,4) by simp
  next
    case serve
    then show ?thesis using serve_sep [of J c0 w] assms(4,5) i(6) by auto
  next
    case shutdown
    then show ?thesis using shutdown_sep [of J c0 w] assms(4) i(6) by auto
  qed
  then show ?thesis using fstep_safe [OF assms(1) i(2-4) assms(5)] by (simp add: sep_inv_def)
qed

lemma separate_inv:
  assumes "separate c0 X Y" and "sep_inv c0 X" and "ValidateClusterParams c0 = None"
  shows "sep_inv c0 Y"
  using assms
proof (induction rule: separate.induct)
  case (rest x)
  then show ?case by simp
next
  case (go x ph w J ins j out ph' w' J')
  from go.IH [OF go.prems] show ?case by (rule sep_step [OF go.hyps(2) _ go.hyps(3,4) go.prems(2)])
qed

lemma boot_sep:
  assumes "main_start v = Inr (c, w)"
  shows "sep_inv c (first_phase c, w, no_jobs)" and "ValidateClusterParams c = None"
proof -
  note f = main_start_facts [OF assms]
  show c: "ValidateClusterParams c = None" using flags_fields [OF f(1)] by simp
  have "daemon_inv w" by (rule boot_inv [OF f(2) c])
  moreover have "fresh_boot c w" by (rule boot_fresh [OF f(2)])
  moreover have "pushing no_jobs = {}" "early no_jobs" by (simp_all add: pushing_def no_jobs_def early_def)
  ultimately show "sep_inv c (first_phase c, w, no_jobs)"
    using boot_safe [OF f(2) c]
    by (auto simp: sep_inv_def pushed_ok_def rest_ok_def first_phase_def in_force_at_def daemon_inv_def heap_inv_def no_jobs_def)
qed

end
