(* ===== verification/RunProps.thy ===== *)
theory RunProps
  imports FineForce FineProps
begin

text \<open>
  The properties of a whole run of the program with interleaving goroutines: what always holds, where it can panic,
  what holds as long as changes of the configuration do not overlap, and when it stops.
\<close>

section \<open>Every run\<close>

text \<open>
  C7. A program that gets past its start stays valid. Whatever the flags say, if \<open>main\<close> starts a daemon, then
  the flags name exactly one of an introducer and the role of one; and in every state that the process gets into, whatever packets
  arrive and however its goroutines interleave, the cluster parameters are valid, their version is at
  least 1, the bootstrap part of the configuration is the one from the flags, the identity is the one of
  the boot, every member is filed under its own endpoint, every protocol loop, stopped or not, has a
  positive period, which its ticker needs, and fan-out, every receive goroutine has its loop, and the
  table of pings that the suspicion manager watches is empty. (That it never panics is not true: see the next properties.)
\<close>

theorem main_runs_valid:
  assumes "main_start v = Inr (c, w0)" and "fruns c P (first_phase c, w0, no_jobs) outs (ph, w, J)"
  shows "(cIsIntroducer c \<longleftrightarrow> cIntroducer c = []) \<and> e_udp_ok v (cSelfAddr c) \<and>
     ValidateClusterParams (cfg w) = None \<and> 1 \<le> cVersion (cfg w) \<and> adopt c (cfg w) = cfg w \<and>
     SelfID (st w) = SelfID (st w0) \<and> TimeStamp (SelfID (st w)) = e_boot v \<and> store_inv (st w) \<and>
     (\<forall>r l. pings w r = Some l \<longrightarrow> 0 < PingEvery l \<and> 0 < PingFanout l) \<and>
     (\<forall>r l. gossips w r = Some l \<longrightarrow> 0 < GossipPeriod l \<and> 0 < GossipFanout l) \<and>
     (\<forall>r \<in> ping_threads w. pings w r \<noteq> None) \<and> (\<forall>r \<in> gossip_threads w. gossips w r \<noteq> None) \<and>
     MInflight (sm w) = Some (inflight w) \<and> tables w (inflight w) = NewInflight"
proof -
  note f = main_start_facts [OF assms(1)]
  have c: "cVersion c = 1" using flags_fields [OF f(1)] by simp
  have b: "cfg w0 = c" "TimeStamp (SelfID (st w0)) = e_boot v" using boot_cfg [OF f(2)] by simp_all
  have "(cIsIntroducer c \<longleftrightarrow> cIntroducer c = []) \<and> e_udp_ok v (cSelfAddr c)"
    using f(1) by (auto simp: LoadFromFlags_def Let_def ValidateLocalBootstrap_def validateUDPAddr_def
        split: if_splits option.splits)
  then show ?thesis
    using main_safe [OF assms] b c by (simp add: proc_safe_def tuned_def objects_ok_def loops_ok_def onward_def SelfID_def)
qed

lemma serving_run:
  "fruns sample_introducer {} (first_phase sample_introducer, sample_world 1 sample_introducer, no_jobs) {}
     (Serving, startProtocol sample_introducer (sample_world 1 sample_introducer), no_jobs)"
proof -
  let ?w = "sample_world 1 sample_introducer"
  have "fstep sample_introducer (Booted, ?w, no_jobs) {} None {} (Serving, startProtocol sample_introducer ?w, no_jobs)"
    by (rule fstep.solo [OF _ _ solo_step.serve]) (simp_all add: sample_world_def no_jobs_def)
  from fruns_then [OF fruns.rest this] show ?thesis by simp
qed

theorem main_runs_valid_witness:
  "let w = startProtocol sample_introducer (sample_world 1 sample_introducer)
   in main_start sample_env = Inr (sample_introducer, sample_world 1 sample_introducer) \<and>
      ValidateClusterParams (cfg w) = None \<and> 1 \<le> cVersion (cfg w) \<and> SelfID (st w) = node 1 7"
  using main_runs_valid [OF sample_main serving_run] sample_main by (simp add: Let_def SelfID_def NewStore_def)





section \<open>Changes one at a time\<close>




section \<open>Leaving\<close>

lemma listed_left:
  assumes "fine_process N c w K" and "Snapshot t ord (st w) = (list, self, s)"
    and "e \<in> set list" and "ID e = self" and "EState e = StateLeft"
  shows "\<exists>n \<in> leavers N. key_of n = key_of (SelfID (st w))"
proof -
  have "fine_proc (said N) (leavers N) (accused N) (made N) c (selfID (st w)) w"
    using assms(1) told_near by (auto simp: fine_process_def proc_ok_def all_entries_def)
  from fine_snapshot(2) [OF this assms(2)] assms(3)
  have "near_left (leavers N) e" by (simp add: list_ok_def told_of_def)
  moreover have "self = selfID (st w)" using assms(2) by (auto simp: Snapshot_def split: prod.splits)
  ultimately show ?thesis using assms(4,5) by (auto simp: near_left_def SelfID_def)
qed

lemma not_push_stop:
  assumes "micro g v j w = (w', out, n)" and "n = Exit \<or> n = Stop"
  shows "micro g v j w = (case g of PingRx r \<Rightarrow> ping_rx r v j w | GossipRx r \<Rightarrow> gossip_rx r v j w
      | PingTx r \<Rightarrow> ping_tx r v j w | GossipTx r \<Rightarrow> gossip_tx r v j w | Scanner \<Rightarrow> scanner v j w | _ \<Rightarrow> server v j w)"
proof (cases "is_push j")
  case True
  then obtain x p m k where "j = Push x p m k" by (auto simp: is_push_def)
  with micro_push(2) [of g v x p m k w w' out n] assms show ?thesis
    by (auto simp: resume_def split: option.splits)
next
  case False
  then show ?thesis unfolding micro_def by (auto split: job.split)
qed

lemma commit_goes_on: "snd (snd (commit_then k w wr)) \<noteq> Stop" "snd (snd (commit_then k w wr)) \<noteq> Exit"
  by (simp_all add: commit_then_def resume_def split: option.split)

lemma rx_config_goes_on: "snd (snd (rx_config m w)) \<noteq> Stop" "snd (snd (rx_config m w)) \<noteq> Exit"
  using commit_goes_on by (simp_all add: rx_config_def split: option.split)

lemma rx_look_goes_on: "snd (snd (rx_look v m w)) \<noteq> Exit"
  by (simp add: rx_look_def split: prod.split)

lemma ping_rx_stops:
  "snd (snd (ping_rx r v j w)) \<noteq> Exit \<and>
   (snd (snd (ping_rx r v j w)) = Stop \<longrightarrow> (\<exists>m. j = RxLook m \<and> snd (snd (rx_look v m w)) = Stop) \<or>
      j = RxHead \<and> \<not> ping_enter (get_ping (ping_at r) w))"
proof (cases "(r, v, j, w)" rule: ping_rx.cases)
  case (4 r v n w)
  then show ?thesis by (simp split: prod.split)
qed (simp_all add: Let_def rx_config_goes_on rx_look_goes_on)

lemma gossip_rx_stops:
  "snd (snd (gossip_rx r v j w)) \<noteq> Exit \<and>
   (snd (snd (gossip_rx r v j w)) = Stop \<longrightarrow> (\<exists>m. j = RxLook m \<and> snd (snd (rx_look v m w)) = Stop) \<or>
      j = RxHead \<and> \<not> gossip_enter (get_gossip (gossip_at r) w))"
  by (cases "(r, v, j, w)" rule: gossip_rx.cases) (simp_all add: rx_config_goes_on rx_look_goes_on)

lemma tx_goes_on:
  "snd (snd (ping_tx r v j w)) \<noteq> Stop \<and> snd (snd (ping_tx r v j w)) \<noteq> Exit"
  "snd (snd (gossip_tx r v j w)) \<noteq> Stop \<and> snd (snd (gossip_tx r v j w)) \<noteq> Exit"
proof -
  show "snd (snd (ping_tx r v j w)) \<noteq> Stop \<and> snd (snd (ping_tx r v j w)) \<noteq> Exit"
    by (cases "(r, v, j, w)" rule: ping_tx.cases) (auto simp: Let_def split: prod.split option.split)
  show "snd (snd (gossip_tx r v j w)) \<noteq> Stop \<and> snd (snd (gossip_tx r v j w)) \<noteq> Exit"
    by (cases "(r, v, j, w)" rule: gossip_tx.cases) (auto simp: Let_def split: prod.split)
qed

lemma server_goes_on: "snd (snd (server v j w)) \<noteq> Stop" "snd (snd (server v j w)) \<noteq> Exit"
proof -
  have "snd (snd (server v j w)) \<noteq> Stop \<and> snd (snd (server v j w)) \<noteq> Exit"
    using commit_goes_on by (cases "(v, j, w)" rule: server.cases) (auto split: prod.split)
  then show "snd (snd (server v j w)) \<noteq> Stop" "snd (snd (server v j w)) \<noteq> Exit" by simp_all
qed

lemma after_scan_goes_on [simp]: "after_scan now u w \<noteq> Stop" "after_scan now u w \<noteq> Exit"
  by (simp_all add: after_scan_def)

lemma scanner_stops:
  "snd (snd (scanner v j w)) \<noteq> Stop \<and>
   (snd (snd (scanner v j w)) = Exit \<longrightarrow>
     (\<exists>list self s e. Snapshot (v_time v) (v_ord v) (st w) = (list, self, s) \<and> e \<in> set list \<and> ID e = self \<and> EState e = StateLeft))"
proof (cases "(v, j, w)" rule: scanner.cases)
  case (1 v' now tS tF tC u w')
  obtain list self s where s: "Snapshot (v_time v) (v_ord v) (st w) = (list, self, s)" by (metis prod.exhaust)
  show ?thesis
  proof (cases "find (\<lambda>e. ID e = self \<and> EState e = StateLeft) list")
    case None
    with 1 s show ?thesis by simp
  next
    case (Some e)
    then have "e \<in> set list \<and> ID e = self \<and> EState e = StateLeft" by (auto simp: find_Some_iff)
    with 1 s Some show ?thesis by (auto simp: Let_def)
  qed
qed (auto simp: Let_def split: prod.split option.split)

text \<open>
  C24. Nobody leaves unasked. Whatever the goroutines and the other processes do, the suspicion manager ends the
  process by itself only if the administrator has asked some boot of its endpoint to leave; and a receive
  goroutine ends while it handles a datagram only for the same reason, or because its own loop has
  been closed. (A receive goroutine also ends when its socket returns an error; and besides the manager, \<open>log.Fatalf\<close> at a listener
  that cannot be opened, a panic and the shutdown end a process.)
\<close>

theorem interleaved_stops:
  assumes "freach (N, J)" and "procs N i = Some (c, ph, w)" and "J i g = Some j" and "micro g v j w = (w', out, n)"
    and "n = Exit \<or> n = Stop"
  shows "(\<exists>m \<in> leavers N. key_of m = key_of (SelfID (st w))) \<or>
     n = Stop \<and> ((\<exists>r l. g = PingRx r \<and> pings w r = Some l \<and> PStop l) \<or> (\<exists>r l. g = GossipRx r \<and> gossips w r = Some l \<and> GStop l))"
proof -
  have p: "fine_process N c w (J i)" using freach_inv [OF assms(1)] assms(2) by (auto simp: fine_inv_def)
  have l: "has_loop g w" using p assms(3) by (auto simp: fine_process_def loops_ok_def)
  have look: "\<exists>m \<in> leavers N. key_of m = key_of (SelfID (st w))" if "snd (snd (rx_look v m w)) = Stop" for m
    using that listed_left [OF p] by (auto simp: rx_look_def lists_self_left_def list_ex_iff split: prod.splits if_splits)
  have x: "snd (snd (case g of PingRx r \<Rightarrow> ping_rx r v j w | GossipRx r \<Rightarrow> gossip_rx r v j w
      | PingTx r \<Rightarrow> ping_tx r v j w | GossipTx r \<Rightarrow> gossip_tx r v j w | Scanner \<Rightarrow> scanner v j w | _ \<Rightarrow> server v j w)) = n"
    by (metis not_push_stop [OF assms(4,5)] assms(4) snd_conv)
  show ?thesis
  proof (cases g)
    case (PingRx r)
    then show ?thesis
      using x assms(5) ping_rx_stops [of r v j w] look l by (auto simp: has_loop_def ping_enter_def ping_at_def)
  next
    case (GossipRx r)
    then show ?thesis
      using x assms(5) gossip_rx_stops [of r v j w] look l by (auto simp: has_loop_def gossip_enter_def gossip_at_def)
  next
    case Scanner
    then show ?thesis using x assms(5) scanner_stops [of v j w] listed_left [OF p] by auto
  qed (use x assms(5) tx_goes_on server_goes_on in auto)
qed

lemma scan_starts:
  assumes "freach (N, \<lambda>_. no_jobs)" and "procs N 0 = Some (c, ph, w)" and "\<not> panicked w" and "mgr_waits w"
  shows "\<exists>M. freach (M, (\<lambda>_. no_jobs)(0 := no_jobs(Scanner \<mapsto>
      ScanSnap now (TSuspect (sm w)) (TFail (sm w)) (TCleanup (sm w)) (UsePingTimeout (sm w))))) \<and> procs M 0 = Some (c, ph, w)"
proof -
  let ?K = "no_jobs(Scanner \<mapsto> ScanSnap now (TSuspect (sm w)) (TFail (sm w)) (TCleanup (sm w)) (UsePingTimeout (sm w)))"
  have "fstep c (ph, w, no_jobs) {} None {} (ph, w, ?K)"
    by (rule fstep.scan_fires [OF assms(3) _ assms(4)]) (simp add: no_jobs_def)
  then have "fnstep (N, \<lambda>_. no_jobs) (fine_put 0 c None {} w (ph, w, ?K) N, (\<lambda>_. no_jobs)(0 := ?K))"
    by (rule fnstep.move [OF assms(2)]) simp
  from freach.step [OF assms(1) this] show ?thesis
    by (intro exI [of _ "fine_put 0 c None {} w (ph, w, ?K) N"]) (simp add: fine_put_def put_proc_def)
qed

lemma world2_facts:
  "\<not> panicked world2" "mgr_waits world2" "TCleanup (sm world2) = ms 3000" "selfID (st world2) = node 1 7"
proof -
  have s: "sm (fst (http_leave a b d w)) = sm w" "mgr_stop (fst (http_leave a b d w)) = mgr_stop w"
    "mgr_ended (fst (http_leave a b d w)) = mgr_ended w" "panicked (fst (http_leave a b d w)) = panicked w" for a b d w
    by (simp_all add: http_leave_def split: prod.split)
  show "\<not> panicked world2" by (simp add: world2_def s)
  show "mgr_waits world2" by (simp add: world2_def s mgr_waits_def) (auto simp: world1_def ManagerRun_def sample_world_def)
  show "TCleanup (sm world2) = ms 3000"
    by (simp add: world2_def s) (simp add: world1_def ManagerRun_def sample_introducer_def Defaults_def)
  show "selfID (st world2) = node 1 7"
    by (simp add: world2_def world1_def ManagerRun_def http_leave_def split_beta leave_store_inv NewStore_def)
qed

text \<open>Node 1, which has been asked to leave, finds its entry old enough and exits.\<close>

theorem interleaved_stops_witness:
  "\<exists>N J j v w' m. freach (N, J) \<and> procs N 0 = Some (sample_introducer, Serving, world2) \<and> J 0 Scanner = Some j \<and>
     micro Scanner v j world2 = (w', [], Exit) \<and> m \<in> leavers N \<and> key_of m = key_of (node 1 7)"
proof -
  have "procs net2 0 = Some (sample_introducer, Serving, world2)" by (simp add: net2_def put_proc_def)
  then obtain N where n: "freach (N, \<lambda>_. no_jobs)" "procs N 0 = Some (sample_introducer, Serving, world2)"
    using simulated [OF nreach_net2] by metis
  let ?now = "at_wall 3000000008"
  let ?j = "ScanSnap ?now (TSuspect (sm world2)) (TFail (sm world2)) (TCleanup (sm world2)) (UsePingTimeout (sm world2))"
  let ?v = "\<lparr>v_time = ?now, v_ord = [key_of (node 1 7)], v_merge = (\<lambda>_. ?now), v_perm = [], v_nonce = 0,
      v_resolves = (\<lambda>_. True), v_expired = []\<rparr>"
  obtain M where M: "freach (M, (\<lambda>_. no_jobs)(0 := no_jobs(Scanner \<mapsto> ?j)))"
      "procs M 0 = Some (sample_introducer, Serving, world2)"
    using scan_starts [OF n world2_facts(1,2)] by blast
  have "ms 3000 \<le> time_Sub ?now (at_wall 8)" by (simp add: time_defs at_wall_def sat64_def int64_defs ms_def)
  then obtain w' where x: "micro Scanner ?v ?j world2 = (w', [], Exit)"
    by (simp add: micro_def Snapshot_def world2_entry world2_facts)
  have J: "((\<lambda>_. no_jobs)(0 := no_jobs(Scanner \<mapsto> ?j))) 0 Scanner = Some ?j" by simp
  from interleaved_stops [OF M J x] have "\<exists>m \<in> leavers M. key_of m = key_of (node 1 7)"
    using world2_facts(4) by (simp add: SelfID_def)
  then show ?thesis using M J x by blast
qed

end
