(* ===== verification/Unheard.thy ===== *)
theory Unheard
  imports RunProps JoinProps
begin

text \<open>
  A process whose identity is not an IPv4 one keeps the entry for itself in every interleaving: what the
  others send cannot touch it, since they can only name IPv4 identities, and its own scans pass over it. So it lists itself
  in everything it sends, and no receiver accepts that.
\<close>

section \<open>The entry of the local node\<close>

lemma append_last_sep:
  assumes "a @ c # p = b @ c # q" and "c \<notin> set p" and "c \<notin> set q"
  shows "a = b"
proof -
  have r: "rev p @ c # rev a = rev q @ c # rev b" using arg_cong [OF assms(1), of rev] by simp
  have t: "takeWhile (\<lambda>x. x \<noteq> c) (ys @ c # zs) = ys" if "c \<notin> set ys" for ys zs
    using that by (induction ys) auto
  have "rev p = rev q" using t [of "rev p" "rev a"] t [of "rev q" "rev b"] r assms(2,3) by simp
  with r show ?thesis by simp
qed

lemma ipv4_key:
  assumes "Is4 (IP (EP m))" and "\<not> Is4 (IP (EP n))"
  shows "key_of m \<noteq> key_of n"
proof
  assume "key_of m = key_of n"
  then have "Addr_String (IP (EP m)) @ CHR '':'' # dec (unat (Port (EP m))) = Addr_String (IP (EP n)) @ CHR '':'' # dec (unat (Port (EP n)))"
    unfolding EndpointToString_def .
  then have "Addr_String (IP (EP m)) = Addr_String (IP (EP n))" by (rule append_last_sep) (rule dec_no_sep)+
  moreover have "parse_ipv4 (Addr_String (IP (EP m))) \<noteq> None"
    using assms(1) by (cases "IP (EP m)") simp_all
  ultimately show False using parse_ipv4_not_Is4 [OF assms(2)] by simp
qed

definition stays :: "NodeID \<Rightarrow> Store \<Rightarrow> bool" where
  "stays n s \<longleftrightarrow> selfID s = n \<and> store_inv s \<and> (\<exists>e. entries s (key_of n) = Some e \<and> ID e = n)"

lemma stays_snapshot:
  assumes "stays n s" and "Snapshot now ord s = (list, self, s')"
  shows "stays n s'" and "e \<in> set list \<Longrightarrow> key_of (ID e) = key_of n \<Longrightarrow> ID e = n" and "self = n"
proof -
  obtain e where e: "entries s (key_of n) = Some e" "ID e = n" using assms(1) by (auto simp: stays_def)
  obtain m' where m: "snapshot_loop now (selfID s) ord (entries s) = (list, m')" "entries s' = m'" "self = selfID s"
    using assms(2) by (auto simp: Snapshot_def split: prod.splits)
  have "entries s' (key_of n) = (if key_of n \<in> set ord then Some (touch now (selfID s) e) else Some e)"
    using m snapshot_loop_map [OF m(1), of "key_of n"] e(1) by simp
  then have x: "\<exists>e. entries s' (key_of n) = Some e \<and> ID e = n" using e(2) by (auto simp: touch_def)
  have i: "store_inv s'" "selfID s' = selfID s" using snapshot_facts [OF assms(2)] assms(1) by (auto simp: stays_def)
  show "stays n s'" using x i assms(1) by (simp add: stays_def)
  show "self = n" using m(3) assms(1) by (simp add: stays_def)
  show "ID d = n" if d: "d \<in> set list" "key_of (ID d) = key_of n" for d
  proof -
    obtain k where k: "entries s' k = Some d" using Snapshot_listed [OF assms(2) d(1)] by blast
    then have "k = key_of n" using store_invD [OF i(1) k] d(2) by simp
    with k x show ?thesis by simp
  qed
qed

lemma stays_other: "stays n s \<Longrightarrow> store_inv s' \<Longrightarrow> selfID s' = selfID s \<Longrightarrow> entries s' (key_of n) = entries s (key_of n) \<Longrightarrow> stays n s'"
  by (simp add: stays_def)

lemma stays_update:
  assumes "stays n s" and "\<not> Is4 (IP (EP n))" and "Is4 (IP (EP (ID e)))"
  shows "stays n (updateMemberEntry now s e)"
proof (rule stays_other [OF assms(1)])
  have k: "key_of (ID e) \<noteq> key_of n" by (rule ipv4_key [OF assms(3,2)])
  then have "ID e \<noteq> selfID s" using assms(1) by (auto simp: stays_def)
  with k show "entries (updateMemberEntry now s e) (key_of n) = entries s (key_of n)"
    by (simp add: updateMemberEntry_def normalizeBoot_def put_entry_def split: option.split)
qed (use assms(1) in \<open>simp_all add: stays_def store_inv_update\<close>)

lemma stays_merge:
  "stays n s \<Longrightarrow> \<not> Is4 (IP (EP n)) \<Longrightarrow> entries_ok B es \<Longrightarrow> stays n (MergeFullList clk s es)"
  by (induction clk s es rule: MergeFullList.induct) (simp_all add: stays_update entries_ok_def)

lemma stays_apply: "stays n s \<Longrightarrow> stays n (ApplyLocked now s m i x)"
  by (auto simp: stays_def store_inv_intros) (auto simp: ApplyLocked_def apply_entry_def Let_def split: option.split)

lemma stays_remove: "stays n s \<Longrightarrow> key_of m \<noteq> key_of n \<Longrightarrow> stays n (RemoveEntry s m)"
  by (auto simp: stays_def store_inv_intros) (auto simp: RemoveEntry_def split: option.split)

text \<open>What a scan may still judge: the local entry only if it has not left.\<close>

definition spared :: "NodeID \<Rightarrow> MemberEntry \<Rightarrow> bool" where
  "spared n e \<longleftrightarrow> (key_of (ID e) = key_of n \<longrightarrow> ID e = n \<and> EState e \<noteq> StateLeft)"

lemma stays_scan:
  assumes "stays n (fst sn)" and "spared n e"
  shows "stays n (fst (scan_entry clock now tS tF tC sn e))"
proof (cases "ID e = n")
  case True
  then have "fst (scan_entry clock now tS tF tC sn e) = fst sn"
    using assms by (cases sn) (simp add: scan_entry_def spared_def stays_def SelfID_def Let_def)
  then show ?thesis using assms(1) by simp
next
  case False
  then have "key_of (ID e) \<noteq> key_of n" using assms(2) by (auto simp: spared_def)
  then show ?thesis
    using assms(1) by (cases sn) (auto simp: scan_entry_def Let_def stays_apply stays_remove)
qed

lemma stays_reap: "stays n (fst sn) \<Longrightarrow> stays n (fst (reap_rec clock dis es sn rec))"
  by (induction es) (auto simp: stays_apply)

section \<open>The goroutines\<close>

fun job_spares :: "NodeID \<Rightarrow> job \<Rightarrow> bool" where
  "job_spares n (ScanList now tS tF tC u es) = (\<forall>e \<in> set es. spared n e)"
| "job_spares n (Push x p c k) = (\<forall>j \<in> set_option k. job_spares n j)"
| "job_spares n _ = True"

definition remains :: "NodeID \<Rightarrow> World \<times> packet list \<times> continuation \<Rightarrow> bool" where
  "remains n r \<longleftrightarrow> stays n (st (fst r)) \<and> (\<forall>j. snd (snd r) = Goto j \<longrightarrow> job_spares n j)"

lemma remainsI: "stays n (st w) \<Longrightarrow> (\<And>j. k = Goto j \<Longrightarrow> job_spares n j) \<Longrightarrow> remains n (w, out, k)"
  by (simp add: remains_def)

lemma commit_remains:
  "stays n (st w) \<Longrightarrow> (\<And>j. k = Some j \<Longrightarrow> job_spares n j) \<Longrightarrow> remains n (commit_then k w (commit_remote d w))"
  "stays n (st w) \<Longrightarrow> (\<And>j. k = Some j \<Longrightarrow> job_spares n j) \<Longrightarrow> remains n (commit_then k w (commit_local e w))"
  by (auto simp: commit_then_def remains_def resume_def split: option.splits)

lemma rx_remains:
  assumes "stays n (st w)"
  shows "remains n (rx_config m w)" and "remains n (rx_look v m w)"
  using assms stays_snapshot(1) [OF assms, of "v_time v" "v_ord v"]
  by (auto simp: rx_config_def rx_look_def intro!: remainsI commit_remains split: option.split prod.split)

lemma ping_rx_remains:
  assumes "stays n (st w)" and "\<not> Is4 (IP (EP n))" and "job_ok S L A M me j"
  shows "remains n (ping_rx r v j w)"
  using assms stays_snapshot(1) [OF assms(1), of "v_time v" "v_ord v"]
  by (cases "(r, v, j, w)" rule: ping_rx.cases)
    (auto simp: rx_remains rx_merge_def msg_ok_def Let_def intro!: remainsI stays_merge split: prod.split)

lemma gossip_rx_remains:
  assumes "stays n (st w)" and "\<not> Is4 (IP (EP n))" and "job_ok S L A M me j"
  shows "remains n (gossip_rx r v j w)"
  using assms
  by (cases "(r, v, j, w)" rule: gossip_rx.cases)
    (auto simp: rx_remains rx_merge_def msg_ok_def intro!: remainsI stays_merge)

lemma tx_remains:
  assumes "stays n (st w)"
  shows "remains n (ping_tx r v j w)" and "remains n (gossip_tx r v j w)"
proof -
  show "remains n (ping_tx r v j w)"
    using assms stays_snapshot(1) [OF assms, of "v_time v" "v_ord v"]
    by (cases "(r, v, j, w)" rule: ping_tx.cases) (auto simp: Let_def intro!: remainsI split: prod.split option.split)
  show "remains n (gossip_tx r v j w)"
    using assms stays_snapshot(1) [OF assms, of "v_time v" "v_ord v"]
    by (cases "(r, v, j, w)" rule: gossip_tx.cases) (auto simp: Let_def intro!: remainsI split: prod.split)
qed

lemma scanner_remains:
  assumes "stays n (st w)" and "job_spares n j"
  shows "remains n (scanner v j w)"
proof (cases "(v, j, w)" rule: scanner.cases)
  case (1 v' now tS tF tC u w')
  obtain list self s where s: "Snapshot (v_time v) (v_ord v) (st w) = (list, self, s)" by (metis prod.exhaust)
  note t = stays_snapshot [OF assms(1) s]
  show ?thesis
  proof (cases "find (\<lambda>e. ID e = self \<and> EState e = StateLeft) list")
    case None
    then have "\<forall>e \<in> set list. spared n e" using t(2,3) by (auto simp: find_None_iff spared_def)
    with 1 s None t(1) show ?thesis by (auto intro!: remainsI)
  next
    case (Some e)
    with 1 s t(1) show ?thesis by (auto simp: Let_def after_scan_def intro!: remainsI)
  qed
next
  case (3 v' now tS tF tC u e es w')
  then show ?thesis using assms stays_scan [of n "(st w, failMarks (sm w))" e] by (auto simp: set_marks_def intro!: remainsI)
next
  case (8 v' dis es rec recs w')
  then show ?thesis using assms stays_reap [of n "(st w, failMarks (sm w))"] by (auto simp: set_marks_def intro!: remainsI)
qed (use assms stays_snapshot(1) [OF assms(1), of "v_time v" "v_ord v"] in
    \<open>auto simp: Let_def after_scan_def intro!: remainsI split: prod.split option.split\<close>)

lemma server_remains:
  assumes "stays n (st w)" and "\<not> Is4 (IP (EP n))" and "job_ok S L A M me j"
  shows "remains n (server v j w)"
  using assms stays_snapshot(1) [OF assms(1), of "v_time v" "v_ord v"]
  by (cases "(v, j, w)" rule: server.cases)
    (auto simp: stays_apply intro!: remainsI commit_remains stays_merge split: prod.split)

lemma push_remains:
  assumes "stays n (st w)" and "\<forall>j \<in> set_option k. job_spares n j" and "micro g v (Push x p c k) w = (w', out, m)"
  shows "remains n (w', out, m)"
proof -
  have "stays n (st (fst (push_step p c x w)))"
    using assms(1) push_step_store [of p c x w] step_frames(3) [of w p c x] by (simp add: stays_def)
  then show ?thesis
    using micro_push [OF assms(3)] assms(2) by (auto simp: resume_def intro!: remainsI split: option.splits)
qed

lemma micro_remains:
  assumes "stays n (st w)" and "\<not> Is4 (IP (EP n))" and "job_ok S L A M me j" and "job_spares n j"
    and "micro g v j w = (w', out, m)"
  shows "remains n (w', out, m)"
proof (cases "is_push j")
  case True
  then obtain x p c k where "j = Push x p c k" by (auto simp: is_push_def)
  then show ?thesis using push_remains [OF assms(1)] assms(4,5) by auto
next
  case False
  then have "micro g v j w = (case g of PingRx r \<Rightarrow> ping_rx r v j w | GossipRx r \<Rightarrow> gossip_rx r v j w
      | PingTx r \<Rightarrow> ping_tx r v j w | GossipTx r \<Rightarrow> gossip_tx r v j w | Scanner \<Rightarrow> scanner v j w | _ \<Rightarrow> server v j w)"
    unfolding micro_def by (auto split: job.split)
  then have "remains n (micro g v j w)"
    using ping_rx_remains [OF assms(1-3)] gossip_rx_remains [OF assms(1-3)] tx_remains [OF assms(1)]
      scanner_remains [OF assms(1,4)] server_remains [OF assms(1-3)] by (cases g) simp_all
  then show ?thesis using assms(5) by simp
qed

lemma solo_stays:
  assumes "solo_step c g p outs q" and "stays n (st (snd p))"
  shows "stays n (st (snd q))"
  using assms
proof (induction rule: solo_step.induct)
  case (join_fails snap ord w w')
  then show ?case using stays_snapshot(1) [of n "st w" snap ord] by (auto simp: join_request_def split: prod.splits)
next
  case (join_asks snap ord w w' j)
  then show ?case using stays_snapshot(1) [of n "st w" snap ord] by (auto simp: join_request_def split: prod.splits)
next
  case (list_mem h w snap ord)
  then show ?case using stays_snapshot(1) [of n "st w" snap ord] by (auto simp: http_list_mem_def split: prod.splits)
next
  case (suspects h w snap ord)
  then show ?case using stays_snapshot(1) [of n "st w" snap ord] by (auto simp: http_display_suspects_def split: prod.splits)
qed (auto simp: Close_frames startIntroducerServer_def ManagerRun_def ManagerEnd_def split: if_splits)

definition jobs_spare :: "NodeID \<Rightarrow> jobs \<Rightarrow> bool" where
  "jobs_spare n J \<longleftrightarrow> (\<forall>g j. J g = Some j \<longrightarrow> job_spares n j)"

lemma jobs_spare_put: "jobs_spare n J \<Longrightarrow> (\<And>j. m = Some j \<Longrightarrow> job_spares n j) \<Longrightarrow> jobs_spare n (J(g := m))"
  by (auto simp: jobs_spare_def)

lemma fstep_stays:
  assumes "fstep c (ph, w, J) ins j outs (ph', w', J')" and "stays n (st w)" and "jobs_spare n J"
    and "\<not> Is4 (IP (EP n))" and "jobs_ok S L A M me J"
  shows "stays n (st w') \<and> jobs_spare n J'"
  using assms(1)
proof (cases rule: fstep.cases)
  case (run g j' v w1 out m)
  have "job_ok S L A M me j'" "job_spares n j'" using assms(3,5) run(8) by (auto simp: jobs_ok_def jobs_spare_def)
  from micro_remains [OF assms(2,4) this run(9)] show ?thesis
    using run(5,6) assms(3) by (auto simp: remains_def job_next_def intro!: jobs_spare_put split: continuation.splits)
next
  case (solo g)
  then show ?thesis using solo_stays [of c g "(ph, w)" outs "(ph', w')"] assms(2,3) by simp
next
  case (ping_arrive r inp input coin m)
  then show ?thesis
    using assms(2,3) by (auto simp: arrival_def job_next_def intro!: jobs_spare_put split: continuation.splits read.splits if_splits option.splits)
next
  case (gossip_arrive r inp input coin m)
  then show ?thesis
    using assms(2,3) by (auto simp: arrival_def job_next_def intro!: jobs_spare_put split: continuation.splits read.splits if_splits option.splits)
qed (use assms(2,3) in \<open>auto intro!: jobs_spare_put\<close>)

section \<open>The cluster\<close>

lemma never_lost:
  assumes "freach X"
  shows "\<forall>i c ph w. procs (fst X) i = Some (c, ph, w) \<longrightarrow> \<not> Is4 (IP (EP (SelfID (st w)))) \<longrightarrow>
     stays (SelfID (st w)) (st w) \<and> jobs_spare (SelfID (st w)) (snd X i)"
  using assms
proof (induction rule: freach.induct)
  case init
  then show ?case by (simp add: no_net_def)
next
  case (step X Y)
  from step.hyps(2) step.IH freach_inv [OF step.hyps(1)] show ?case
  proof (induction rule: fnstep.induct)
    case (boot N i v c w J)
    obtain self where s: "st w = NewStore (e_now v) self c" using boot_facts [OF main_start_facts(2) [OF boot.hyps(3)]] by blast
    have "stays self (NewStore (e_now v) self c)" by (simp add: stays_def store_inv_New) (simp add: NewStore_def)
    moreover have "jobs_spare self no_jobs" by (simp add: jobs_spare_def no_jobs_def)
    ultimately show ?case using boot.prems(1) s by (auto simp: put_proc_def SelfID_def NewStore_def)
  next
    case (move N i c ph w J ins j outs ph' w' K)
    have p: "fine_process N c w (J i)" using move.prems(2) move.hyps(1) by (simp add: fine_inv_def)
    have self: "SelfID (st w') = SelfID (st w)"
      using move_stepped(4) [OF move.prems(2) move.hyps] by (simp add: SelfID_def)
    have "stays (SelfID (st w')) (st w') \<and> jobs_spare (SelfID (st w')) K" if "\<not> Is4 (IP (EP (SelfID (st w'))))"
      using fstep_stays [OF move.hyps(2)] move.prems(1) move.hyps(1) p that unfolding self fine_process_def by fastforce
    then show ?case using move.prems(1) by (auto simp: fine_put_def put_proc_def)
  next
    case (die N J i)
    then show ?case by auto
  qed
qed

lemma listed_self:
  assumes "stays n s" and "iteration ord (entries s)" and "\<not> Is4 (IP (EP n))"
  shows "\<not> all_ipv4 (fst (Snapshot now ord s))"
proof -
  obtain e where e: "entries s (key_of n) = Some e" "ID e = n" using assms(1) by (auto simp: stays_def)
  then have "touch now (selfID s) e \<in> set (fst (Snapshot now ord s))"
    using Snapshot_list_set [OF assms(2)] by (metis option.simps(9) touched_simps(5))
  moreover have "ID (touch now (selfID s) e) = n" using e(2) by (simp add: touch_def)
  ultimately show ?thesis using assms(3) unfolding all_ipv4_def list_all_iff by metis
qed

lemma unreadable:
  assumes "\<not> all_ipv4 l" and "sane_dto d"
  shows "Option.bind (EncodeMessage \<lparr>MType = t, MNonce = k, MList = l, MCfg = Some d\<rparr>) DecodeMessage = None"
    and "Option.bind (EncodeJoinRequest \<lparr>QList = l\<rparr>) DecodeJoinRequest = None"
    and "Option.bind (EncodeJoinResponse \<lparr>RConfigDTO = d, RList = l\<rparr>) DecodeJoinResponse = None"
proof -
  let ?m = "\<lparr>MType = t, MNonce = k, MList = l, MCfg = Some d\<rparr>"
  show "Option.bind (EncodeMessage ?m) DecodeMessage = None"
    using message_decodes [of ?m] assms by (cases "EncodeMessage ?m") auto
  have j: "Option.bind (EncodeJoinRequest \<lparr>QList = l\<rparr>) DecodeJoinRequest = None \<and>
      Option.bind (EncodeJoinResponse \<lparr>RConfigDTO = d, RList = l\<rparr>) DecodeJoinResponse = None"
  proof (cases "timely l")
    case True
    with assms show ?thesis using join_decodes [of "\<lparr>RConfigDTO = d, RList = l\<rparr>" "\<lparr>QList = l\<rparr>"] by simp
  next
    case False
    then have "enc_list l = None" using enc_list_timely [of l] by auto
    then show ?thesis by (simp add: EncodeJoinRequest_def EncodeJoinResponse_def split: option.split)
  qed
  show "Option.bind (EncodeJoinRequest \<lparr>QList = l\<rparr>) DecodeJoinRequest = None"
    "Option.bind (EncodeJoinResponse \<lparr>RConfigDTO = d, RList = l\<rparr>) DecodeJoinResponse = None" using j by simp_all
qed

section \<open>Properties\<close>

lemma boot_sixteen:
  assumes "boot resolver listens t now c = Inr w" and "resolver (TrimSpace (cSelfAddr c)) = Some (Some b, port)" and "length b = 16"
  shows "\<not> Is4 (IP (EP (SelfID (st w))))"
proof -
  have "AddrFromSlice b = Some (IPv6 (of_nat (be_value b)))"
    using assms(3) by (auto simp: AddrFromSlice_def split: list.split)
  then show ?thesis
    using assms(1,2) by (auto simp: boot_def resolveAddrPortUDP_def Let_def NewNodeID_def NewStore_def SelfID_def split: if_splits)
qed

text \<open>
  C37. A node whose own address resolves to the 16-byte form cannot be heard. \<open>Run\<close> takes the bytes of
  the resolver as they are, so the identity is an IPv6 one. In every state that the cluster can get into,
  however its goroutines interleave, the process lists itself whenever it lists its members, and what it
  sends with such a list, whether a ping, an ack, a gossip, a request to join or the answer to one, is rejected as a
  whole by every receiver (or cannot be encoded).
\<close>

theorem sixteen_byte_address_unheard:
  assumes "main_start v = Inr (c, w0)" and "e_resolver v (TrimSpace (cSelfAddr c)) = Some (Some b, port)" and "length b = 16"
    and "freach (N, J)" and "procs N i = Some (c', ph, w)" and "SelfID (st w) = SelfID (st w0)"
    and "iteration ord (entries (st w))" and "list = fst (Snapshot now ord (st w))" and "sane_dto d"
  shows "Option.bind (EncodeMessage \<lparr>MType = t, MNonce = k, MList = list, MCfg = Some d\<rparr>) DecodeMessage = None \<and>
     Option.bind (EncodeJoinRequest \<lparr>QList = list\<rparr>) DecodeJoinRequest = None \<and>
     Option.bind (EncodeJoinResponse \<lparr>RConfigDTO = d, RList = list\<rparr>) DecodeJoinResponse = None"
proof -
  have n: "\<not> Is4 (IP (EP (SelfID (st w))))"
    unfolding assms(6) by (rule boot_sixteen [OF main_start_facts(2) [OF assms(1)] assms(2,3)])
  then have "stays (SelfID (st w)) (st w)" using never_lost [OF assms(4)] assms(5) by simp
  from unreadable [OF listed_self [OF this assms(7) n, of now] assms(9)] show ?thesis unfolding assms(8) by simp
qed

text \<open>Node 1 behind such a resolver, right after its start.\<close>

definition sample_env16 :: start_env where
  "sample_env16 = sample_env\<lparr>e_resolver := (\<lambda>_. Some (Some [0, 0, 0, 0, 0, 0, 0, 0, 0, 0, 255, 255, 10, 0, 0, 1], 5000))\<rparr>"

lemma sample_main16: "\<exists>w. main_start sample_env16 = Inr (sample_introducer, w)"
  using sample_flags_load
  by (simp add: main_start_def sample_env16_def sample_env_def sample_introducer_def Listen_def boot_def resolveAddrPortUDP_def
      AddrFromSlice_def Let_def)

theorem sixteen_byte_address_unheard_witness:
  "\<exists>N w. freach (N, \<lambda>_. no_jobs) \<and> procs N 0 = Some (sample_introducer, Booted, w) \<and>
     Option.bind (EncodeMessage \<lparr>MType = MsgGossip, MNonce = 0, MList = fst (Snapshot (at_wall 6) [key_of (SelfID (st w))] (st w)),
       MCfg = Some (ToDTO sample_introducer)\<rparr>) DecodeMessage = None"
proof -
  obtain w where w: "main_start sample_env16 = Inr (sample_introducer, w)" using sample_main16 by blast
  let ?N = "(put_proc 0 sample_introducer (Booted, w) no_net)\<lparr>made := {ToDTO sample_introducer}\<rparr>"
  have "flag_ints (e_flags sample_env16)" using flag_ints_sample by (simp add: sample_env16_def)
  from fnstep.boot [of no_net 0, OF _ this w]
  have "fnstep (no_net, \<lambda>_. no_jobs) (?N, (\<lambda>_. no_jobs)(0 := no_jobs))" by (simp add: no_net_def)
  moreover have "(\<lambda>_ :: nat. no_jobs)(0 := no_jobs) = (\<lambda>_. no_jobs)" by (simp add: fun_eq_iff)
  ultimately have N: "freach (?N, \<lambda>_. no_jobs)" using freach.step [OF freach.init] by metis
  have p: "procs ?N 0 = Some (sample_introducer, Booted, w)" by (simp add: put_proc_def)
  have r: "e_resolver sample_env16 (TrimSpace (cSelfAddr sample_introducer)) =
      Some (Some [0, 0, 0, 0, 0, 0, 0, 0, 0, 0, 255, 255, 10, 0, 0, 1], 5000)"
    by (simp add: sample_env16_def)
  obtain self where s: "st w = NewStore (e_now sample_env16) self sample_introducer"
    using boot_facts [OF main_start_facts(2) [OF w]] by blast
  then have i: "iteration [key_of (SelfID (st w))] (entries (st w))" by (simp add: NewStore_def SelfID_def iteration_def)
  have "sane_dto (ToDTO sample_introducer)"
    by (rule sane_ToDTO [OF sample_introducer_ok(1)]) (simp add: sample_introducer_def Defaults_def)
  from sixteen_byte_address_unheard [OF w r _ N p refl i refl this] N p show ?thesis by auto
qed

end
