(* ===== verification/Spec2Isabelle.thy ===== *)
theory Spec2Isabelle
  imports MergeProps StoreProps SuspicionProps DaemonProps JoinProps LoopProps TalkProps AdminProps NetQuiet
    SenderProps ConfigDiff StoreLog Restarts RunProps Unheard
begin

text \<open>
  A verification development for the failure detector under \<open>src/src/pkg\<close>: a daemon that keeps a
  list of the members of a cluster, exchanges it with its peers over UDP, marks silent members Suspect
  and Failed, and removes them.

  \<^bold>\<open>The program.\<close> A node is identified by its endpoint and the time at which it booted (\<open>node\<close>). Every
  node has a store of member entries (\<open>store\<close>), keyed by the text of the endpoint; an entry holds the
  identity, an incarnation number, a state and the time of the last heartbeat. One of two protocol
  loops runs: the gossip loop sends the whole list to some peers at every tick, the ping/ack loop sends
  it as a ping and answers every ping with an ack that carries its own list; both merge every list they
  receive (\<open>protocol\<close>). The suspicion manager scans a snapshot of the store at every tick and changes
  the states of the members by the age of their heartbeats (\<open>suspicion\<close>). The parameters of all this
  are a configuration with a version, whose cluster part travels as a DTO in every message; a node
  adopts a DTO with a higher version (\<open>config\<close>, \<open>wire\<close>). The daemon owns all of these, joins the cluster
  through an introducer, and serves an administrator, who can change the configuration, switch the
  protocol, list the members and make the node leave (\<open>daemon\<close>). The program \<open>memberd\<close> reads the flags and
  runs one daemon.

  \<^bold>\<open>Theories\<close> (each names the files and functions it translates, and uses their names).

    \<^item> \<open>Prelude\<close>: machine integers of Go (64-bit \<open>int\<close> as \<open>int\<close> with \<open>wrap64\<close>, unsigned types as words),
      decimal texts, big-endian bytes. \<open>GoTime\<close>: instants with an optional monotonic reading, saturating
      differences, rounding of \<open>float64\<close>. \<open>Durations\<close>: \<open>Duration.String\<close> and \<open>ParseDuration\<close> of the standard library,
      which carry the timing parameters through the DTO, and their round trip; the parser terminates by
      the length of the rest.
    \<^item> \<open>NodeId\<close>: \<open>node/nodeid.go\<close>; texts, binary form, comparison and validation of identities.
    \<^item> \<open>Configs\<close>: \<open>config/config.go\<close>; validation, flags, DTOs, remote and local changes.
    \<^item> \<open>Membership\<close>: \<open>store/membership.go\<close>; the store is a record with a finite map, its clock readings and
      the iteration order of its map are arguments. \<open>Merging\<close> gives \<open>updateMemberEntry\<close> the specification
      of a merge by rank (boot, incarnation, heartbeat), through the locale \<open>ranked_merge\<close>, which is
      interpreted on it. \<open>MergeProps\<close> and \<open>StoreProps\<close> hold the properties of merging and of exchanges
      between two stores, \<open>Samples\<close> the concrete nodes of the witnesses.
    \<^item> \<open>Inflights\<close>: \<open>protocol/common\<close>; the table of unanswered pings against the history of its operations,
      and the peers of a member list.
    \<^item> \<open>Suspicion\<close>: \<open>suspicion/manager.go\<close>; a scan is a pass over a snapshot in any order, described by
      the locale \<open>sweep\<close> of \<open>Table_Pass\<close>, interpreted on \<open>scan_entry\<close>. \<open>SuspicionProps\<close> holds the life
      of a silent member, of one that left, and the limits of the thresholds.
    \<^item> \<open>Wire\<close>: \<open>wire/codec.go\<close> and the JSON forms of what it sends, as syntax trees; round trips.
    \<^item> \<open>Loops\<close>, \<open>Gossip\<close>, \<open>PingAck\<close>: \<open>protocol/gossip/loop.go\<close> and \<open>protocol/pingack/loop.go\<close>. A loop sees
      the process around it through a record of functions whose laws are the locale \<open>loop_world\<close>; one
      iteration of a receive loop and one tick of a sending loop are functions on that process.
    \<^item> \<open>Daemon\<close>: \<open>daemon/daemon.go\<close>; the process, with heaps for the loop objects and the tables of pings,
      since goroutines outlive the pointers of the daemon. Every handler is a function on it.
    \<^item> \<open>DaemonInv\<close>: the invariant of the process, the interpretation of \<open>loop_world\<close> on the daemon, and the
      preservation by the operations. \<open>DaemonSteps\<close>: the process as a transition system \<open>dstep\<close> with
      arbitrary scheduling and environment, and its reachable states; joining is two steps, between which
      the process waits for the introducer's answer and its other goroutines go on.
    \<^item> \<open>InForce\<close>: when all components work with the current configuration. \<open>LoopLife\<close>: how a loop object
      evolves from its creation to the end of its goroutine.
    \<^item> \<open>DaemonProps\<close>, \<open>JoinProps\<close>, \<open>LoopProps\<close>, \<open>TalkProps\<close>, \<open>AdminProps\<close>: the properties of the process,
      of joining, of the life of the loops and leaving, of the conversation between two nodes, and of
      the switch of the protocol.

    \<^item> \<open>Transport\<close>: \<open>transport/udp.go\<close>; how the socket is opened, and what a closed one reads and sends.
      \<open>Memberd\<close>: \<open>memberd/main.go\<close>; the start of the program from its flags. \<open>ConfigDiff\<close>: \<open>daemon/config_diff.go\<close>; the table that is logged with every change.
      \<open>StoreLog\<close>: what the operations of the store log, and that the log tells every change of a state.
    \<^item> \<open>StoreLaw\<close>: which laws about single entries the store and the suspicion manager keep (the locale
      \<open>entry_law\<close> and its extension \<open>leaving_law\<close>). \<open>ProcLaw\<close>: what the steps of a process then guarantee of
      its entries, its configuration and its packets (the locale \<open>talk_law\<close>). \<open>Network\<close>: any number of processes and the packets they
      have sent, as a transition system \<open>nstep\<close> in which packets are lost, repeated and reordered and
      processes die and start again, with histories of what was said, asked, found silent and
      configured. \<open>NetInv\<close>: its invariant, with the locales interpreted on what is known of a node.
      \<open>NetProps\<close>: the properties of the cluster. \<open>NetQuiet\<close>: the locales interpreted on the age of the
      entries for a node whose process is gone, and how the cluster forgets it.
    \<^item> \<open>SenderProps\<close>: the goroutines that send and their tickers.
    \<^item> The same process at the grain of its locks. \<open>Pushing\<close>: \<open>applyRuntime\<close> and what it calls, access by
      access to the unguarded pointers of the loops (\<open>push_step\<close>), and that undisturbed it is the
      operation of \<open>Daemon\<close>. \<open>Threads\<close>: every goroutine with a job, which remembers its place in the code and
      its local variables, cut at every lock, pointer and packet (\<open>ping_rx\<close>, \<open>gossip_rx\<close>, \<open>ping_tx\<close>,
      \<open>gossip_tx\<close>, \<open>scanner\<close>, \<open>server\<close>), and the steps of a process whose goroutines interleave (\<open>fstep\<close>).
      \<open>Interleaving\<close>: the cluster of such processes (\<open>freach\<close>), and \<open>talk_law\<close> interpreted on what may
      be known of an endpoint; \<open>FineInv\<close> and \<open>FineNet\<close>: its invariant, goroutine by goroutine and for the
      whole. \<open>FineSim\<close> and \<open>FineRefine\<close>: the atomic operations are runs of these steps, so the two models
      fit together. \<open>FineProps\<close> and \<open>Restarts\<close>: what holds of every interleaving, and two schedules in which
      the program goes wrong. \<open>Guarantee\<close>: what each kind of step leaves alone (\<open>mild\<close>) and what it can do to
      the parts that a push depends on (\<open>effect\<close>). \<open>FineSafe\<close>: what every step keeps, and where one can
      panic. \<open>FineForce\<close>: the runs in which changes of the configuration do not overlap (\<open>separate\<close>) and
      their invariant. \<open>RunProps\<close>: the properties of a run from the flags on. \<open>Unheard\<close>: a process with an
      identity that is not an IPv4 one keeps its own entry in every interleaving.

  \<^bold>\<open>What is shown\<close> of functions and single operations. Merging keeps the entry of the higher rank, so that
  within one boot, without accusations of the local node, the order and number of messages do not
  matter; with suspicion enabled it refutes accusations of the node itself at its own incarnation; and one exchange gives two nodes the same members, with
  the same boot, incarnation and heartbeat, but perhaps different states. A scan treats every member by itself; a member that falls silent becomes Suspect, then
  Failed, and is removed after the sum of the thresholds. Pings are answered and settled, ticks reach the
  promised number of different peers, one round of gossip brings the receiver up to date with the
  sender, a stopped loop takes one more datagram, a node that has left merges nothing that it takes
  afterwards, and the handshake with the introducer makes both sides list the same members.

  Of runs whose operations are atomic: the process does not panic, an accepted change is in force
  afterwards in every component and for an introducer always, every belief goes back to what that
  very node said or to a scan that found it silent, and a node whose process has died, with no older
  boot of its endpoint left anywhere, is forgotten by every scan that is late enough. The first three of these
  are steps on the way and do not hold of the program, whose operations interleave.

  Of runs in which the goroutines interleave at every lock, pointer and packet: the configuration is valid and one that
  was made as a whole, identities are kept, tickers have positive periods, members are filed under their
  endpoints; a belief goes back to what boots of that endpoint said, but the steps of one operation
  can mix what different boots said, and a scan can mark the wrong one; nobody stops without being
  asked to leave, except that a closed loop ends; a process panics only where a loop has been cleared or
  closed since its pointer was looked at, and changes of the configuration that do not overlap take
  effect in every component without a panic.

  Several theorems state where the code falls short of its comments: ping timeouts that never act,
  changes that overlap or undo each other, a loop that is closed twice, a ticker that misses a change, the boot
  configuration that replaces the introducer's, a scan that undoes a refutation, thresholds that
  overflow, a NaN drop rate, a \<open>/switch\<close> that rejects its documented values, addresses of 16 bytes.

  \<^bold>\<open>Bounds and termination.\<close> No definition uses fuel: the loops of the code run over lists, maps in a given
  order, or the rest of a text, and each goroutine is cut into its iterations. Integers keep their Go
  width: incarnations, ports, states, nonces and boot times are words; durations, versions and
  fan-outs are integers in the range of \<open>int64\<close> with the wrap-around written out.

  \<^bold>\<open>Parameters.\<close> The resolver, the listener, the clocks, the random permutations, coins and nonces, the order in which Go
  iterates over a map, the bytes that arrive and the answers of peers are arguments of the
  definitions; theorems that need it assume of an order that it lists the keys of the map once, of
  a permutation that it is one, and of the nonces of one tick that they differ.

  \<^bold>\<open>Not modelled.\<close> What the operating system does behind a socket (reading and writing are inputs and outputs of the steps, losses
  are packets that are never read), the size of datagrams and of the receive buffers, the other colours of
  \<open>utils/colors.go\<close>, the log output other than that of the store and of a configuration change (and in the
  lines of the store the text that \<open>%+v\<close> makes of an entry), the byte counters of the loops, and the HTTP
  server, which only runs the handlers (that it fails to listen goes unnoticed). The packets of the
  network are those that processes sent and texts that cannot be decoded; a forger who sends well-formed
  messages is out of scope. JSON text
  and the text of RFC 3339 times are not modelled, only the trees and instants they denote (in UTC); a
  \<open>list\<close> key that occurs twice in one object, case folding and trimming beyond ASCII are out of scope.
  In \<open>DaemonSteps\<close> and \<open>Network\<close> a handler or an iteration of a loop is one step of the process, and the
  theorems about \<open>reachable\<close> and \<open>nreach\<close> are about such runs; \<open>Threads\<close>
  and the theories on it (those about \<open>fruns\<close>, \<open>separate\<close> and \<open>freach\<close>) give this up. There, too, an access to the store, to a table of pings or to the
  configuration under its lock is one step, as are the making of a new loop with the start of its
  goroutines, the writes of one gossip round, and \<open>Close\<close>. Data races in the sense of the Go memory model (\<open>RemoveEntry\<close>
  and the drop rate are accessed without a lock) have no counterpart. After \<open>Close\<close> the process is
  about to exit: the administrator's handlers are not steps any more; and \<open>Close\<close> is a step only once the
  goroutine of the manager has made its channel, since main waits for a signal before.
\<close>

end
